(* ===== verification/Prelude.thy ===== *)
theory Prelude
  imports Complex_Main "HOL-Library.AList" "HOL-Library.Multiset"
begin

text \<open>
  The shared vocabulary of the development: what the Go sources use of the language and of its
  standard library.

  \<^item> 64-bit signed integers with the wrap-around of Go's \<open>int\<close> and \<open>int64\<close> written out
    (\<open>wrap64\<close>); dollar amounts (\<open>float64\<close> in the sources) are exact reals, so rounding, infinities
    and NaN are outside the model.
  \<^item> Instants of \<open>time.Time\<close> as nanoseconds since the Unix epoch, durations as nanoseconds, with the
    saturating \<open>Sub\<close>.
  \<^item> Go maps as association lists with distinct keys, and the interface \<open>go_table\<close> that every
    component uses them through.
  \<^item> Byte strings: \<open>strconv.Itoa\<close>, splitting at a separator byte.
  \<^item> Rings: a list of \<open>n\<close> buckets read as the last \<open>n\<close> seconds of a timeline.
\<close>

section \<open>Collections of rewrite rules\<close>

named_theorems go_simps \<open>unfolding rules of the Go-level helpers\<close>
named_theorems frame_simps \<open>fields an operation does not change\<close>

section \<open>Machine integers\<close>

type_synonym usd = real \<comment> \<open>\<open>float64\<close> amounts\<close>
type_synonym gostring = string \<comment> \<open>byte strings\<close>

abbreviation max_int64 :: int where "max_int64 \<equiv> 9223372036854775807"
abbreviation min_int64 :: int where "min_int64 \<equiv> -9223372036854775808"

definition wrap64 :: "int \<Rightarrow> int" where
  "wrap64 x = (x + 9223372036854775808) mod 18446744073709551616 - 9223372036854775808"

lemma wrap64_id: "min_int64 \<le> x \<Longrightarrow> x \<le> max_int64 \<Longrightarrow> wrap64 x = x"
  by (simp add: wrap64_def)

lemma wrap64_range: "min_int64 \<le> wrap64 x \<and> wrap64 x \<le> max_int64"
proof -
  have "0 \<le> (x + 9223372036854775808) mod 18446744073709551616"
    "(x + 9223372036854775808) mod 18446744073709551616 < 18446744073709551616"
    by simp_all
  then show ?thesis by (simp add: wrap64_def)
qed

lemma wrap64_nonneg: "0 \<le> x \<Longrightarrow> x \<le> max_int64 \<Longrightarrow> wrap64 x = x"
  by (rule wrap64_id) simp_all

lemma wrap64_cong:
  assumes "x mod 18446744073709551616 = y mod 18446744073709551616"
  shows "wrap64 x = wrap64 y"
  unfolding wrap64_def mod_add_cong [OF assms refl] ..

lemma wrap64_mod: "wrap64 x mod 18446744073709551616 = x mod 18446744073709551616"
  unfolding wrap64_def by (simp add: mod_diff_left_eq)

lemma wrap64_add_left: "wrap64 (wrap64 x + y) = wrap64 (x + y)"
  by (rule wrap64_cong) (rule mod_add_cong [OF wrap64_mod refl])

text \<open>A sum of machine integers, accumulated left to right with wrap-around.\<close>

definition wsum :: "int list \<Rightarrow> int" where
  "wsum xs = foldl (\<lambda>t x. wrap64 (t + x)) 0 xs"

lemma foldl_wrap64_exact:
  "(\<forall>x\<in>set xs. 0 \<le> x) \<Longrightarrow> 0 \<le> a \<Longrightarrow> a + sum_list xs \<le> max_int64 \<Longrightarrow>
   foldl (\<lambda>t x. wrap64 (t + x)) a xs = a + sum_list xs"
proof (induction xs arbitrary: a)
  case Nil
  then show ?case by simp
next
  case (Cons x xs)
  then have tl: "0 \<le> sum_list xs" by (auto intro: sum_list_nonneg)
  with Cons.prems have ax: "wrap64 (a + x) = a + x" by (intro wrap64_nonneg) auto
  have "foldl (\<lambda>t x. wrap64 (t + x)) (a + x) xs = a + x + sum_list xs"
    using Cons.prems by (intro Cons.IH) auto
  with ax show ?case by (simp add: algebra_simps)
qed

lemma wsum_exact:
  "(\<forall>x\<in>set xs. 0 \<le> x) \<Longrightarrow> sum_list xs \<le> max_int64 \<Longrightarrow> wsum xs = sum_list xs"
  unfolding wsum_def using foldl_wrap64_exact [of xs 0] by simp

section \<open>Time\<close>

type_synonym instant = int \<comment> \<open>\<open>time.Time\<close>: nanoseconds since the Unix epoch\<close>
type_synonym duration = int \<comment> \<open>\<open>time.Duration\<close>: nanoseconds\<close>

definition second :: duration where [go_simps]: "second = 1000000000"

text \<open>The zero value of \<open>time.Time\<close>, the first instant of year 1.\<close>

definition zero_time :: instant where "zero_time = - 62135596800 * second"

text \<open>\<open>t.Unix()\<close>, and \<open>a.Sub(b)\<close>, which saturates at the extreme durations.\<close>

definition unix :: "instant \<Rightarrow> int" where "unix t = t div second"

definition time_sub :: "instant \<Rightarrow> instant \<Rightarrow> duration" where
  "time_sub a b = max min_int64 (min max_int64 (a - b))"

lemma unix_mono: "a \<le> b \<Longrightarrow> unix a \<le> unix b"
  by (simp add: unix_def second_def zdiv_mono1)

lemma time_sub_le: "0 \<le> d \<Longrightarrow> a - b \<le> d \<Longrightarrow> time_sub a b \<le> d"
  by (auto simp: time_sub_def)

lemma time_sub_gt: "time_sub a b > d \<Longrightarrow> 0 \<le> d \<Longrightarrow> a - b > d"
  by (auto simp: time_sub_def split: if_splits)

lemma time_sub_mono: "a \<le> b \<Longrightarrow> time_sub a c \<le> time_sub b c"
  by (auto simp: time_sub_def)

section \<open>Go maps\<close>

type_synonym ('k, 'v) gomap = "('k \<times> 'v) list"

definition mget :: "('k, 'v) gomap \<Rightarrow> 'k \<Rightarrow> 'v option" where "mget = map_of"
definition mput :: "'k \<Rightarrow> 'v \<Rightarrow> ('k, 'v) gomap \<Rightarrow> ('k, 'v) gomap" where "mput = AList.update"
definition mdel :: "'k \<Rightarrow> ('k, 'v) gomap \<Rightarrow> ('k, 'v) gomap" where "mdel = AList.delete"
definition mlen :: "('k, 'v) gomap \<Rightarrow> nat" where "mlen = length"
definition msweep :: "('k \<Rightarrow> 'v \<Rightarrow> bool) \<Rightarrow> ('k, 'v) gomap \<Rightarrow> ('k, 'v) gomap" where
  "msweep keep m = filter (\<lambda>(k, v). keep k v) m" \<comment> \<open>a \<open>range\<close> loop that deletes the others\<close>
definition mwf :: "('k, 'v) gomap \<Rightarrow> bool" where "mwf m = distinct (map fst m)"

lemmas gomap_defs = mget_def mput_def mdel_def mlen_def msweep_def mwf_def

lemma map_of_filter_distinct:
  "distinct (map fst m) \<Longrightarrow>
   map_of (filter (\<lambda>(k, v). P k v) m) k =
     (case map_of m k of None \<Rightarrow> None | Some v \<Rightarrow> if P k v then Some v else None)"
proof (induction m)
  case (Cons p m)
  obtain a b where p: "p = (a, b)" by (cases p)
  have *: "map_of m a = None" if "a \<notin> fst ` set m" using that by (simp add: map_of_eq_None_iff)
  show ?case using Cons by (cases "k = a") (auto simp: p * split: option.splits)
qed simp

lemma length_card_bound:
  "distinct (map fst m) \<Longrightarrow> length m = card {k. map_of m k \<noteq> None}"
proof -
  assume "distinct (map fst m)"
  then have "card (set (map fst m)) = length (map fst m)" by (rule distinct_card)
  moreover have "{k. map_of m k \<noteq> None} = set (map fst m)"
    by (auto simp: map_of_eq_None_iff)
  ultimately show ?thesis by simp
qed

text \<open>
  The interface of a Go map: what a lookup returns after each operation, and \<open>len\<close> as the number
  of bound keys. The size lemmas every bounded map of the program needs follow from it.
\<close>

locale go_table =
  fixes get :: "'m \<Rightarrow> 'k \<Rightarrow> 'v option"
    and put :: "'k \<Rightarrow> 'v \<Rightarrow> 'm \<Rightarrow> 'm"
    and del :: "'k \<Rightarrow> 'm \<Rightarrow> 'm"
    and sweep :: "('k \<Rightarrow> 'v \<Rightarrow> bool) \<Rightarrow> 'm \<Rightarrow> 'm"
    and len :: "'m \<Rightarrow> nat"
    and inv :: "'m \<Rightarrow> bool"
  assumes get_put: "get (put k v m) x = (if x = k then Some v else get m x)"
    and get_del: "inv m \<Longrightarrow> get (del k m) x = (if x = k then None else get m x)"
    and get_sweep: "inv m \<Longrightarrow> get (sweep P m) x =
          (case get m x of None \<Rightarrow> None | Some v \<Rightarrow> if P x v then Some v else None)"
    and len_card: "inv m \<Longrightarrow> len m = card {k. get m k \<noteq> None}"
    and finite_dom: "finite {k. get m k \<noteq> None}"
    and inv_put: "inv m \<Longrightarrow> inv (put k v m)"
    and inv_del: "inv m \<Longrightarrow> inv (del k m)"
    and inv_sweep: "inv m \<Longrightarrow> inv (sweep P m)"
begin

lemma len_put_new:
  assumes "inv m" "get m k = None"
  shows "len (put k v m) = Suc (len m)"
proof -
  have "{x. get (put k v m) x \<noteq> None} = insert k {x. get m x \<noteq> None}"
    by (auto simp: get_put)
  moreover have "k \<notin> {x. get m x \<noteq> None}" using assms by simp
  ultimately show ?thesis using assms finite_dom [of m] by (simp add: len_card inv_put)
qed

lemma len_put_old:
  assumes "inv m" "get m k = Some w"
  shows "len (put k v m) = len m"
proof -
  have "{x. get (put k v m) x \<noteq> None} = {x. get m x \<noteq> None}"
    using assms by (auto simp: get_put)
  then show ?thesis using assms by (simp add: len_card inv_put)
qed

lemma len_put_le: "inv m \<Longrightarrow> len (put k v m) \<le> Suc (len m)"
  by (cases "get m k") (simp_all add: len_put_new len_put_old)

lemma len_sweep_le:
  assumes "inv m"
  shows "len (sweep P m) \<le> len m"
proof -
  have "{x. get (sweep P m) x \<noteq> None} \<subseteq> {x. get m x \<noteq> None}"
    using assms by (auto simp: get_sweep split: option.splits)
  then show ?thesis using assms finite_dom [of m] by (simp add: len_card inv_sweep card_mono)
qed

lemma len_del_le:
  assumes "inv m"
  shows "len (del k m) \<le> len m"
proof -
  have "{x. get (del k m) x \<noteq> None} \<subseteq> {x. get m x \<noteq> None}"
    using assms by (auto simp: get_del)
  then show ?thesis using assms finite_dom [of m] by (simp add: len_card inv_del card_mono)
qed

end

interpretation gm: go_table mget mput mdel msweep mlen mwf
proof
  show "mget (mput k v m) x = (if x = k then Some v else mget m x)" for k :: 'k and v :: 'v and m x
    by (simp add: gomap_defs update_conv')
  show "mwf m \<Longrightarrow> mget (mdel k m) x = (if x = k then None else mget m x)" for m :: "('k, 'v) gomap" and k x
    by (simp add: gomap_defs delete_conv')
  show "mwf m \<Longrightarrow> mget (msweep P m) x =
      (case mget m x of None \<Rightarrow> None | Some v \<Rightarrow> if P x v then Some v else None)"
    for m :: "('k, 'v) gomap" and P x
    by (simp add: gomap_defs map_of_filter_distinct)
  show "mwf m \<Longrightarrow> mlen m = card {k. mget m k \<noteq> None}" for m :: "('k, 'v) gomap"
    by (simp add: gomap_defs length_card_bound)
  show "finite {k. mget m k \<noteq> None}" for m :: "('k, 'v) gomap"
    using finite_dom_map_of [of m] by (simp add: gomap_defs dom_def)
  show "mwf m \<Longrightarrow> mwf (mput k v m)" for m :: "('k, 'v) gomap" and k v
    by (simp add: gomap_defs distinct_update)
  show "mwf m \<Longrightarrow> mwf (mdel k m)" for m :: "('k, 'v) gomap" and k
    by (simp add: gomap_defs distinct_delete)
  show "mwf m \<Longrightarrow> mwf (msweep P m)" for m :: "('k, 'v) gomap" and P
    by (simp add: gomap_defs distinct_map_filter)
qed

lemma mwf_Nil [simp]: "mwf []" by (simp add: gomap_defs)
lemma mget_Nil [simp]: "mget [] k = None" by (simp add: gomap_defs)
lemma mlen_Nil [simp]: "mlen [] = 0" by (simp add: gomap_defs)

lemmas mget_put [simp] = gm.get_put
lemmas mwf_intros [simp, intro] = gm.inv_put gm.inv_del gm.inv_sweep

text \<open>Evaluation of the map operations on literal maps.\<close>

lemmas gomap_eval = gomap_defs

section \<open>Byte strings\<close>

abbreviation NUL :: char where "NUL \<equiv> CHR 0x00"

text \<open>\<open>strconv.Itoa\<close> on a length: decimal digits, most significant first.\<close>

fun itoa :: "nat \<Rightarrow> gostring" where
  "itoa n = (if n < 10 then [char_of (48 + n)] else itoa (n div 10) @ [char_of (48 + n mod 10)])"

declare itoa.simps [simp del]

definition digit_val :: "char \<Rightarrow> nat" where "digit_val c = of_char c - 48"

definition atoi :: "gostring \<Rightarrow> nat" where
  "atoi s = foldl (\<lambda>a c. 10 * a + digit_val c) 0 s"

lemma digit_val_char_of: "d < 10 \<Longrightarrow> digit_val (char_of (48 + d)) = d"
  by (simp add: digit_val_def of_char_of)

lemma atoi_itoa: "atoi (itoa n) = n"
proof (induction n rule: itoa.induct)
  case (1 n)
  then show ?case
    by (subst itoa.simps) (auto simp: atoi_def digit_val_char_of)
qed

lemma itoa_inject: "itoa m = itoa n \<longleftrightarrow> m = n"
  by (metis atoi_itoa)

lemma itoa_nonempty: "itoa n \<noteq> []"
  by (subst itoa.simps) simp

lemma itoa_chars: "c \<in> set (itoa n) \<Longrightarrow> 48 \<le> (of_char c :: nat) \<and> (of_char c :: nat) < 58"
proof (induction n rule: itoa.induct)
  case (1 n)
  show ?case
  proof (cases "n < 10")
    case True
    with 1 show ?thesis by (subst (asm) (2) itoa.simps) (simp add: of_char_of)
  next
    case False
    with 1 show ?thesis by (subst (asm) (2) itoa.simps) (auto simp: of_char_of)
  qed
qed

text \<open>Two strings agree once they are cut at the first occurrence of a separator.\<close>

lemma append_sep_inject:
  "c \<notin> set xs \<Longrightarrow> c \<notin> set ys \<Longrightarrow> xs @ c # us = ys @ c # vs \<longleftrightarrow> xs = ys \<and> us = vs"
proof (induction xs arbitrary: ys)
  case Nil
  then show ?case by (cases ys) auto
next
  case (Cons x xs)
  then show ?case by (cases ys) auto
qed

text \<open>Likewise at the last occurrence.\<close>

lemma append_last_sep_inject:
  assumes "c \<notin> set us" "c \<notin> set vs"
  shows "xs @ c # us = ys @ c # vs \<longleftrightarrow> xs = ys \<and> us = vs"
proof
  assume "xs @ c # us = ys @ c # vs"
  then have "rev us @ c # rev xs = rev vs @ c # rev ys"
    by (metis append.assoc append_Cons append_Nil rev.simps(2) rev_append)
  with assms show "xs = ys \<and> us = vs" by (simp add: append_sep_inject)
qed simp

section \<open>Lists\<close>

lemma sum_list_nth_conv:
  fixes xs :: "'a::comm_monoid_add list"
  shows "sum_list xs = (\<Sum>i<length xs. xs ! i)"
  by (simp add: sum_list_sum_nth atLeast0LessThan)

lemma triple_eq: "p = (fst p, fst (snd p), snd (snd p))" by simp

lemma count_list_distinct: "distinct xs \<Longrightarrow> x \<in> set xs \<Longrightarrow> count_list xs x = 1"
  by (induction xs) auto

lemma sum_list_zeros [simp]: "sum_list (map (\<lambda>_. 0) xs) = (0::'a::comm_monoid_add)"
  by (induction xs) auto

section \<open>Rings of buckets\<close>

text \<open>
  A ring of \<open>n\<close> buckets whose newest second is \<open>L\<close> holds the seconds \<open>L - n + 1 .. L\<close>; second \<open>s\<close>
  lives at index \<open>s mod n\<close>.
\<close>

definition ring_view :: "'a::zero list \<Rightarrow> int \<Rightarrow> int \<Rightarrow> 'a" where
  "ring_view xs L s =
     (if L - int (length xs) < s \<and> s \<le> L then xs ! nat (s mod int (length xs)) else 0)"

lemma ring_index_inj:
  fixes s t :: int
  assumes "n > 0" "L - int n < s" "s \<le> L" "L - int n < t" "t \<le> L"
    and "s mod int n = t mod int n"
  shows "s = t"
proof -
  have "int n dvd s - t" using assms(6) by (simp add: mod_eq_dvd_iff)
  then obtain k where k: "s - t = int n * k" by (elim dvdE)
  have "\<bar>s - t\<bar> < int n" using assms by linarith
  with k have "\<bar>int n * k\<bar> < int n" by simp
  then have "k = 0" using assms(1)
    by (metis abs_mult abs_of_nat dual_order.strict_iff_not mult_cancel_left1 mult_le_cancel_left1
        of_nat_0_less_iff zero_less_abs_iff zero_less_mult_iff int_one_le_iff_zero_less)
  with k show ?thesis by simp
qed

lemma ring_bij:
  assumes "n > 0"
  shows "bij_betw (\<lambda>s. nat (s mod int n)) {L - int n<..L} {..<n}"
proof (rule bij_betw_imageI)
  show inj: "inj_on (\<lambda>s. nat (s mod int n)) {L - int n<..L}"
  proof (rule inj_onI)
    fix s t
    assume st: "s \<in> {L - int n<..L}" "t \<in> {L - int n<..L}" "nat (s mod int n) = nat (t mod int n)"
    have "0 \<le> s mod int n" "0 \<le> t mod int n" using assms by simp_all
    with st(3) have "s mod int n = t mod int n" by linarith
    with st assms show "s = t" using ring_index_inj [of n L s t] by simp
  qed
  show "(\<lambda>s. nat (s mod int n)) ` {L - int n<..L} = {..<n}"
  proof (rule card_subset_eq)
    show "(\<lambda>s. nat (s mod int n)) ` {L - int n<..L} \<subseteq> {..<n}"
      using assms by (auto simp: nat_less_iff)
    show "card ((\<lambda>s. nat (s mod int n)) ` {L - int n<..L}) = card {..<n}"
      by (simp add: card_image [OF inj])
  qed simp
qed

lemma ring_sum:
  fixes xs :: "'a::comm_monoid_add list"
  assumes "xs \<noteq> []"
  shows "sum_list xs = (\<Sum>s\<in>{L - int (length xs)<..L}. ring_view xs L s)"
proof -
  have "(\<Sum>s\<in>{L - int (length xs)<..L}. ring_view xs L s)
      = (\<Sum>s\<in>{L - int (length xs)<..L}. xs ! nat (s mod int (length xs)))"
    by (rule sum.cong) (auto simp: ring_view_def)
  also have "\<dots> = (\<Sum>i<length xs. xs ! i)"
    using sum.reindex_bij_betw [OF ring_bij [of "length xs" L], of "\<lambda>i. xs ! i"] assms by simp
  finally show ?thesis by (simp add: sum_list_nth_conv)
qed

lemma ring_view_in: "xs \<noteq> [] \<Longrightarrow> ring_view xs L s \<in> insert 0 (set xs)"
proof -
  assume "xs \<noteq> []"
  then have "nat (s mod int (length xs)) < length xs" by (simp add: nat_less_iff)
  then show ?thesis by (simp add: ring_view_def)
qed

lemma ring_view_Nil [simp]: "ring_view [] L s = 0"
  by (auto simp: ring_view_def)

lemma ring_view_zero: "\<forall>x\<in>set xs. x = 0 \<Longrightarrow> ring_view xs L s = 0"
  using ring_view_in [of xs L s] by (cases "xs = []") auto

lemma ring_view_nonneg:
  "\<forall>x\<in>set xs. 0 \<le> x \<Longrightarrow> 0 \<le> ring_view xs L (s::int)" for xs :: "'a::linordered_idom list"
  using ring_view_in [of xs L s] by (cases "xs = []") auto

text \<open>Writing the bucket of the newest second changes the view at that second only.\<close>

lemma ring_view_update:
  assumes "xs \<noteq> []"
  shows "ring_view (xs[nat (L mod int (length xs)) := v]) L s = (if s = L then v else ring_view xs L s)"
proof -
  have idx: "nat (L mod int (length xs)) < length xs" using assms by (simp add: nat_less_iff)
  show ?thesis
  proof (cases "L - int (length xs) < s \<and> s \<le> L \<and> s \<noteq> L")
    case True
    have "nat (s mod int (length xs)) \<noteq> nat (L mod int (length xs))"
    proof
      assume "nat (s mod int (length xs)) = nat (L mod int (length xs))"
      moreover have "0 \<le> s mod int (length xs)" "0 \<le> L mod int (length xs)" using assms by simp_all
      ultimately have "s mod int (length xs) = L mod int (length xs)" by simp
      then have "s = L" using assms True ring_index_inj [of "length xs" L s L] by simp
      with True show False by simp
    qed
    with True show ?thesis by (auto simp: ring_view_def)
  next
    case False
    then show ?thesis using assms idx by (auto simp: ring_view_def)
  qed
qed

end
