(* ===== verification/Window.thy ===== *)
theory Window
  imports Prelude
begin

text \<open>
  The rolling per-second spend window of \<open>internal/firewall/firewall.go\<close> (\<open>window\<close>,
  \<open>newWindow\<close>, \<open>advance\<close>, \<open>add\<close>, \<open>sum\<close>). A window is a ring of \<open>size\<close> dollar buckets and
  \<open>size\<close> token buckets; \<open>lastSlot\<close> is the newest second written.

  The lemmas read a window as a timeline (\<open>usd_view\<close>, \<open>tok_view\<close>: what the ring holds for each second)
  and show that \<open>advance\<close> forgets exactly the seconds that left the window, that \<open>add\<close> writes one
  second, and that \<open>sum\<close> is the total over the last \<open>size\<close> seconds. Seconds are Unix seconds of a
  clock at or after 1970, where Go's truncating \<open>%\<close> agrees with \<open>mod\<close>.
\<close>

section \<open>Model\<close>

record window =
  w_usd :: "usd list"
  w_toks :: "int list"
  w_size :: int
  lastSlot :: int
  primed :: bool

definition newWindow :: "nat \<Rightarrow> window" where
  "newWindow seconds =
     \<lparr>w_usd = replicate seconds 0, w_toks = replicate seconds 0, w_size = int seconds,
      lastSlot = 0, primed = False\<rparr>"

definition slot_idx :: "window \<Rightarrow> int \<Rightarrow> nat" where
  "slot_idx w s = nat (s mod w_size w)"

definition clear_slot :: "int \<Rightarrow> window \<Rightarrow> window" where
  "clear_slot s w = w\<lparr>w_usd := (w_usd w)[slot_idx w s := 0], w_toks := (w_toks w)[slot_idx w s := 0]\<rparr>"

text \<open>
  \<open>advance\<close> returns the (clamped) second to write and the window with every bucket of a second
  elapsed since the last write cleared.
\<close>

definition advance :: "window \<Rightarrow> int \<Rightarrow> int \<times> window" where
  "advance w nowSec =
     (if \<not> primed w then (nowSec, w\<lparr>primed := True, lastSlot := nowSec\<rparr>)
      else if nowSec \<le> lastSlot w then (lastSlot w, w)
      else
        let gap = nowSec - lastSlot w;
            w' = (if gap \<ge> w_size w
                  then w\<lparr>w_usd := map (\<lambda>_. 0) (w_usd w), w_toks := map (\<lambda>_. 0) (w_toks w)\<rparr>
                  else fold clear_slot [lastSlot w + 1..nowSec] w)
        in (nowSec, w'\<lparr>lastSlot := nowSec\<rparr>))"

definition window_add :: "window \<Rightarrow> int \<Rightarrow> usd \<Rightarrow> int \<Rightarrow> window" where
  "window_add w nowSec usd tok =
     (let (sec, w1) = advance w nowSec;
          idx = slot_idx w1 sec;
          u = w_usd w1 ! idx + usd;
          t = wrap64 (w_toks w1 ! idx + tok)
      in w1\<lparr>w_usd := (w_usd w1)[idx := (if u < 0 then 0 else u)],
            w_toks := (w_toks w1)[idx := (if t < 0 then 0 else t)]\<rparr>)"

definition window_sum :: "window \<Rightarrow> int \<Rightarrow> (usd \<times> int) \<times> window" where
  "window_sum w nowSec =
     (let (_, w1) = advance w nowSec;
          u = sum_list (w_usd w1);
          t = wsum (w_toks w1)
      in ((if u < 0 then 0 else u, if t < 0 then 0 else t), w1))"

section \<open>Well-formed windows and their timelines\<close>

text \<open>
  The buckets are never negative, there are \<open>size\<close> of each, and a window that was never written
  holds nothing.
\<close>

definition window_ok :: "window \<Rightarrow> bool" where
  "window_ok w \<longleftrightarrow>
     0 < w_size w \<and> int (length (w_usd w)) = w_size w \<and> int (length (w_toks w)) = w_size w
     \<and> (\<forall>x\<in>set (w_usd w). 0 \<le> x) \<and> (\<forall>x\<in>set (w_toks w). 0 \<le> x \<and> x \<le> max_int64)
     \<and> (\<not> primed w \<longrightarrow> (\<forall>x\<in>set (w_usd w). x = 0) \<and> (\<forall>x\<in>set (w_toks w). x = 0))"

definition usd_view :: "window \<Rightarrow> int \<Rightarrow> usd" where
  "usd_view w s = (if primed w then ring_view (w_usd w) (lastSlot w) s else 0)"

definition tok_view :: "window \<Rightarrow> int \<Rightarrow> int" where
  "tok_view w s = (if primed w then ring_view (w_toks w) (lastSlot w) s else 0)"

text \<open>The second a write at \<open>nowSec\<close> lands in: time never runs backwards for a window.\<close>

definition slot_at :: "window \<Rightarrow> int \<Rightarrow> int" where
  "slot_at w nowSec = (if primed w then max (lastSlot w) nowSec else nowSec)"

lemma newWindow_ok: "0 < n \<Longrightarrow> window_ok (newWindow n)"
  by (auto simp: window_ok_def newWindow_def)

lemma view_newWindow [simp]: "usd_view (newWindow n) s = 0" "tok_view (newWindow n) s = 0"
  by (simp_all add: usd_view_def tok_view_def newWindow_def)

lemma clear_slot_frame [frame_simps]:
  "w_size (clear_slot s w) = w_size w" "lastSlot (clear_slot s w) = lastSlot w"
  "primed (clear_slot s w) = primed w" "length (w_usd (clear_slot s w)) = length (w_usd w)"
  "length (w_toks (clear_slot s w)) = length (w_toks w)"
  by (simp_all add: clear_slot_def)

lemma fold_clear_frame [frame_simps]:
  "w_size (fold clear_slot ss w) = w_size w" "lastSlot (fold clear_slot ss w) = lastSlot w"
  "primed (fold clear_slot ss w) = primed w" "length (w_usd (fold clear_slot ss w)) = length (w_usd w)"
  "length (w_toks (fold clear_slot ss w)) = length (w_toks w)"
  by (induction ss arbitrary: w) (simp_all add: frame_simps)

lemma slot_idx_clear [frame_simps]: "slot_idx (clear_slot s w) u = slot_idx w u"
  by (simp add: slot_idx_def frame_simps)

lemma clear_slot_nth:
  "i < length (w_usd w) \<Longrightarrow> w_usd (clear_slot s w) ! i = (if slot_idx w s = i then 0 else w_usd w ! i)"
  "i < length (w_toks w) \<Longrightarrow> w_toks (clear_slot s w) ! i = (if slot_idx w s = i then 0 else w_toks w ! i)"
  by (simp_all add: clear_slot_def nth_list_update)

lemma fold_clear_nth:
  "i < length (w_usd w) \<Longrightarrow>
   w_usd (fold clear_slot ss w) ! i = (if \<exists>s\<in>set ss. slot_idx w s = i then 0 else w_usd w ! i)"
  "i < length (w_toks w) \<Longrightarrow>
   w_toks (fold clear_slot ss w) ! i = (if \<exists>s\<in>set ss. slot_idx w s = i then 0 else w_toks w ! i)"
  by (induction ss arbitrary: w) (simp_all add: frame_simps clear_slot_nth)

section \<open>Advancing\<close>

lemma advance_frame [frame_simps]:
  "fst (advance w n) = slot_at w n" "w_size (snd (advance w n)) = w_size w"
  "lastSlot (snd (advance w n)) = slot_at w n" "primed (snd (advance w n))"
  "length (w_usd (snd (advance w n))) = length (w_usd w)"
  "length (w_toks (snd (advance w n))) = length (w_toks w)"
  by (auto simp: advance_def slot_at_def Let_def frame_simps)

lemma set_clear_slot:
  "set (w_usd (clear_slot s w)) \<subseteq> insert 0 (set (w_usd w))"
  "set (w_toks (clear_slot s w)) \<subseteq> insert 0 (set (w_toks w))"
  by (simp_all add: clear_slot_def set_update_subset_insert)

lemma set_fold_clear:
  "set (w_usd (fold clear_slot ss w)) \<subseteq> insert 0 (set (w_usd w))"
  "set (w_toks (fold clear_slot ss w)) \<subseteq> insert 0 (set (w_toks w))"
proof (induction ss arbitrary: w)
  case (Cons s ss)
  {
    case 1
    show ?case using Cons.IH(1) [of "clear_slot s w"] set_clear_slot(1) [of s w] by simp blast
  next
    case 2
    show ?case using Cons.IH(2) [of "clear_slot s w"] set_clear_slot(2) [of s w] by simp blast
  }
qed auto

lemma set_advance:
  "set (w_usd (snd (advance w n))) \<subseteq> insert 0 (set (w_usd w))"
  "set (w_toks (snd (advance w n))) \<subseteq> insert 0 (set (w_toks w))"
  using set_fold_clear [of "[lastSlot w + 1..n]" w] by (auto simp: advance_def Let_def)

lemma advance_ok:
  assumes "window_ok w"
  shows "window_ok (snd (advance w n))"
  using assms set_advance [of w n] by (auto simp: window_ok_def frame_simps)

text \<open>The cleared indices are exactly those of the elapsed seconds.\<close>

lemma ring_view_elapsed:
  fixes xs ys :: "'a::zero list"
  assumes ne: "xs \<noteq> []" and len: "length ys = length xs"
    and L: "L < n" "n - L < int (length xs)"
    and ys: "\<And>i. i < length xs \<Longrightarrow>
      ys ! i = (if \<exists>s\<in>{L + 1..n}. nat (s mod int (length xs)) = i then 0 else xs ! i)"
  shows "ring_view ys n s = (if n - int (length xs) < s \<and> s \<le> n then ring_view xs L s else 0)"
proof -
  let ?m = "int (length xs)"
  have idx: "nat (s mod ?m) < length xs" using ne by (simp add: nat_less_iff)
  have hit: "(\<exists>u\<in>{L + 1..n}. nat (u mod ?m) = nat (s mod ?m)) \<longleftrightarrow> L < s"
    if s: "n - ?m < s" "s \<le> n"
  proof
    assume "\<exists>u\<in>{L + 1..n}. nat (u mod ?m) = nat (s mod ?m)"
    then obtain u where "u \<in> {L + 1..n}" and *: "nat (u mod ?m) = nat (s mod ?m)" by blast
    with * have u: "L < u" "u \<le> n" "nat (u mod ?m) = nat (s mod ?m)" by simp_all
    moreover have "0 \<le> u mod ?m" "0 \<le> s mod ?m" using ne by simp_all
    ultimately have "u mod ?m = s mod ?m" by linarith
    moreover have "n - ?m < u" using u L by linarith
    ultimately have "u = s" using ne s u ring_index_inj [of "length xs" n u s] by simp
    with u show "L < s" by simp
  next
    assume "L < s" with s show "\<exists>u\<in>{L + 1..n}. nat (u mod ?m) = nat (s mod ?m)" by force
  qed
  show ?thesis
    using hit idx L ys [OF idx] by (auto simp: ring_view_def len)
qed

lemma view_advance:
  assumes "window_ok w"
  shows "usd_view (snd (advance w n)) s =
      (if slot_at w n - w_size w < s \<and> s \<le> slot_at w n then usd_view w s else 0)" (is ?usd)
    and "tok_view (snd (advance w n)) s =
      (if slot_at w n - w_size w < s \<and> s \<le> slot_at w n then tok_view w s else 0)" (is ?tok)
proof -
  have size: "int (length (w_usd w)) = w_size w" "int (length (w_toks w)) = w_size w" "0 < w_size w"
    using assms by (auto simp: window_ok_def)
  then have ne: "w_usd w \<noteq> []" "w_toks w \<noteq> []" by auto
  consider (fresh) "\<not> primed w" | (behind) "primed w" "n \<le> lastSlot w"
    | (old) "primed w" "lastSlot w < n" "w_size w \<le> n - lastSlot w"
    | (recent) "primed w" "lastSlot w < n" "n - lastSlot w < w_size w" by linarith
  then have "?usd \<and> ?tok"
  proof cases
    case fresh
    with fresh assms show ?thesis
      by (simp add: usd_view_def tok_view_def advance_def window_ok_def ring_view_zero)
  next
    case behind
    then show ?thesis
      by (auto simp: usd_view_def tok_view_def advance_def slot_at_def ring_view_def size)
  next
    case old
    have u: "usd_view w s = 0" "tok_view w s = 0" if "n - w_size w < s"
      using old that by (simp_all add: usd_view_def tok_view_def ring_view_def)
    have "ring_view (map (\<lambda>_. 0) (w_usd w)) n s = (0::usd)" "ring_view (map (\<lambda>_. 0) (w_toks w)) n s = (0::int)"
      by (simp_all add: ring_view_zero)
    with old u show ?thesis
      by (simp add: advance_def slot_at_def usd_view_def [of "_\<lparr>lastSlot := _\<rparr>"]
          tok_view_def [of "_\<lparr>lastSlot := _\<rparr>"])
  next
    case recent
    let ?w = "fold clear_slot [lastSlot w + 1..n] w"
    have u: "ring_view (w_usd ?w) n s =
        (if n - int (length (w_usd w)) < s \<and> s \<le> n then ring_view (w_usd w) (lastSlot w) s else 0)"
      using recent size ne by (intro ring_view_elapsed) (auto simp: frame_simps fold_clear_nth slot_idx_def)
    have t: "ring_view (w_toks ?w) n s =
        (if n - int (length (w_toks w)) < s \<and> s \<le> n then ring_view (w_toks w) (lastSlot w) s else 0)"
      using recent size ne by (intro ring_view_elapsed) (auto simp: frame_simps fold_clear_nth slot_idx_def)
    show ?thesis using recent u t
      by (simp add: usd_view_def tok_view_def advance_def slot_at_def Let_def frame_simps size)
  qed
  then show ?usd ?tok by simp_all
qed

section \<open>Adding and summing\<close>

lemma window_add_frame [frame_simps]:
  "w_size (window_add w n u t) = w_size w" "lastSlot (window_add w n u t) = slot_at w n"
  "primed (window_add w n u t)"
  "length (w_usd (window_add w n u t)) = length (w_usd w)"
  "length (w_toks (window_add w n u t)) = length (w_toks w)"
  by (simp_all add: window_add_def case_prod_unfold Let_def frame_simps)

lemma window_sum_frame [frame_simps]: "snd (window_sum w n) = snd (advance w n)"
  by (simp add: window_sum_def case_prod_unfold Let_def)

lemma window_add_ok:
  assumes "window_ok w"
  shows "window_ok (window_add w n u t)"
proof -
  let ?w = "snd (advance w n)"
  have ok: "window_ok ?w" by (rule advance_ok [OF assms])
  have "wrap64 v \<le> max_int64" for v using wrap64_range [of v] by simp
  then show ?thesis using ok
    by (simp add: window_ok_def window_add_def case_prod_unfold Let_def frame_simps)
      (auto dest!: set_update_subset_insert [THEN subsetD])
qed

lemma window_sum_ok: "window_ok w \<Longrightarrow> window_ok (snd (window_sum w n))"
  by (simp add: frame_simps advance_ok)

lemma view_add:
  assumes "window_ok w"
  shows "usd_view (window_add w n u t) s =
      (if s = slot_at w n then max 0 (usd_view w s + u)
       else if slot_at w n - w_size w < s \<and> s < slot_at w n then usd_view w s else 0)" (is ?usd)
    and "tok_view (window_add w n u t) s =
      (if s = slot_at w n then max 0 (wrap64 (tok_view w s + t))
       else if slot_at w n - w_size w < s \<and> s < slot_at w n then tok_view w s else 0)" (is ?tok)
proof -
  let ?w = "snd (advance w n)" and ?L = "slot_at w n"
  have size: "int (length (w_usd w)) = w_size w" "int (length (w_toks w)) = w_size w" "0 < w_size w"
    using assms by (auto simp: window_ok_def)
  then have len: "int (length (w_usd ?w)) = w_size w" "int (length (w_toks ?w)) = w_size w"
    by (simp_all add: frame_simps)
  with size have ne: "w_usd ?w \<noteq> []" "w_toks ?w \<noteq> []" by auto
  have uL: "w_usd ?w ! nat (?L mod w_size w) = usd_view ?w ?L"
    using size by (simp add: usd_view_def ring_view_def frame_simps len)
  have tL: "w_toks ?w ! nat (?L mod w_size w) = tok_view ?w ?L"
    using size by (simp add: tok_view_def ring_view_def frame_simps len)
  have "usd_view (window_add w n u t) s =
      (if s = ?L then max 0 (usd_view ?w ?L + u) else usd_view ?w s)"
    using ring_view_update [OF ne(1), of ?L] uL len
    by (simp add: usd_view_def window_add_def case_prod_unfold Let_def frame_simps slot_idx_def max_def)
  then show ?usd by (auto simp: view_advance [OF assms] size)
  have "tok_view (window_add w n u t) s =
      (if s = ?L then max 0 (wrap64 (tok_view ?w ?L + t)) else tok_view ?w s)"
    using ring_view_update [OF ne(2), of ?L] tL len
    by (simp add: tok_view_def window_add_def case_prod_unfold Let_def frame_simps slot_idx_def max_def)
  then show ?tok by (auto simp: view_advance [OF assms] size)
qed

lemma view_nonneg:
  assumes "window_ok w"
  shows "0 \<le> usd_view w s" "0 \<le> tok_view w s"
  using assms by (simp_all add: usd_view_def tok_view_def window_ok_def ring_view_nonneg)

text \<open>The seconds of the window that ends at \<open>nowSec\<close>.\<close>

definition window_secs :: "window \<Rightarrow> int \<Rightarrow> int set" where
  "window_secs w nowSec = {slot_at w nowSec - w_size w<..slot_at w nowSec}"

definition usd_total :: "window \<Rightarrow> int \<Rightarrow> usd" where
  "usd_total w nowSec = (\<Sum>s\<in>window_secs w nowSec. usd_view w s)"

definition tok_total :: "window \<Rightarrow> int \<Rightarrow> int" where
  "tok_total w nowSec = (\<Sum>s\<in>window_secs w nowSec. tok_view w s)"

lemma total_nonneg: "window_ok w \<Longrightarrow> 0 \<le> usd_total w n" "window_ok w \<Longrightarrow> 0 \<le> tok_total w n"
  by (simp_all add: usd_total_def tok_total_def view_nonneg sum_nonneg)

lemma window_sum_total:
  assumes "window_ok w"
  shows "fst (fst (window_sum w n)) = usd_total w n"
    and "tok_total w n \<le> max_int64 \<Longrightarrow> snd (fst (window_sum w n)) = tok_total w n"
proof -
  let ?w = "snd (advance w n)" and ?L = "slot_at w n"
  have ok: "window_ok ?w" by (rule advance_ok [OF assms])
  have size: "int (length (w_usd w)) = w_size w" "int (length (w_toks w)) = w_size w" "0 < w_size w"
    using assms by (auto simp: window_ok_def)
  then have "length (w_usd ?w) \<noteq> 0" "length (w_toks ?w) \<noteq> 0" unfolding frame_simps by linarith+
  then have ne: "w_usd ?w \<noteq> []" "w_toks ?w \<noteq> []" by auto
  have "sum_list (w_usd ?w) = (\<Sum>s\<in>window_secs w n. usd_view ?w s)"
    using ring_sum [OF ne(1), of ?L] by (simp only: window_secs_def usd_view_def frame_simps size if_True)
  also have "\<dots> = usd_total w n"
    unfolding usd_total_def by (rule sum.cong) (auto simp: view_advance [OF assms] window_secs_def)
  finally have u: "sum_list (w_usd ?w) = usd_total w n" .
  have "sum_list (w_toks ?w) = (\<Sum>s\<in>window_secs w n. tok_view ?w s)"
    using ring_sum [OF ne(2), of ?L] by (simp only: window_secs_def tok_view_def frame_simps size if_True)
  also have "\<dots> = tok_total w n"
    unfolding tok_total_def by (rule sum.cong) (auto simp: view_advance [OF assms] window_secs_def)
  finally have t: "sum_list (w_toks ?w) = tok_total w n" .
  show "fst (fst (window_sum w n)) = usd_total w n"
    using u total_nonneg [OF assms, of n] by (simp add: window_sum_def case_prod_unfold Let_def)
  assume "tok_total w n \<le> max_int64"
  with t ok have "wsum (w_toks ?w) = tok_total w n"
    by (intro wsum_exact [THEN trans]) (auto simp: window_ok_def)
  then show "snd (fst (window_sum w n)) = tok_total w n"
    using total_nonneg [OF assms, of n] by (simp add: window_sum_def case_prod_unfold Let_def)
qed

text \<open>Reading a window twice in the same second gives the same answer, and a new window is empty.\<close>

lemma advance_again: "snd (advance (snd (advance w n)) n) = snd (advance w n)"
  by (simp add: advance_def [of "snd (advance w n)"] frame_simps) (simp add: slot_at_def)

lemma window_sum_advance [simp]: "window_sum (snd (advance w n)) n = window_sum w n"
  by (simp add: window_sum_def case_prod_unfold advance_again Let_def)

lemma window_sum_new [simp]: "fst (window_sum (newWindow n) s) = (0, 0)"
proof -
  have "wsum (replicate n 0) = 0" by (subst wsum_exact) (auto simp: sum_list_replicate)
  then show ?thesis
    by (simp add: window_sum_def advance_def newWindow_def sum_list_replicate)
qed

text \<open>A non-negative write raises the total of the current window by its amount.\<close>

lemma total_add:
  assumes "window_ok w" "0 \<le> u" "0 \<le> t"
  shows "usd_total (window_add w n u t) n = usd_total w n + u"
    and "tok_total w n + t \<le> max_int64 \<Longrightarrow> tok_total (window_add w n u t) n = tok_total w n + t"
proof -
  have slot: "slot_at (window_add w n u t) n = slot_at w n" by (simp add: slot_at_def frame_simps)
  have secs: "window_secs (window_add w n u t) n = window_secs w n"
    by (simp add: window_secs_def slot frame_simps)
  have "0 < w_size w" using assms(1) by (simp add: window_ok_def)
  then have mem: "slot_at w n \<in> window_secs w n" and fin: "finite (window_secs w n)"
    by (simp_all add: window_secs_def)
  have nn: "0 \<le> usd_view w s" "0 \<le> tok_view w s" for s using view_nonneg [OF assms(1)] by simp_all
  have "usd_total (window_add w n u t) n =
      (\<Sum>s\<in>window_secs w n. usd_view w s + (if s = slot_at w n then u else 0))"
    unfolding usd_total_def secs
    by (rule sum.cong) (use nn assms(2) in \<open>auto simp: view_add [OF assms(1)] window_secs_def\<close>)
  then show "usd_total (window_add w n u t) n = usd_total w n + u"
    using mem fin by (simp add: sum.distrib usd_total_def)
  assume room: "tok_total w n + t \<le> max_int64"
  have "tok_view w (slot_at w n) \<le> tok_total w n"
    unfolding tok_total_def using member_le_sum [OF mem _ fin, of "tok_view w"] nn by simp
  then have wrap: "wrap64 (tok_view w (slot_at w n) + t) = tok_view w (slot_at w n) + t"
    using room nn(2) [of "slot_at w n"] assms(3) by (intro wrap64_nonneg) auto
  have "tok_total (window_add w n u t) n =
      (\<Sum>s\<in>window_secs w n. tok_view w s + (if s = slot_at w n then t else 0))"
    unfolding tok_total_def secs
    by (rule sum.cong) (use nn assms(3) wrap in \<open>auto simp: view_add [OF assms(1)] window_secs_def\<close>)
  then show "tok_total (window_add w n u t) n = tok_total w n + t"
    using mem fin by (simp add: sum.distrib tok_total_def)
qed

text \<open>A signed write moves the total by its amount, as far as the current bucket does not fall below zero.\<close>

lemma total_adjust:
  assumes "window_ok w"
  shows "usd_total (window_add w n d t) n =
    usd_total w n + (max 0 (usd_view w (slot_at w n) + d) - usd_view w (slot_at w n))"
proof -
  have secs: "window_secs (window_add w n d t) n = window_secs w n"
    by (simp add: window_secs_def slot_at_def frame_simps)
  have "0 < w_size w" using assms by (simp add: window_ok_def)
  then have mem: "slot_at w n \<in> window_secs w n" and fin: "finite (window_secs w n)"
    by (simp_all add: window_secs_def)
  have "usd_total (window_add w n d t) n = (\<Sum>s\<in>window_secs w n. usd_view w s +
      (if s = slot_at w n then max 0 (usd_view w s + d) - usd_view w s else 0))"
    unfolding usd_total_def secs
    by (rule sum.cong) (auto simp: view_add [OF assms] window_secs_def)
  then show ?thesis using mem fin by (simp add: sum.distrib usd_total_def)
qed

section \<open>A window is the log of its writes\<close>

text \<open>
  The specification of a window: the list of writes \<open>(second, dollars, tokens)\<close>, and what was
  written in one second or in a range of seconds.
\<close>

type_synonym spend_log = "(int \<times> usd \<times> int) list"

fun window_run :: "window \<Rightarrow> spend_log \<Rightarrow> window" where
  "window_run w [] = w"
| "window_run w ((s, u, t) # es) = window_run (window_add w s u t) es"

definition log_usd :: "spend_log \<Rightarrow> (int \<Rightarrow> bool) \<Rightarrow> usd" where
  "log_usd es P = sum_list (map (\<lambda>(s, u, t). if P s then u else 0) es)"

definition log_tok :: "spend_log \<Rightarrow> (int \<Rightarrow> bool) \<Rightarrow> int" where
  "log_tok es P = sum_list (map (\<lambda>(s, u, t). if P s then t else 0) es)"

definition log_ok :: "spend_log \<Rightarrow> bool" where
  "log_ok es \<longleftrightarrow> sorted (map fst es) \<and> (\<forall>(s, u, t)\<in>set es. 0 \<le> u \<and> 0 \<le> t)
     \<and> log_tok es (\<lambda>_. True) \<le> max_int64"

lemma window_run_snoc: "window_run w (es @ [(s, u, t)]) = window_add (window_run w es) s u t"
  by (induction w es rule: window_run.induct) simp_all

lemma window_run_frame [frame_simps]: "w_size (window_run w es) = w_size w"
  by (induction w es rule: window_run.induct) (simp_all add: frame_simps)

lemma window_run_ok: "window_ok w \<Longrightarrow> window_ok (window_run w es)"
  by (induction w es rule: window_run.induct) (simp_all add: window_add_ok)

lemma log_snoc:
  "log_usd (es @ [(s, u, t)]) P = log_usd es P + (if P s then u else 0)"
  "log_tok (es @ [(s, u, t)]) P = log_tok es P + (if P s then t else 0)"
  by (simp_all add: log_usd_def log_tok_def)

lemma log_tok_le:
  assumes "\<forall>(s, u, t)\<in>set es. 0 \<le> t"
  shows "0 \<le> log_tok es P" "log_tok es P \<le> log_tok es (\<lambda>_. True)"
  using assms by (induction es) (auto simp: log_tok_def)

lemma log_ok_tok: "log_ok es \<Longrightarrow> log_tok es P \<le> max_int64"
  by (rule order_trans [OF log_tok_le(2)]) (auto simp: log_ok_def)

lemma log_none:
  "(\<forall>e\<in>set es. \<not> P (fst e)) \<Longrightarrow> log_usd es P = 0"
  "(\<forall>e\<in>set es. \<not> P (fst e)) \<Longrightarrow> log_tok es P = 0"
  by (induction es) (auto simp: log_usd_def log_tok_def)

lemma log_sum:
  "finite A \<Longrightarrow> (\<Sum>s\<in>A. log_usd es (\<lambda>x. x = s)) = log_usd es (\<lambda>x. x \<in> A)"
  "finite A \<Longrightarrow> (\<Sum>s\<in>A. log_tok es (\<lambda>x. x = s)) = log_tok es (\<lambda>x. x \<in> A)"
  by (induction es) (auto simp: log_usd_def log_tok_def sum.distrib sum.delta)

lemma log_ok_snoc:
  assumes "log_ok (es @ [(s, u, t)])"
  shows "log_ok es" "0 \<le> u" "0 \<le> t" "\<forall>e\<in>set es. fst e \<le> s"
    "log_tok es (\<lambda>x. x = s) + t \<le> max_int64"
proof -
  have nn: "\<forall>(s, u, t)\<in>set es. 0 \<le> t" "0 \<le> t" using assms by (auto simp: log_ok_def)
  have tot: "log_tok es (\<lambda>_. True) + t \<le> max_int64" using assms by (simp add: log_ok_def log_snoc)
  show "log_ok es" "0 \<le> u" "0 \<le> t" "\<forall>e\<in>set es. fst e \<le> s"
    using assms nn(2) by (auto simp: log_ok_def sorted_append log_snoc)
  show "log_tok es (\<lambda>x. x = s) + t \<le> max_int64"
    using tot log_tok_le(2) [OF nn(1), of "\<lambda>x. x = s"] by linarith
qed

text \<open>A window holds a log: second by second, what the log says of the last \<open>n\<close> seconds.\<close>

definition holds_log :: "nat \<Rightarrow> window \<Rightarrow> spend_log \<Rightarrow> bool" where
  "holds_log n w es \<longleftrightarrow>
     window_ok w \<and> w_size w = int n \<and> primed w \<and> lastSlot w = fst (last es)
     \<and> (\<forall>x. usd_view w x = (if fst (last es) - int n < x then log_usd es (\<lambda>s. s = x) else 0))
     \<and> (\<forall>x. tok_view w x = (if fst (last es) - int n < x then log_tok es (\<lambda>s. s = x) else 0))"

lemma holds_log_first:
  assumes "0 < n" "0 \<le> u" "0 \<le> t" "t \<le> max_int64"
  shows "holds_log n (window_add (newWindow n) s u t) [(s, u, t)]"
proof -
  have ok: "window_ok (newWindow n)" by (rule newWindow_ok [OF assms(1)])
  have slot: "slot_at (newWindow n) s = s" and size: "w_size (newWindow n) = int n"
    by (simp_all add: slot_at_def newWindow_def)
  show ?thesis using assms
    by (simp add: holds_log_def window_add_ok [OF ok] frame_simps view_add [OF ok] slot size
        log_usd_def log_tok_def wrap64_nonneg)
qed

lemma holds_log_step:
  assumes h: "holds_log n w es" and "0 < n" and ne: "es \<noteq> []" and l: "log_ok (es @ [(s, u, t)])"
  shows "holds_log n (window_add w s u t) (es @ [(s, u, t)])"
proof -
  note ok = log_ok_snoc [OF l]
  have wok: "window_ok w" and size: "w_size w = int n" using h by (simp_all add: holds_log_def)
  have "fst (last es) \<le> s" using ok(4) ne by simp
  then have slot: "slot_at w s = s" using h by (simp add: slot_at_def holds_log_def)
  have view: "usd_view w x = log_usd es (\<lambda>s. s = x)" "tok_view w x = log_tok es (\<lambda>s. s = x)"
    if "s - int n < x" for x
    using h that \<open>fst (last es) \<le> s\<close> by (auto simp: holds_log_def)
  have later: "log_usd es (\<lambda>y. y = x) = 0" "log_tok es (\<lambda>y. y = x) = 0" if "s < x" for x
    using ok(4) that by (auto intro!: log_none)
  have tnn: "0 \<le> log_tok es (\<lambda>x. x = s)"
    using ok(1) by (intro log_tok_le(1)) (auto simp: log_ok_def)
  have w: "wrap64 (log_tok es (\<lambda>x. x = s) + t) = log_tok es (\<lambda>x. x = s) + t"
    using ok(3,5) tnn by (intro wrap64_nonneg) auto
  have unn: "0 \<le> log_usd es (\<lambda>x. x = s)"
    using view_nonneg(1) [OF wok, of s] view(1) [of s] assms(2) by simp
  have u: "usd_view (window_add w s u t) x =
      (if s - int n < x then log_usd (es @ [(s, u, t)]) (\<lambda>s. s = x) else 0)" for x
    using view(1) [of x] later [of x] unn ok(2) assms(2)
    by (auto simp: view_add [OF wok] slot size log_snoc)
  have v: "tok_view (window_add w s u t) x =
      (if s - int n < x then log_tok (es @ [(s, u, t)]) (\<lambda>s. s = x) else 0)" for x
    using view(2) [of x] later [of x] tnn ok(3) w assms(2)
    by (auto simp: view_add [OF wok] slot size log_snoc)
  show ?thesis using u v
    by (simp add: holds_log_def window_add_ok [OF wok] frame_simps slot size)
qed

lemma holds_log_run:
  "0 < n \<Longrightarrow> log_ok es \<Longrightarrow> es \<noteq> [] \<Longrightarrow> holds_log n (window_run (newWindow n) es) es"
proof (induction es rule: rev_induct)
  case (snoc e es)
  obtain s u t where e: "e = (s, u, t)" by (cases e)
  show ?case
  proof (cases "es = []")
    case True
    with snoc.prems e show ?thesis
      by (auto simp: log_ok_def log_tok_def intro!: holds_log_first)
  next
    case False
    with snoc log_ok_snoc(1) [OF snoc.prems(2) [unfolded e]] show ?thesis
      by (auto simp: e window_run_snoc intro!: holds_log_step)
  qed
qed simp

lemma holds_log_sum:
  assumes h: "holds_log n w es" and "es \<noteq> []" "log_ok es" and now: "fst (last es) \<le> now"
  shows "fst (window_sum w now) =
    (log_usd es (\<lambda>s. now - int n < s \<and> s \<le> now), log_tok es (\<lambda>s. now - int n < s \<and> s \<le> now))"
proof -
  have wok: "window_ok w" using h by (simp add: holds_log_def)
  have secs: "window_secs w now = {now - int n<..now}"
    using h now by (auto simp: window_secs_def slot_at_def holds_log_def)
  have "usd_total w now = (\<Sum>s\<in>{now - int n<..now}. log_usd es (\<lambda>x. x = s))"
    unfolding usd_total_def secs using h now by (intro sum.cong) (auto simp: holds_log_def)
  moreover have "tok_total w now = (\<Sum>s\<in>{now - int n<..now}. log_tok es (\<lambda>x. x = s))"
    unfolding tok_total_def secs using h now by (intro sum.cong) (auto simp: holds_log_def)
  ultimately have tot: "usd_total w now = log_usd es (\<lambda>s. now - int n < s \<and> s \<le> now)"
      "tok_total w now = log_tok es (\<lambda>s. now - int n < s \<and> s \<le> now)"
    by (simp_all add: log_sum)
  have "tok_total w now \<le> max_int64"
    unfolding tot using assms(3) by (rule log_ok_tok)
  with window_sum_total [OF wok, of now] tot show ?thesis by (simp add: prod_eq_iff)
qed

section \<open>Properties\<close>



text \<open>
  Whatever the order of the clock readings and whatever the sign of the amounts (reservations,
  settlements and refunds mixed), no bucket of a window goes negative and the ring keeps its size:
  the well-formedness of windows is invariant under \<open>newWindow\<close>, \<open>advance\<close>, \<open>add\<close> and \<open>sum\<close>.
\<close>
theorem window_ok_invariant:
  "window_ok (window_run (newWindow (Suc n)) es) \<and>
   window_ok (snd (window_sum (window_run (newWindow (Suc n)) es) s)) \<and>
   w_size (snd (window_sum (window_run (newWindow (Suc n)) es) s)) = int (Suc n)"
  by (simp add: newWindow_ok advance_ok window_run_ok frame_simps) (simp add: newWindow_def)

end
