(* ===== verification/KillStore.thy ===== *)
theory KillStore
  imports Prelude
begin

text \<open>
  The in-memory kill store of \<open>internal/firewall/firewall.go\<close> (\<open>memKillStore\<close>) and the interface
  \<open>KillStore\<close> behind which it and the shared (Redis) store stand.

  A kill maps a run key to the instant it was last confirmed. \<open>Kill\<close> refuses a new run when the map is
  full of live kills; \<open>Killed\<close> refreshes a live entry and drops an expired one; \<open>gcLocked\<close> sweeps
  expired entries. The lemmas show that a live kill survives every operation on the store and that the
  map never outgrows its capacity.
\<close>

section \<open>Model\<close>

datatype kill_error = ErrKillStoreFull | KillWriteError string

record memKillStore =
  ks_m :: "(gostring, instant) gomap"
  ks_ttl :: duration
  ks_cap :: nat
  ks_rejected :: nat

definition maxKills :: nat where "maxKills = 100000"

definition newMemKillStore :: "duration \<Rightarrow> memKillStore" where
  "newMemKillStore ttl = \<lparr>ks_m = [], ks_ttl = ttl, ks_cap = maxKills, ks_rejected = 0\<rparr>"

definition ks_gcLocked :: "instant \<Rightarrow> memKillStore \<Rightarrow> memKillStore" where
  "ks_gcLocked now s = s\<lparr>ks_m := msweep (\<lambda>k t. \<not> time_sub now t > ks_ttl s) (ks_m s)\<rparr>"

definition ks_Kill :: "instant \<Rightarrow> gostring \<Rightarrow> memKillStore \<Rightarrow> kill_error option \<times> memKillStore" where
  "ks_Kill now runKey s =
     (if mget (ks_m s) runKey = None \<and> mlen (ks_m s) \<ge> ks_cap s then
        let s' = ks_gcLocked now s
        in if mlen (ks_m s') \<ge> ks_cap s'
           then (Some ErrKillStoreFull, s'\<lparr>ks_rejected := Suc (ks_rejected s')\<rparr>)
           else (None, s'\<lparr>ks_m := mput runKey now (ks_m s')\<rparr>)
      else (None, s\<lparr>ks_m := mput runKey now (ks_m s)\<rparr>))"

definition ks_Killed :: "instant \<Rightarrow> gostring \<Rightarrow> memKillStore \<Rightarrow> bool \<times> memKillStore" where
  "ks_Killed now runKey s =
     (case mget (ks_m s) runKey of
        None \<Rightarrow> (False, s)
      | Some t \<Rightarrow>
          if time_sub now t > ks_ttl s then (False, s\<lparr>ks_m := mdel runKey (ks_m s)\<rparr>)
          else (True, s\<lparr>ks_m := mput runKey now (ks_m s)\<rparr>))"

definition ks_stats :: "memKillStore \<Rightarrow> nat \<times> nat" where
  "ks_stats s = (mlen (ks_m s), ks_rejected s)"

section \<open>Invariant and liveness of kills\<close>

definition ks_ok :: "memKillStore \<Rightarrow> bool" where
  "ks_ok s \<longleftrightarrow> mwf (ks_m s) \<and> mlen (ks_m s) \<le> ks_cap s \<and> 0 \<le> ks_ttl s"

text \<open>A kill of \<open>k\<close> is live at \<open>now\<close>: it is recorded and younger than the TTL.\<close>

definition kill_live :: "instant \<Rightarrow> gostring \<Rightarrow> memKillStore \<Rightarrow> bool" where
  "kill_live now k s \<longleftrightarrow> (\<exists>t. mget (ks_m s) k = Some t \<and> \<not> time_sub now t > ks_ttl s)"

lemma ks_gc_frame [frame_simps]:
  "ks_ttl (ks_gcLocked now s) = ks_ttl s" "ks_cap (ks_gcLocked now s) = ks_cap s"
  "ks_rejected (ks_gcLocked now s) = ks_rejected s"
  by (simp_all add: ks_gcLocked_def)

lemma ks_frame [frame_simps]:
  "ks_ttl (snd (ks_Kill now k s)) = ks_ttl s" "ks_cap (snd (ks_Kill now k s)) = ks_cap s"
  "ks_ttl (snd (ks_Killed now k s)) = ks_ttl s" "ks_cap (snd (ks_Killed now k s)) = ks_cap s"
  by (auto simp: ks_Kill_def ks_Killed_def Let_def frame_simps split: option.splits)

lemma ks_gc_get:
  "mwf (ks_m s) \<Longrightarrow> mget (ks_m (ks_gcLocked now s)) k =
     (case mget (ks_m s) k of None \<Rightarrow> None
      | Some t \<Rightarrow> if time_sub now t > ks_ttl s then None else Some t)"
  by (simp add: ks_gcLocked_def gm.get_sweep split: option.split)

lemma ks_gc_ok: "ks_ok s \<Longrightarrow> ks_ok (ks_gcLocked now s)"
  using gm.len_sweep_le [of "ks_m s" "\<lambda>k t. \<not> time_sub now t > ks_ttl s"]
  by (simp add: ks_ok_def ks_gcLocked_def gm.inv_sweep)

lemma mlen_put_room:
  "mwf m \<Longrightarrow> mlen m \<le> c \<Longrightarrow> mget m k \<noteq> None \<or> mlen m < c \<Longrightarrow> mlen (mput k v m) \<le> c"
  by (cases "mget m k") (auto simp: gm.len_put_old gm.len_put_new)

lemma ks_Kill_ok:
  assumes "ks_ok s"
  shows "ks_ok (snd (ks_Kill now k s))"
proof -
  have gc: "ks_ok (ks_gcLocked now s)" by (rule ks_gc_ok [OF assms])
  show ?thesis using assms gc
    by (auto simp: ks_Kill_def ks_ok_def Let_def frame_simps intro!: mlen_put_room)
qed

lemma ks_Killed_ok:
  assumes "ks_ok s"
  shows "ks_ok (snd (ks_Killed now k s))"
proof (cases "mget (ks_m s) k")
  case (Some t)
  have "mlen (mput k now (ks_m s)) \<le> ks_cap s" "mlen (mdel k (ks_m s)) \<le> ks_cap s"
    using assms Some gm.len_del_le [of "ks_m s" k] by (auto simp: ks_ok_def intro: mlen_put_room)
  with assms Some show ?thesis by (auto simp: ks_Killed_def ks_ok_def)
qed (use assms in \<open>simp add: ks_Killed_def\<close>)

lemma ks_new_ok: "0 \<le> ttl \<Longrightarrow> ks_ok (newMemKillStore ttl)"
  by (simp add: ks_ok_def newMemKillStore_def)

section \<open>The interface of a kill store\<close>

text \<open>
  What a client of a kill store relies on (\<open>Kill\<close> and \<open>Killed\<close> of the Go interface, with the clock
  they read): a successful kill is seen by the next check, and no operation on any run ends a live
  kill. \<open>live now k s\<close> is the provider's reading of ``run \<open>k\<close> is killed in state \<open>s\<close> at time \<open>now\<close>''.
\<close>

locale kill_store =
  fixes kill :: "instant \<Rightarrow> gostring \<Rightarrow> 's \<Rightarrow> 'e option \<times> 's"
    and killed :: "instant \<Rightarrow> gostring \<Rightarrow> 's \<Rightarrow> bool \<times> 's"
    and gc :: "instant \<Rightarrow> 's \<Rightarrow> 's"
    and live :: "instant \<Rightarrow> gostring \<Rightarrow> 's \<Rightarrow> bool"
    and inv :: "'s \<Rightarrow> bool"
  assumes kill_live_now: "inv s \<Longrightarrow> fst (kill now k s) = None \<Longrightarrow> live now k (snd (kill now k s))"
    and killed_iff: "inv s \<Longrightarrow> fst (killed now k s) = live now k s"
    and kill_keeps: "inv s \<Longrightarrow> live now k s \<Longrightarrow> live now k (snd (kill now k' s))"
    and killed_keeps: "inv s \<Longrightarrow> live now k s \<Longrightarrow> live now k (snd (killed now k' s))"
    and gc_keeps: "inv s \<Longrightarrow> live now k s \<Longrightarrow> live now k (gc now s)"
    and live_earlier: "live now k s \<Longrightarrow> now' \<le> now \<Longrightarrow> live now' k s"
    and inv_kill: "inv s \<Longrightarrow> inv (snd (kill now k s))"
    and inv_killed: "inv s \<Longrightarrow> inv (snd (killed now k s))"
    and inv_gc: "inv s \<Longrightarrow> inv (gc now s)"
begin

lemma killed_after_kill:
  "inv s \<Longrightarrow> fst (kill now k s) = None \<Longrightarrow> fst (killed now k (snd (kill now k s)))"
  by (simp add: killed_iff inv_kill kill_live_now)

lemma killed_sticky:
  "inv s \<Longrightarrow> fst (killed now k s) \<Longrightarrow> fst (killed now k (snd (killed now k' s)))"
  by (simp add: killed_iff inv_killed killed_keeps)

end

lemma time_sub_self [simp]: "time_sub t t = 0" by (simp add: time_sub_def)

lemma kill_live_put: "ks_ok s \<Longrightarrow> kill_live now k (s\<lparr>ks_m := mput k now (ks_m s)\<rparr>)"
  by (simp add: kill_live_def ks_ok_def)

lemma kill_live_put_other:
  "0 \<le> ks_ttl s \<Longrightarrow> kill_live now k s \<Longrightarrow> kill_live now k (s\<lparr>ks_m := mput k' now (ks_m s)\<rparr>)"
  by (auto simp: kill_live_def)

lemma kill_live_gc: "ks_ok s \<Longrightarrow> kill_live now k s \<Longrightarrow> kill_live now k (ks_gcLocked now s)"
  by (auto simp: kill_live_def ks_gc_get ks_ok_def frame_simps)

interpretation mem_kills: kill_store ks_Kill ks_Killed ks_gcLocked kill_live ks_ok
proof
  fix s :: memKillStore and now now' :: instant and k k' :: gostring
  assume ok: "ks_ok s"
  then have ok': "ks_ok (ks_gcLocked now s)" by (rule ks_gc_ok)
  have ttl: "0 \<le> ks_ttl s" using ok by (simp add: ks_ok_def)
  show "kill_live now k (snd (ks_Kill now k s))" if "fst (ks_Kill now k s) = None"
    using that ok ok' by (auto simp: ks_Kill_def Let_def kill_live_put split: if_splits)
  show "fst (ks_Killed now k s) = kill_live now k s"
    by (auto simp: ks_Killed_def kill_live_def split: option.split)
  show gc: "kill_live now k (ks_gcLocked now s)" if "kill_live now k s"
    by (rule kill_live_gc [OF ok that])
  show "kill_live now k (snd (ks_Kill now k' s))" if live: "kill_live now k s"
  proof -
    note g = gc [OF live]
    then have "kill_live now k (ks_gcLocked now s\<lparr>ks_rejected := n\<rparr>)" for n
      by (simp add: kill_live_def)
    with live g ttl show ?thesis
      by (auto simp: ks_Kill_def Let_def frame_simps intro!: kill_live_put_other)
  qed
  show "kill_live now k (snd (ks_Killed now k' s))" if live: "kill_live now k s"
    using live ttl ok
    by (auto simp: ks_Killed_def kill_live_def gm.get_del ks_ok_def split: option.split)
next
  fix s :: memKillStore and now now' :: instant and k :: gostring
  assume live: "kill_live now k s" and "now' \<le> now"
  then have "time_sub now' t \<le> time_sub now t" for t by (intro time_sub_mono)
  with live show "kill_live now' k s"
    unfolding kill_live_def by (meson dual_order.strict_trans1)
qed (simp_all add: ks_Kill_ok ks_Killed_ok ks_gc_ok)

section \<open>Interleaved operations\<close>

text \<open>
  The store's mutex makes each call atomic, so concurrent requests are a sequence of timed
  operations. A run collects the answers of the kill checks.
\<close>

datatype ks_op = OpKill gostring | OpKilled gostring | OpGc

fun ks_step :: "instant \<Rightarrow> ks_op \<Rightarrow> memKillStore \<Rightarrow> (gostring \<times> bool) list \<times> memKillStore" where
  "ks_step now (OpKill k) s = ([], snd (ks_Kill now k s))"
| "ks_step now (OpKilled k) s = (let (b, s') = ks_Killed now k s in ([(k, b)], s'))"
| "ks_step now OpGc s = ([], ks_gcLocked now s)"

fun ks_run :: "(instant \<times> ks_op) list \<Rightarrow> memKillStore \<Rightarrow> (gostring \<times> bool) list \<times> memKillStore" where
  "ks_run [] s = ([], s)"
| "ks_run ((now, op) # ops) s =
     (let (a, s') = ks_step now op s; (b, s'') = ks_run ops s' in (a @ b, s''))"

text \<open>
  A schedule attends run \<open>k\<close> from \<open>t0\<close>: the clock does not run backwards past the last check of
  \<open>k\<close>, and no operation comes later than the TTL after it.
\<close>

fun attended :: "gostring \<Rightarrow> duration \<Rightarrow> instant \<Rightarrow> (instant \<times> ks_op) list \<Rightarrow> bool" where
  "attended k ttl t0 [] = True"
| "attended k ttl t0 ((now, op) # ops) =
     (t0 \<le> now \<and> now - t0 \<le> ttl \<and>
      attended k ttl (if op = OpKilled k then now else t0) ops)"

definition stamped :: "instant \<Rightarrow> gostring \<Rightarrow> memKillStore \<Rightarrow> bool" where
  "stamped t0 k s \<longleftrightarrow> (\<exists>t\<ge>t0. mget (ks_m s) k = Some t)"

lemma fresh_stamp: "t0 \<le> t \<Longrightarrow> now - t0 \<le> ttl \<Longrightarrow> 0 \<le> ttl \<Longrightarrow> \<not> time_sub now t > ttl"
  using time_sub_le [of ttl now t] by simp

lemma ks_step_frame [frame_simps]: "ks_ttl (snd (ks_step now op s)) = ks_ttl s"
  by (cases op) (simp_all add: frame_simps case_prod_unfold Let_def)

lemma ks_step_ok: "ks_ok s \<Longrightarrow> ks_ok (snd (ks_step now op s))"
  by (cases op) (simp_all add: ks_Kill_ok ks_Killed_ok ks_gc_ok case_prod_unfold Let_def)

lemma stamped_gc:
  assumes "ks_ok s" "stamped t0 k s" "now - t0 \<le> ks_ttl s"
  shows "stamped t0 k (ks_gcLocked now s)"
proof -
  obtain t where t: "t0 \<le> t" "mget (ks_m s) k = Some t" using assms(2) by (auto simp: stamped_def)
  have "\<not> time_sub now t > ks_ttl s" using t(1) assms by (intro fresh_stamp) (auto simp: ks_ok_def)
  with t assms(1) show ?thesis by (auto simp: stamped_def ks_gc_get ks_ok_def)
qed

lemma stamped_put: "stamped t0 k s \<Longrightarrow> t0 \<le> now \<Longrightarrow> stamped t0 k (s\<lparr>ks_m := mput k' now (ks_m s)\<rparr>)"
  by (auto simp: stamped_def)

lemma stamped_Kill:
  assumes "ks_ok s" "stamped t0 k s" "t0 \<le> now" "now - t0 \<le> ks_ttl s"
  shows "stamped t0 k (snd (ks_Kill now k' s))"
proof -
  have g: "stamped t0 k (ks_gcLocked now s)" by (rule stamped_gc [OF assms(1,2,4)])
  then have "stamped t0 k (ks_gcLocked now s\<lparr>ks_rejected := n\<rparr>)" for n by (simp add: stamped_def)
  with g assms show ?thesis by (auto simp: ks_Kill_def Let_def frame_simps intro: stamped_put)
qed

lemma stamped_Killed:
  assumes "ks_ok s" "stamped t0 k s" "t0 \<le> now" "now - t0 \<le> ks_ttl s"
  shows "stamped t0 k (snd (ks_Killed now k' s))"
    and "k' = k \<Longrightarrow> fst (ks_Killed now k' s) \<and> stamped now k (snd (ks_Killed now k' s))"
proof -
  obtain t where t: "t0 \<le> t" "mget (ks_m s) k = Some t" using assms(2) by (auto simp: stamped_def)
  have fresh: "\<not> time_sub now t > ks_ttl s" using t(1) assms by (intro fresh_stamp) (auto simp: ks_ok_def)
  with t assms show "stamped t0 k (snd (ks_Killed now k' s))"
    by (auto simp: stamped_def ks_Killed_def ks_ok_def gm.get_del split: option.split)
  show "k' = k \<Longrightarrow> fst (ks_Killed now k' s) \<and> stamped now k (snd (ks_Killed now k' s))"
    using t fresh by (simp add: stamped_def ks_Killed_def)
qed

lemma stamped_step:
  assumes "ks_ok s" "stamped t0 k s" "t0 \<le> now" "now - t0 \<le> ks_ttl s"
  shows "stamped (if op = OpKilled k then now else t0) k (snd (ks_step now op s))"
    and "\<forall>(k', b)\<in>set (fst (ks_step now op s)). k' = k \<longrightarrow> b"
  using stamped_Kill [OF assms] stamped_Killed [OF assms] stamped_gc [OF assms(1,2,4)]
  by (cases op; simp add: case_prod_unfold Let_def)+

lemma stamped_run:
  "ks_ok s \<Longrightarrow> stamped t0 k s \<Longrightarrow> attended k (ks_ttl s) t0 ops \<Longrightarrow>
   \<forall>(k', b)\<in>set (fst (ks_run ops s)). k' = k \<longrightarrow> b"
proof (induction ops arbitrary: s t0)
  case (Cons p ops)
  obtain now op where p: "p = (now, op)" by (cases p)
  let ?s = "snd (ks_step now op s)" and ?t = "if op = OpKilled k then now else t0"
  have step: "t0 \<le> now" "now - t0 \<le> ks_ttl s" "attended k (ks_ttl s) ?t ops"
    using Cons.prems(3) by (simp_all add: p)
  note st = stamped_step [OF Cons.prems(1,2) step(1,2), of op]
  have "\<forall>(k', b)\<in>set (fst (ks_run ops ?s)). k' = k \<longrightarrow> b"
    using Cons.IH [OF ks_step_ok [OF Cons.prems(1)] st(1)] step(3) by (simp add: frame_simps)
  with st(2) show ?case by (auto simp: p case_prod_unfold Let_def)
qed simp

section \<open>Properties\<close>

text \<open>
  C6. A killed run stays dead. After a kill that reported success, every later check of that run
  answers ``killed'', whatever other kills, checks and sweeps are interleaved (in particular a full
  map never evicts it), as long as the run is checked at least once per TTL.
\<close>
theorem killed_run_stays_dead:
  assumes "ks_ok s" and "ks_Kill t0 k s = (None, s')" and "attended k (ks_ttl s) t0 ops"
    and "(k, b) \<in> set (fst (ks_run ops s'))"
  shows "b"
proof -
  have s': "s' = snd (ks_Kill t0 k s)" using assms(2) by simp
  have "stamped t0 k s'"
    using assms(1,2) by (auto simp: ks_Kill_def Let_def stamped_def split: if_splits)
  then show ?thesis
    using stamped_run [of s' t0 k ops] assms(3,4) ks_Kill_ok [OF assms(1), of t0 k]
    by (auto simp: s' frame_simps)
qed

theorem killed_run_stays_dead_witness:
  "fst (ks_run [(5, OpKill ''b''), (8, OpKilled ''a''), (9, OpGc), (17, OpKilled ''a'')]
     (snd (ks_Kill 0 ''a'' (newMemKillStore 10)))) = [(''a'', True), (''a'', True)]"
proof -
  let ?ops = "[(5, OpKill ''b''), (8, OpKilled ''a''), (9, OpGc), (17, OpKilled ''a'')]"
  let ?s = "newMemKillStore 10"
  have kill: "ks_Kill 0 ''a'' ?s = (None, snd (ks_Kill 0 ''a'' ?s))"
    by (simp add: ks_Kill_def newMemKillStore_def maxKills_def)
  have att: "attended ''a'' (ks_ttl ?s) 0 ?ops" by (simp add: newMemKillStore_def)
  let ?r = "fst (ks_run ?ops (snd (ks_Kill 0 ''a'' ?s)))"
  have keys: "map fst ?r = [''a'', ''a'']" by (simp add: case_prod_unfold Let_def)
  then obtain b c where r: "?r = [(''a'', b), (''a'', c)]" by (auto simp: map_eq_Cons_conv)
  have "x" if "(''a'', x) \<in> set ?r" for x
    by (rule killed_run_stays_dead [OF ks_new_ok kill att that]) simp
  from this [of b] this [of c] show ?thesis unfolding r by simp
qed

text \<open>
  A kill is refused only by a map full of live kills. \<open>Kill\<close> reports \<open>ErrKillStoreFull\<close> exactly
  when the run is not tracked and at least \<open>cap\<close> tracked kills are still within their TTL; the refusal is
  counted, and the map stays within its capacity after every operation.
\<close>
theorem kill_refused_iff_full:
  assumes "ks_ok s"
  shows "(fst (ks_Kill now k s) = Some ErrKillStoreFull \<longleftrightarrow>
      mget (ks_m s) k = None \<and> ks_cap s \<le> card {r. kill_live now r s}) \<and>
    (fst (ks_Kill now k s) \<noteq> None \<longrightarrow> ks_rejected (snd (ks_Kill now k s)) = Suc (ks_rejected s)) \<and>
    mlen (ks_m (snd (ks_Kill now k s))) \<le> ks_cap s \<and>
    mlen (ks_m (snd (ks_Killed now k s))) \<le> ks_cap s"
proof (intro conjI)
  have wf: "mwf (ks_m s)" using assms by (simp add: ks_ok_def)
  have "{r. mget (ks_m (ks_gcLocked now s)) r \<noteq> None} = {r. kill_live now r s}"
    by (auto simp: ks_gc_get [OF wf] kill_live_def split: option.splits)
  then have gc: "mlen (ks_m (ks_gcLocked now s)) = card {r. kill_live now r s}"
    using ks_gc_ok [OF assms, of now] by (simp add: gm.len_card ks_ok_def)
  moreover have "mlen (ks_m (ks_gcLocked now s)) \<le> mlen (ks_m s)"
    unfolding ks_gcLocked_def using wf by (simp add: gm.len_sweep_le)
  ultimately show "fst (ks_Kill now k s) = Some ErrKillStoreFull \<longleftrightarrow>
      mget (ks_m s) k = None \<and> ks_cap s \<le> card {r. kill_live now r s}"
    by (auto simp: ks_Kill_def Let_def frame_simps)
  show "fst (ks_Kill now k s) \<noteq> None \<longrightarrow> ks_rejected (snd (ks_Kill now k s)) = Suc (ks_rejected s)"
    by (auto simp: ks_Kill_def Let_def frame_simps split: if_splits)
  show "mlen (ks_m (snd (ks_Kill now k s))) \<le> ks_cap s" "mlen (ks_m (snd (ks_Killed now k s))) \<le> ks_cap s"
    using ks_Kill_ok [OF assms, of now k] ks_Killed_ok [OF assms, of now k]
    by (simp_all add: ks_ok_def frame_simps)
qed

theorem kill_refused_iff_full_witness:
  "fst (ks_Kill 3 ''b'' \<lparr>ks_m = [(''a'', 0)], ks_ttl = 10, ks_cap = 1, ks_rejected = 0\<rparr>) = Some ErrKillStoreFull"
proof -
  let ?s = "\<lparr>ks_m = [(''a'', 0)], ks_ttl = 10, ks_cap = 1, ks_rejected = 0\<rparr> :: memKillStore"
  have ok: "ks_ok ?s" by (simp add: ks_ok_def gomap_defs)
  have "{r. kill_live 3 r ?s} = {''a''}" by (auto simp: kill_live_def gomap_defs time_sub_def)
  then show ?thesis using kill_refused_iff_full [OF ok, of 3 "''b''"] by (simp add: gomap_defs)
qed

end
