(* ===== verification/Firewall.thy ===== *)
theory Firewall
  imports Window KillStore
begin

text \<open>
  The runtime spend firewall, \<open>internal/firewall/firewall.go\<close>: limits, scopes, the admit path
  (\<open>Enter\<close>, \<open>EnterChain\<close>, \<open>enterChain\<close>, \<open>enterLocked\<close>, \<open>enterShared\<close>), tickets
  (\<open>Settle\<close>, \<open>Release\<close>), decision-API reservations and kills. This theory is the model; its
  properties are in the theories that import it.

  State: \<open>'w firewall\<close> is the Go struct; \<open>'w\<close> is the state of the shared stores behind the Go
  interfaces \<open>KillStore\<close> and \<open>ScopeStore\<close>, whose methods are the fields of \<open>KillStoreI\<close> and
  \<open>ScopeStoreI\<close>. Every operation takes and returns both. A method reads the clock several times (the
  lock is not held across them); \<open>now i\<close> is its \<open>i\<close>-th reading, with no assumption that the readings
  agree. \<open>hold\<close> is the value \<open>newHoldID\<close> draws from the random source.
\<close>

section \<open>Types\<close>

definition windowSeconds :: nat where "windowSeconds = 60"
definition defaultMaxScopes :: nat where "defaultMaxScopes = 50000"
definition gcInterval :: duration where "gcInterval = 30 * second"
definition idleEvictTTL :: duration where "idleEvictTTL = 2 * int windowSeconds * second"
definition DefaultKillTTL :: duration where "DefaultKillTTL = 24 * 3600 * second"
definition maxScopeKeyLen :: nat where "maxScopeKeyLen = 512"

lemmas fw_consts = windowSeconds_def defaultMaxScopes_def gcInterval_def idleEvictTTL_def
  DefaultKillTTL_def maxScopeKeyLen_def second_def

datatype fw_error =
    ErrKilled
  | ErrBadChain
  | VelocityError gostring int
  | ConcurrencyError gostring

record limits =
  MaxUSDPerMin :: usd
  MaxTokensPerMin :: int
  MaxConcurrent :: int
  LoopThreshold :: int
  MaxUSDPerRun :: usd
  KillTTL :: duration

record scope =
  sc_Name :: gostring
  sc_Key :: gostring
  sc_Limits :: limits

record scopeState =
  st_window :: window
  st_inflight :: int
  st_lastTouch :: instant
  st_runUSD :: usd

record loopState =
  ls_recent :: "gostring list"
  ls_lastTouch :: instant

record 'w KillStoreI =
  ksi_Kill :: "gostring \<Rightarrow> 'w \<Rightarrow> kill_error option \<times> 'w"
  ksi_Killed :: "gostring \<Rightarrow> 'w \<Rightarrow> bool \<times> 'w"

text \<open>
  \<open>Reserve(keys, names, maxUSD, maxTokens, maxInflight, estUSD, estTokens, holdID)\<close> returns
  \<open>(admitted, deniedName, deniedKind, err)\<close>.
\<close>

record 'w ScopeStoreI =
  ss_Reserve :: "gostring list \<Rightarrow> gostring list \<Rightarrow> usd list \<Rightarrow> int list \<Rightarrow> int list \<Rightarrow> usd \<Rightarrow> int \<Rightarrow>
     gostring \<Rightarrow> 'w \<Rightarrow> (bool \<times> gostring \<times> gostring \<times> gostring option) \<times> 'w"
  ss_Settle :: "gostring list \<Rightarrow> usd \<Rightarrow> int \<Rightarrow> 'w \<Rightarrow> gostring option \<times> 'w"
  ss_Release :: "gostring list \<Rightarrow> gostring \<Rightarrow> usd \<Rightarrow> int \<Rightarrow> bool \<Rightarrow> 'w \<Rightarrow> gostring option \<times> 'w"

type_synonym scope_map = "(gostring, scopeState) gomap"
type_synonym loop_map = "(gostring, loopState) gomap"

record 'w firewall =
  fw_enabled :: bool
  fw_limits :: limits
  fw_localKills :: memKillStore
  fw_sharedKills :: "'w KillStoreI option"
  fw_sharedKillErrs :: nat
  fw_scopeStore :: "'w ScopeStoreI option"
  fw_scopeDegraded :: nat
  fw_scopes :: scope_map
  fw_loops :: loop_map
  fw_lastGC :: instant

record 'w ticket =
  tk_fw :: bool \<comment> \<open>\<open>fw != nil\<close>: bound to the firewall, not the inert ticket\<close>
  tk_scopeKeys :: "gostring list"
  tk_runScopeKey :: gostring
  tk_store :: "'w ScopeStoreI option"
  tk_storeKeys :: "gostring list"
  tk_holdID :: gostring
  tk_estUSD :: usd
  tk_estTokens :: int
  tk_released :: bool
  tk_settled :: bool

record fw_stats =
  LocalKills :: nat
  KillRejections :: nat
  SharedKillErrors :: nat
  ScopeDegraded :: nat

definition zero_limits :: limits where
  "zero_limits = \<lparr>MaxUSDPerMin = 0, MaxTokensPerMin = 0, MaxConcurrent = 0, LoopThreshold = 0,
     MaxUSDPerRun = 0, KillTTL = 0\<rparr>"

definition zero_ticket :: "'w ticket" where
  "zero_ticket = \<lparr>tk_fw = False, tk_scopeKeys = [], tk_runScopeKey = [], tk_store = None,
     tk_storeKeys = [], tk_holdID = [], tk_estUSD = 0, tk_estTokens = 0, tk_released = False,
     tk_settled = False\<rparr>"

definition fw_New :: "bool \<Rightarrow> limits \<Rightarrow> 'w firewall" where
  "fw_New enabled limits =
     (let ttl = (if KillTTL limits \<le> 0 then DefaultKillTTL else KillTTL limits)
      in \<lparr>fw_enabled = enabled, fw_limits = limits, fw_localKills = newMemKillStore ttl,
          fw_sharedKills = None, fw_sharedKillErrs = 0, fw_scopeStore = None, fw_scopeDegraded = 0,
          fw_scopes = [], fw_loops = [], fw_lastGC = zero_time\<rparr>)"

definition WithKillStore :: "'w KillStoreI option \<Rightarrow> 'w firewall \<Rightarrow> 'w firewall" where
  "WithKillStore ks f = (case ks of None \<Rightarrow> f | Some k \<Rightarrow> f\<lparr>fw_sharedKills := Some k\<rparr>)"

definition WithScopeStore :: "'w ScopeStoreI option \<Rightarrow> 'w firewall \<Rightarrow> 'w firewall" where
  "WithScopeStore ss f = (case ss of None \<Rightarrow> f | Some k \<Rightarrow> f\<lparr>fw_scopeStore := Some k\<rparr>)"

section \<open>Kills\<close>

definition isKilled :: "instant \<Rightarrow> gostring \<Rightarrow> 'w firewall \<Rightarrow> 'w \<Rightarrow> bool \<times> 'w firewall \<times> 'w" where
  "isKilled now runKey f w =
     (if runKey = [] then (False, f, w)
      else case ks_Killed now runKey (fw_localKills f) of
        (True, lk) \<Rightarrow> (True, f\<lparr>fw_localKills := lk\<rparr>, w)
      | (False, lk) \<Rightarrow>
          (case fw_sharedKills f of
             None \<Rightarrow> (False, f\<lparr>fw_localKills := lk\<rparr>, w)
           | Some ks \<Rightarrow> let (b, w') = ksi_Killed ks runKey w in (b, f\<lparr>fw_localKills := lk\<rparr>, w')))"

definition doKill ::
  "instant \<Rightarrow> gostring \<Rightarrow> 'w firewall \<Rightarrow> 'w \<Rightarrow> kill_error option \<times> 'w firewall \<times> 'w" where
  "doKill now runKey f w =
     (case ks_Kill now runKey (fw_localKills f) of
        (Some e, lk) \<Rightarrow> (Some e, f\<lparr>fw_localKills := lk\<rparr>, w)
      | (None, lk) \<Rightarrow>
          (case fw_sharedKills f of
             None \<Rightarrow> (None, f\<lparr>fw_localKills := lk\<rparr>, w)
           | Some ks \<Rightarrow>
               (case ksi_Kill ks runKey w of
                  (Some e, w') \<Rightarrow>
                    (Some e, f\<lparr>fw_localKills := lk, fw_sharedKillErrs := Suc (fw_sharedKillErrs f)\<rparr>, w')
                | (None, w') \<Rightarrow> (None, f\<lparr>fw_localKills := lk\<rparr>, w'))))"

definition KillRun :: "instant \<Rightarrow> gostring \<Rightarrow> 'w firewall \<Rightarrow> 'w \<Rightarrow> kill_error option \<times> 'w firewall \<times> 'w" where
  "KillRun now runKey f w = (if runKey = [] then (None, f, w) else doKill now runKey f w)"

definition RunKilled :: "instant \<Rightarrow> gostring \<Rightarrow> 'w firewall \<Rightarrow> 'w \<Rightarrow> bool \<times> 'w firewall \<times> 'w" where
  "RunKilled now runKey f w = isKilled now runKey f w"

definition fw_runKey :: "gostring \<Rightarrow> gostring \<Rightarrow> gostring" where
  "fw_runKey ownerKey runID =
     (if runID = [] then []
      else ''run:'' @ itoa (length ownerKey) @ '':'' @ ownerKey @ [NUL] @ runID)"

definition fw_Kill ::
  "instant \<Rightarrow> gostring \<Rightarrow> gostring \<Rightarrow> 'w firewall \<Rightarrow> 'w \<Rightarrow> kill_error option \<times> 'w firewall \<times> 'w" where
  "fw_Kill now ownerKey runID f w =
     (if runID = [] then (None, f, w) else KillRun now (fw_runKey ownerKey runID) f w)"

definition fw_Killed ::
  "instant \<Rightarrow> gostring \<Rightarrow> gostring \<Rightarrow> 'w firewall \<Rightarrow> 'w \<Rightarrow> bool \<times> 'w firewall \<times> 'w" where
  "fw_Killed now ownerKey runID f w =
     (if runID = [] then (False, f, w) else RunKilled now (fw_runKey ownerKey runID) f w)"

definition fw_Stats :: "'w firewall \<Rightarrow> fw_stats" where
  "fw_Stats f = (let (local, rejects) = ks_stats (fw_localKills f)
     in \<lparr>LocalKills = local, KillRejections = rejects, SharedKillErrors = fw_sharedKillErrs f,
         ScopeDegraded = fw_scopeDegraded f\<rparr>)"

section \<open>The locked sections\<close>

definition new_scopeState :: scopeState where
  "new_scopeState = \<lparr>st_window = newWindow windowSeconds, st_inflight = 0, st_lastTouch = zero_time,
     st_runUSD = 0\<rparr>"

text \<open>\<open>ensureScopeLocked\<close> returns the (touched) state of a key and the map holding it.\<close>

definition ensureScopeLocked :: "gostring \<Rightarrow> instant \<Rightarrow> scope_map \<Rightarrow> scopeState \<times> scope_map" where
  "ensureScopeLocked mapKey now m =
     (let st = (case mget m mapKey of None \<Rightarrow> new_scopeState | Some st \<Rightarrow> st);
          st' = st\<lparr>st_lastTouch := now\<rparr>
      in (st', mput mapKey st' m))"

text \<open>\<open>st.window.sum\<close> advances the window it reads, so the check also returns the map.\<close>

definition checkVelocityLocked ::
  "scope \<Rightarrow> usd \<Rightarrow> int \<Rightarrow> instant \<Rightarrow> scope_map \<Rightarrow> fw_error option \<times> scope_map" where
  "checkVelocityLocked sk estUSD estTokens now m =
     (if MaxUSDPerMin (sc_Limits sk) \<le> 0 \<and> MaxTokensPerMin (sc_Limits sk) \<le> 0 then (None, m)
      else case mget m (sc_Key sk) of
        None \<Rightarrow> (None, m)
      | Some st \<Rightarrow>
          (let ((usd, toks), win) = window_sum (st_window st) (unix now);
               m' = mput (sc_Key sk) (st\<lparr>st_window := win\<rparr>) m;
               deny = Some (VelocityError (sc_Name sk) (int windowSeconds))
           in if MaxUSDPerMin (sc_Limits sk) > 0 \<and> usd + estUSD > MaxUSDPerMin (sc_Limits sk)
              then (deny, m')
              else if MaxTokensPerMin (sc_Limits sk) > 0
                      \<and> wrap64 (toks + estTokens) > MaxTokensPerMin (sc_Limits sk)
              then (deny, m')
              else (None, m')))"

fun checkVelocityAll ::
  "scope list \<Rightarrow> usd \<Rightarrow> int \<Rightarrow> instant \<Rightarrow> scope_map \<Rightarrow> fw_error option \<times> scope_map" where
  "checkVelocityAll [] estUSD estTokens now m = (None, m)"
| "checkVelocityAll (sk # sks) estUSD estTokens now m =
     (case checkVelocityLocked sk estUSD estTokens now m of
        (Some e, m') \<Rightarrow> (Some e, m')
      | (None, m') \<Rightarrow> checkVelocityAll sks estUSD estTokens now m')"

fun checkConcurrencyAll :: "scope list \<Rightarrow> scope_map \<Rightarrow> fw_error option" where
  "checkConcurrencyAll [] m = None"
| "checkConcurrencyAll (sk # sks) m =
     (if MaxConcurrent (sc_Limits sk) > 0
         \<and> (case mget m (sc_Key sk) of None \<Rightarrow> False
             | Some st \<Rightarrow> st_inflight st \<ge> MaxConcurrent (sc_Limits sk))
      then Some (ConcurrencyError (sc_Name sk))
      else checkConcurrencyAll sks m)"

definition reserveScope :: "usd \<Rightarrow> int \<Rightarrow> instant \<Rightarrow> gostring \<Rightarrow> scope_map \<Rightarrow> scope_map" where
  "reserveScope estUSD estTokens now k m =
     (let (st, m') = ensureScopeLocked k now m
      in mput k (st\<lparr>st_window := window_add (st_window st) (unix now) estUSD estTokens,
                    st_inflight := st_inflight st + 1\<rparr>) m')"

text \<open>Check every scope, then reserve in every scope; the result is the keys reserved.\<close>

definition checkReserveScopesLocked ::
  "scope list \<Rightarrow> usd \<Rightarrow> int \<Rightarrow> instant \<Rightarrow> scope_map \<Rightarrow> (fw_error + gostring list) \<times> scope_map" where
  "checkReserveScopesLocked keys estUSD estTokens now m =
     (case checkVelocityAll keys estUSD estTokens now m of
        (Some e, m1) \<Rightarrow> (Inl e, m1)
      | (None, m1) \<Rightarrow>
          (case checkConcurrencyAll keys m1 of
             Some e \<Rightarrow> (Inl e, m1)
           | None \<Rightarrow> (Inr (map sc_Key keys), fold (reserveScope estUSD estTokens now) (map sc_Key keys) m1)))"

definition unreserveBudgetLocked :: "gostring \<Rightarrow> usd \<Rightarrow> scope_map \<Rightarrow> scope_map" where
  "unreserveBudgetLocked budgetKey estUSD m =
     (if budgetKey = [] then m
      else case mget m budgetKey of
        None \<Rightarrow> m
      | Some st \<Rightarrow>
          mput budgetKey (st\<lparr>st_runUSD := (if st_runUSD st - estUSD < 0 then 0 else st_runUSD st - estUSD)\<rparr>) m)"

definition tripLoopLocked :: "int \<Rightarrow> gostring \<Rightarrow> gostring \<Rightarrow> instant \<Rightarrow> loop_map \<Rightarrow> bool \<times> loop_map" where
  "tripLoopLocked threshold runKey promptHash now m =
     (let ls = (case mget m runKey of None \<Rightarrow> [] | Some ls \<Rightarrow> ls_recent ls);
          h = wrap64 (threshold * 2);
          histLen = nat (if h < 8 then 8 else h);
          recent = ls @ [promptHash];
          recent' = (if length recent > histLen then drop (length recent - histLen) recent else recent);
          count = length (filter (\<lambda>x. x = promptHash) recent')
      in (int count \<ge> threshold, mput runKey \<lparr>ls_recent = recent', ls_lastTouch = now\<rparr> m))"

definition gcScope :: "instant \<Rightarrow> scopeState \<Rightarrow> scopeState" where
  "gcScope now st = st\<lparr>st_window := snd (window_sum (st_window st) (unix now))\<rparr>"

definition scope_idle :: "instant \<Rightarrow> scopeState \<Rightarrow> bool" where
  "scope_idle now st \<longleftrightarrow>
     (let (usd, toks) = fst (window_sum (st_window st) (unix now))
      in st_inflight st = 0 \<and> usd = 0 \<and> toks = 0 \<and> time_sub now (st_lastTouch st) > idleEvictTTL)"

definition fw_gcLocked :: "instant \<Rightarrow> 'w firewall \<Rightarrow> 'w firewall" where
  "fw_gcLocked now f =
     (if mlen (fw_scopes f) < defaultMaxScopes \<and> time_sub now (fw_lastGC f) < gcInterval then f
      else f\<lparr>fw_lastGC := now,
             fw_scopes := map (\<lambda>(k, st). (k, gcScope now st))
               (msweep (\<lambda>k st. \<not> scope_idle now st) (fw_scopes f)),
             fw_loops := msweep (\<lambda>k ls. \<not> time_sub now (ls_lastTouch ls) > idleEvictTTL) (fw_loops f),
             fw_localKills := ks_gcLocked now (fw_localKills f)\<rparr>)"

definition checkLoopBudgetLocked ::
  "gostring \<Rightarrow> gostring \<Rightarrow> usd \<Rightarrow> usd \<Rightarrow> instant \<Rightarrow> 'w firewall \<Rightarrow> (bool \<times> gostring) \<times> 'w firewall" where
  "checkLoopBudgetLocked runKey promptHash estUSD runMaxUSD now f =
     (let looping = runKey \<noteq> [] \<and> LoopThreshold (fw_limits f) > 0 \<and> promptHash \<noteq> [];
          (trip, f1) =
            (if looping then
               let (b, ls) = tripLoopLocked (LoopThreshold (fw_limits f)) runKey promptHash now (fw_loops f)
               in (b, f\<lparr>fw_loops := ls\<rparr>)
             else (False, f))
      in if trip then ((True, []), f1)
         else if runKey \<noteq> [] \<and> runMaxUSD > 0 then
           let spent = (case mget (fw_scopes f1) runKey of None \<Rightarrow> 0 | Some st \<Rightarrow> st_runUSD st)
           in if spent + estUSD > runMaxUSD then ((True, []), f1)
              else let (st, m) = ensureScopeLocked runKey now (fw_scopes f1)
                   in ((False, runKey),
                       f1\<lparr>fw_scopes := mput runKey (st\<lparr>st_runUSD := st_runUSD st + estUSD\<rparr>) m\<rparr>)
         else ((False, []), f1))"

text \<open>The outcome of a locked admit section.\<close>

datatype 'w locked_result = Tripped | Denied fw_error | Admitted "'w ticket"

definition enterLocked ::
  "scope list \<Rightarrow> gostring \<Rightarrow> gostring \<Rightarrow> usd \<Rightarrow> usd \<Rightarrow> int \<Rightarrow> instant \<Rightarrow> 'w firewall \<Rightarrow>
   'w locked_result \<times> 'w firewall" where
  "enterLocked scopes runKey promptHash runMaxUSD estUSD estTokens now f =
     (let f1 = fw_gcLocked now f;
          ((tripped, budgetKey), f2) = checkLoopBudgetLocked runKey promptHash estUSD runMaxUSD now f1
      in if tripped then (Tripped, f2)
         else case checkReserveScopesLocked scopes estUSD estTokens now (fw_scopes f2) of
           (Inl e, m) \<Rightarrow> (Denied e, f2\<lparr>fw_scopes := unreserveBudgetLocked budgetKey estUSD m\<rparr>)
         | (Inr mapKeys, m) \<Rightarrow>
             (Admitted (zero_ticket\<lparr>tk_fw := True, tk_scopeKeys := mapKeys, tk_runScopeKey := budgetKey,
                          tk_estUSD := estUSD, tk_estTokens := estTokens\<rparr>),
              f2\<lparr>fw_scopes := m\<rparr>))"

section \<open>Shared mode\<close>

definition has_cap :: "scope \<Rightarrow> bool" where
  "has_cap sc \<longleftrightarrow> \<not> (MaxUSDPerMin (sc_Limits sc) \<le> 0 \<and> MaxTokensPerMin (sc_Limits sc) \<le> 0
     \<and> MaxConcurrent (sc_Limits sc) \<le> 0)"

definition sharedCaps ::
  "scope list \<Rightarrow> gostring list \<times> gostring list \<times> usd list \<times> int list \<times> int list" where
  "sharedCaps scopes =
     (let capped = filter has_cap scopes
      in (map sc_Key capped, map sc_Name capped, map (MaxUSDPerMin \<circ> sc_Limits) capped,
          map (MaxTokensPerMin \<circ> sc_Limits) capped, map (MaxConcurrent \<circ> sc_Limits) capped))"

definition reserveLocalLocked ::
  "gostring \<Rightarrow> gostring \<Rightarrow> usd \<Rightarrow> usd \<Rightarrow> instant \<Rightarrow> 'w firewall \<Rightarrow> (bool \<times> gostring) \<times> 'w firewall" where
  "reserveLocalLocked runKey promptHash runMaxUSD estUSD now f =
     checkLoopBudgetLocked runKey promptHash estUSD runMaxUSD now (fw_gcLocked now f)"

definition reserveScopesLocal ::
  "scope list \<Rightarrow> gostring \<Rightarrow> usd \<Rightarrow> int \<Rightarrow> instant \<Rightarrow> 'w firewall \<Rightarrow> (fw_error + 'w ticket) \<times> 'w firewall" where
  "reserveScopesLocal scopes budgetKey estUSD estTokens now f =
     (case checkReserveScopesLocked scopes estUSD estTokens now (fw_scopes f) of
        (Inl e, m) \<Rightarrow> (Inl e, f\<lparr>fw_scopes := unreserveBudgetLocked budgetKey estUSD m\<rparr>)
      | (Inr mapKeys, m) \<Rightarrow>
          (Inr (zero_ticket\<lparr>tk_fw := True, tk_scopeKeys := mapKeys, tk_runScopeKey := budgetKey,
                  tk_estUSD := estUSD, tk_estTokens := estTokens\<rparr>),
           f\<lparr>fw_scopes := m\<rparr>))"

definition releaseBudgetLocked :: "gostring \<Rightarrow> usd \<Rightarrow> 'w firewall \<Rightarrow> 'w firewall" where
  "releaseBudgetLocked budgetKey estUSD f =
     f\<lparr>fw_scopes := unreserveBudgetLocked budgetKey estUSD (fw_scopes f)\<rparr>"

definition enterShared ::
  "'w ScopeStoreI \<Rightarrow> scope list \<Rightarrow> gostring \<Rightarrow> gostring \<Rightarrow> usd \<Rightarrow> usd \<Rightarrow> int \<Rightarrow> gostring \<Rightarrow> (nat \<Rightarrow> instant) \<Rightarrow>
   'w firewall \<Rightarrow> 'w \<Rightarrow> (fw_error + 'w ticket) \<times> 'w firewall \<times> 'w" where
  "enterShared ss scopes runKey promptHash runMaxUSD estUSD estTokens hold now f w =
     (let ((tripped, budgetKey), f1) = reserveLocalLocked runKey promptHash runMaxUSD estUSD (now 1) f
      in if tripped then
           (let (_, f2, w2) = doKill (now 2) runKey f1 w in (Inl ErrKilled, f2, w2))
         else
           (let (keys, names, maxUSD, maxTok, maxConc) = sharedCaps scopes
            in if keys = [] then
                 (Inr (zero_ticket\<lparr>tk_fw := True, tk_runScopeKey := budgetKey, tk_estUSD := estUSD,
                         tk_estTokens := estTokens\<rparr>), f1, w)
               else
                 (case ss_Reserve ss keys names maxUSD maxTok maxConc estUSD estTokens hold w of
                    ((admitted, dname, dkind, Some err), w1) \<Rightarrow>
                      (let (r, f2) = reserveScopesLocal scopes budgetKey estUSD estTokens (now 2)
                             (f1\<lparr>fw_scopeDegraded := Suc (fw_scopeDegraded f1)\<rparr>)
                       in (r, f2, w1))
                  | ((False, dname, dkind, None), w1) \<Rightarrow>
                      (Inl (if dkind = ''concurrency'' then ConcurrencyError dname
                            else VelocityError dname (int windowSeconds)),
                       releaseBudgetLocked budgetKey estUSD f1, w1)
                  | ((True, dname, dkind, None), w1) \<Rightarrow>
                      (Inr (zero_ticket\<lparr>tk_fw := True, tk_store := fw_scopeStore f1, tk_storeKeys := keys,
                              tk_holdID := hold, tk_runScopeKey := budgetKey, tk_estUSD := estUSD,
                              tk_estTokens := estTokens\<rparr>), f1, w1))))"

section \<open>Admit\<close>

definition enterChain ::
  "scope list \<Rightarrow> gostring \<Rightarrow> gostring \<Rightarrow> usd \<Rightarrow> usd \<Rightarrow> int \<Rightarrow> gostring \<Rightarrow> (nat \<Rightarrow> instant) \<Rightarrow>
   'w firewall \<Rightarrow> 'w \<Rightarrow> (fw_error + 'w ticket) \<times> 'w firewall \<times> 'w" where
  "enterChain scopes runKey promptHash runMaxUSD estUSD0 estTokens0 hold now f w =
     (let estUSD = (if estUSD0 < 0 then 0 else estUSD0);
          estTokens = (if estTokens0 < 0 then 0 else estTokens0);
          (dead, f1, w1) = isKilled (now 0) runKey f w
      in if dead then (Inl ErrKilled, f1, w1)
         else case fw_scopeStore f1 of
           Some ss \<Rightarrow> enterShared ss scopes runKey promptHash runMaxUSD estUSD estTokens hold now f1 w1
         | None \<Rightarrow>
             (case enterLocked scopes runKey promptHash runMaxUSD estUSD estTokens (now 1) f1 of
                (Tripped, f2) \<Rightarrow> (let (_, f3, w3) = doKill (now 2) runKey f2 w1 in (Inl ErrKilled, f3, w3))
              | (Denied e, f2) \<Rightarrow> (Inl e, f2, w1)
              | (Admitted tk, f2) \<Rightarrow> (Inr tk, f2, w1)))"

definition fw_Enter ::
  "gostring \<Rightarrow> gostring \<Rightarrow> gostring \<Rightarrow> usd \<Rightarrow> int \<Rightarrow> gostring \<Rightarrow> (nat \<Rightarrow> instant) \<Rightarrow>
   'w firewall \<Rightarrow> 'w \<Rightarrow> (fw_error + 'w ticket) \<times> 'w firewall \<times> 'w" where
  "fw_Enter key runID promptHash estUSD estTokens hold now f w =
     (if \<not> fw_enabled f then (Inr zero_ticket, f, w)
      else
        (let runKey = fw_runKey key runID;
             scopes = (if key \<noteq> [] then [\<lparr>sc_Name = ''key'', sc_Key = ''key:'' @ key, sc_Limits = fw_limits f\<rparr>] else [])
               @ (if runKey \<noteq> [] then [\<lparr>sc_Name = ''run'', sc_Key = runKey, sc_Limits = fw_limits f\<rparr>] else [])
         in enterChain scopes runKey promptHash (MaxUSDPerRun (fw_limits f)) estUSD estTokens hold now f w))"

text \<open>The validation loop of \<open>EnterChain\<close>: \<open>None\<close> on a bad key, else the run scopes seen, the last run's key and cap.\<close>

fun scanChain :: "scope list \<Rightarrow> nat \<times> gostring \<times> usd \<Rightarrow> (nat \<times> gostring \<times> usd) option" where
  "scanChain [] acc = Some acc"
| "scanChain (sc # scs) (runScopes, runKey, runMaxUSD) =
     (if sc_Key sc = [] \<or> length (sc_Key sc) > maxScopeKeyLen then None
      else if sc_Name sc = ''run''
      then scanChain scs (Suc runScopes, sc_Key sc, MaxUSDPerRun (sc_Limits sc))
      else scanChain scs (runScopes, runKey, runMaxUSD))"

definition fw_EnterChain ::
  "scope list \<Rightarrow> gostring \<Rightarrow> usd \<Rightarrow> int \<Rightarrow> gostring \<Rightarrow> (nat \<Rightarrow> instant) \<Rightarrow>
   'w firewall \<Rightarrow> 'w \<Rightarrow> (fw_error + 'w ticket) \<times> 'w firewall \<times> 'w" where
  "fw_EnterChain scopes promptHash estUSD estTokens hold now f w =
     (if \<not> fw_enabled f then (Inr zero_ticket, f, w)
      else case scanChain scopes (0, [], 0) of
        None \<Rightarrow> (Inl ErrBadChain, f, w)
      | Some (runScopes, runKey, runMaxUSD) \<Rightarrow>
          if runScopes > 1 then (Inl ErrBadChain, f, w)
          else enterChain scopes runKey promptHash runMaxUSD estUSD estTokens hold now f w)"

section \<open>Settling and releasing\<close>

definition adjustScope :: "instant \<Rightarrow> usd \<Rightarrow> int \<Rightarrow> gostring \<Rightarrow> scope_map \<Rightarrow> scope_map" where
  "adjustScope now dUSD dTokens k m =
     (case mget m k of
        None \<Rightarrow> m
      | Some st \<Rightarrow> mput k (st\<lparr>st_window := window_add (st_window st) (unix now) dUSD dTokens\<rparr>) m)"

definition adjustRunUSD :: "gostring \<Rightarrow> usd \<Rightarrow> scope_map \<Rightarrow> scope_map" where
  "adjustRunUSD k d m =
     (if k = [] then m
      else case mget m k of
        None \<Rightarrow> m
      | Some st \<Rightarrow> mput k (st\<lparr>st_runUSD := (if st_runUSD st + d < 0 then 0 else st_runUSD st + d)\<rparr>) m)"

definition tk_Settle ::
  "usd \<Rightarrow> int \<Rightarrow> instant \<Rightarrow> 'w ticket \<Rightarrow> 'w firewall \<Rightarrow> 'w \<Rightarrow> 'w ticket \<times> 'w firewall \<times> 'w" where
  "tk_Settle actualUSD actualTokens now tk f w =
     (if \<not> tk_fw tk \<or> tk_settled tk \<or> tk_released tk then (tk, f, w)
      else
        (let dUSD = actualUSD - tk_estUSD tk;
             dTok = wrap64 (actualTokens - tk_estTokens tk);
             m1 = fold (adjustScope now dUSD dTok) (tk_scopeKeys tk) (fw_scopes f);
             f1 = f\<lparr>fw_scopes := adjustRunUSD (tk_runScopeKey tk) dUSD m1\<rparr>;
             tk1 = tk\<lparr>tk_settled := True\<rparr>
         in case tk_store tk of
              None \<Rightarrow> (tk1, f1, w)
            | Some ss \<Rightarrow>
                (case ss_Settle ss (tk_storeKeys tk) dUSD dTok w of
                   (None, w1) \<Rightarrow> (tk1, f1, w1)
                 | (Some e, w1) \<Rightarrow> (tk1, f1\<lparr>fw_scopeDegraded := Suc (fw_scopeDegraded f1)\<rparr>, w1))))"

definition releaseScope :: "instant \<Rightarrow> bool \<Rightarrow> usd \<Rightarrow> int \<Rightarrow> gostring \<Rightarrow> scope_map \<Rightarrow> scope_map" where
  "releaseScope now settled estUSD estTokens k m =
     (case mget m k of
        None \<Rightarrow> m
      | Some st \<Rightarrow>
          mput k (st\<lparr>st_inflight := (if st_inflight st > 0 then st_inflight st - 1 else st_inflight st),
                     st_window := (if settled then st_window st
                                   else window_add (st_window st) (unix now) (- estUSD) (wrap64 (- estTokens)))\<rparr>) m)"

definition tk_Release :: "instant \<Rightarrow> 'w ticket \<Rightarrow> 'w firewall \<Rightarrow> 'w \<Rightarrow> 'w ticket \<times> 'w firewall \<times> 'w" where
  "tk_Release now tk f w =
     (if \<not> tk_fw tk \<or> tk_released tk then (tk, f, w)
      else
        (let settled = tk_settled tk;
             m1 = fold (releaseScope now settled (tk_estUSD tk) (tk_estTokens tk)) (tk_scopeKeys tk) (fw_scopes f);
             m2 = (if settled then m1 else adjustRunUSD (tk_runScopeKey tk) (- tk_estUSD tk) m1);
             f1 = f\<lparr>fw_scopes := m2\<rparr>;
             tk1 = tk\<lparr>tk_released := True\<rparr>
         in case tk_store tk of
              None \<Rightarrow> (tk1, f1, w)
            | Some ss \<Rightarrow>
                (case ss_Release ss (tk_storeKeys tk) (tk_holdID tk) (tk_estUSD tk) (tk_estTokens tk) settled w of
                   (None, w1) \<Rightarrow> (tk1, f1, w1)
                 | (Some e, w1) \<Rightarrow> (tk1, f1\<lparr>fw_scopeDegraded := Suc (fw_scopeDegraded f1)\<rparr>, w1))))"

section \<open>Decision-API reservations\<close>

record reservation =
  rv_ScopeKeys :: "gostring list"
  rv_RunScopeKey :: gostring
  rv_Shared :: bool
  rv_StoreKeys :: "gostring list"
  rv_HoldID :: gostring
  rv_EstUSD :: usd
  rv_EstTokens :: int

definition tk_Reservation :: "'w ticket \<Rightarrow> reservation" where
  "tk_Reservation tk =
     \<lparr>rv_ScopeKeys = tk_scopeKeys tk, rv_RunScopeKey = tk_runScopeKey tk, rv_Shared = (tk_store tk \<noteq> None),
      rv_StoreKeys = tk_storeKeys tk, rv_HoldID = tk_holdID tk, rv_EstUSD = tk_estUSD tk,
      rv_EstTokens = tk_estTokens tk\<rparr>"

definition ticketFrom :: "reservation \<Rightarrow> 'w firewall \<Rightarrow> 'w ticket" where
  "ticketFrom r f =
     zero_ticket\<lparr>tk_fw := True, tk_scopeKeys := rv_ScopeKeys r, tk_runScopeKey := rv_RunScopeKey r,
       tk_storeKeys := rv_StoreKeys r, tk_holdID := rv_HoldID r, tk_estUSD := rv_EstUSD r,
       tk_estTokens := rv_EstTokens r, tk_store := (if rv_Shared r then fw_scopeStore f else None)\<rparr>"

definition SettleReservation ::
  "reservation \<Rightarrow> usd \<Rightarrow> int \<Rightarrow> (nat \<Rightarrow> instant) \<Rightarrow> 'w firewall \<Rightarrow> 'w \<Rightarrow> 'w firewall \<times> 'w" where
  "SettleReservation r actualUSD actualTokens now f w =
     (let (tk1, f1, w1) = tk_Settle actualUSD actualTokens (now 0) (ticketFrom r f) f w;
          (tk2, f2, w2) = tk_Release (now 1) tk1 f1 w1
      in (f2, w2))"

definition ReleaseReservation :: "reservation \<Rightarrow> instant \<Rightarrow> 'w firewall \<Rightarrow> 'w \<Rightarrow> 'w firewall \<times> 'w" where
  "ReleaseReservation r now f w = (let (tk1, f1, w1) = tk_Release now (ticketFrom r f) f w in (f1, w1))"

end
