(* ===== verification/FirewallScopes.thy ===== *)
theory FirewallScopes
  imports Firewall
begin

text \<open>
  The map of scope states under the firewall's lock: what each locked helper of
  \<open>internal/firewall/firewall.go\<close> does to the counters a request can observe. A key has a
  \<open>reading\<close> (the dollars and tokens of its window at a second), an \<open>inflight\<close> count and a
  \<open>run_spent\<close> amount; an absent key reads as zeros. Every lemma is stated on these three observers,
  so the admit and settle proofs never look inside a window or a map.
\<close>

section \<open>Observers and the invariant\<close>

definition reading :: "scope_map \<Rightarrow> gostring \<Rightarrow> int \<Rightarrow> usd \<times> int" where
  "reading m k s = (case mget m k of None \<Rightarrow> (0, 0) | Some st \<Rightarrow> fst (window_sum (st_window st) s))"

definition inflight :: "scope_map \<Rightarrow> gostring \<Rightarrow> int" where
  "inflight m k = (case mget m k of None \<Rightarrow> 0 | Some st \<Rightarrow> st_inflight st)"

definition run_spent :: "scope_map \<Rightarrow> gostring \<Rightarrow> usd" where
  "run_spent m k = (case mget m k of None \<Rightarrow> 0 | Some st \<Rightarrow> st_runUSD st)"

text \<open>The token total of a key's window, before the 64-bit wrap-around of the sum.\<close>

definition tok_load :: "scope_map \<Rightarrow> gostring \<Rightarrow> int \<Rightarrow> int" where
  "tok_load m k s = (case mget m k of None \<Rightarrow> 0 | Some st \<Rightarrow> tok_total (st_window st) s)"

definition scope_ok :: "scopeState \<Rightarrow> bool" where
  "scope_ok st \<longleftrightarrow> window_ok (st_window st) \<and> w_size (st_window st) = int windowSeconds
     \<and> 0 \<le> st_inflight st \<and> 0 \<le> st_runUSD st"

definition scopes_ok :: "scope_map \<Rightarrow> bool" where
  "scopes_ok m \<longleftrightarrow> mwf m \<and> (\<forall>k st. mget m k = Some st \<longrightarrow> scope_ok st)"

lemmas observer_defs = reading_def inflight_def run_spent_def tok_load_def

lemma scopes_ok_Nil [simp]: "scopes_ok []" by (simp add: scopes_ok_def)

lemma scopes_ok_put: "scopes_ok m \<Longrightarrow> scope_ok st \<Longrightarrow> scopes_ok (mput k st m)"
  by (auto simp: scopes_ok_def)

lemma scopes_ok_get: "scopes_ok m \<Longrightarrow> mget m k = Some st \<Longrightarrow> scope_ok st"
  by (auto simp: scopes_ok_def)

lemma new_scope_ok: "scope_ok new_scopeState"
  using newWindow_ok [of windowSeconds]
  by (simp add: scope_ok_def new_scopeState_def windowSeconds_def) (simp add: newWindow_def)

lemma inflight_nonneg: "scopes_ok m \<Longrightarrow> 0 \<le> inflight m k"
  by (auto simp: inflight_def scope_ok_def dest: scopes_ok_get split: option.split)

lemma run_spent_nonneg: "scopes_ok m \<Longrightarrow> 0 \<le> run_spent m k"
  by (auto simp: run_spent_def scope_ok_def dest: scopes_ok_get split: option.split)

text \<open>Writing one state, read through the observers.\<close>

lemma observers_put:
  "reading (mput k st m) k' s = (if k' = k then fst (window_sum (st_window st) s) else reading m k' s)"
  "inflight (mput k st m) k' = (if k' = k then st_inflight st else inflight m k')"
  "run_spent (mput k st m) k' = (if k' = k then st_runUSD st else run_spent m k')"
  "tok_load (mput k st m) k' s = (if k' = k then tok_total (st_window st) s else tok_load m k' s)"
  by (simp_all add: observer_defs)

lemma observers_Some:
  "mget m k = Some st \<Longrightarrow> reading m k s = fst (window_sum (st_window st) s)"
  "mget m k = Some st \<Longrightarrow> inflight m k = st_inflight st"
  "mget m k = Some st \<Longrightarrow> run_spent m k = st_runUSD st"
  "mget m k = Some st \<Longrightarrow> tok_load m k s = tok_total (st_window st) s"
  by (simp_all add: observer_defs)

lemma observers_None:
  "mget m k = None \<Longrightarrow> reading m k s = (0, 0)" "mget m k = None \<Longrightarrow> inflight m k = 0"
  "mget m k = None \<Longrightarrow> run_spent m k = 0" "mget m k = None \<Longrightarrow> tok_load m k s = 0"
  by (simp_all add: observer_defs)

lemma tok_total_new [simp]: "tok_total (newWindow n) s = 0" "usd_total (newWindow n) s = 0"
  by (simp_all add: tok_total_def usd_total_def)

lemma tok_total_advance: "window_ok w \<Longrightarrow> tok_total (snd (advance w n)) n = tok_total w n"
  unfolding tok_total_def window_secs_def
  by (rule sum.cong) (auto simp: slot_at_def frame_simps view_advance)

text \<open>The readings of a window whose tokens do not overflow.\<close>

lemma reading_totals:
  assumes "scopes_ok m" "mget m k = Some st"
  shows "fst (reading m k s) = usd_total (st_window st) s"
    and "tok_load m k s \<le> max_int64 \<Longrightarrow> snd (reading m k s) = tok_load m k s"
  using window_sum_total [of "st_window st" s] scopes_ok_get [OF assms] assms(2)
  by (simp_all add: observers_Some scope_ok_def)

section \<open>Observational equality\<close>

text \<open>Two maps that no request can tell apart at second \<open>s\<close>.\<close>

definition same_load :: "int \<Rightarrow> scope_map \<Rightarrow> scope_map \<Rightarrow> bool" where
  "same_load s m m' \<longleftrightarrow> (\<forall>k. reading m' k s = reading m k s \<and> inflight m' k = inflight m k)"

lemma same_load_refl [simp, intro]: "same_load s m m" by (simp add: same_load_def)

lemma same_load_trans: "same_load s m m' \<Longrightarrow> same_load s m' m'' \<Longrightarrow> same_load s m m''"
  by (simp add: same_load_def)

section \<open>The helpers\<close>

lemma ensureScopeLocked_simps:
  "ensureScopeLocked k now m =
     (let st' = (case mget m k of None \<Rightarrow> new_scopeState | Some st \<Rightarrow> st)\<lparr>st_lastTouch := now\<rparr>
      in (st', mput k st' m))"
  by (simp add: ensureScopeLocked_def Let_def)

lemma ensured_ok:
  "scopes_ok m \<Longrightarrow> scope_ok ((case mget m k of None \<Rightarrow> new_scopeState | Some st \<Rightarrow> st)\<lparr>st_lastTouch := now\<rparr>)"
  using new_scope_ok scopes_ok_get [of m k] by (auto simp: scope_ok_def split: option.split)

lemma ensure_observers:
  assumes "st = fst (ensureScopeLocked k now m)"
  shows "fst (window_sum (st_window st) s) = reading m k s" "st_inflight st = inflight m k"
    "st_runUSD st = run_spent m k" "tok_total (st_window st) s = tok_load m k s"
  using assms
  by (auto simp: ensureScopeLocked_def observer_defs new_scopeState_def Let_def split: option.split)

text \<open>A velocity check changes nothing observable; it passes iff the reading plus the estimate fits.\<close>

lemma window_sum_keeps_ok: "scope_ok st \<Longrightarrow> scope_ok (st\<lparr>st_window := snd (window_sum (st_window st) s)\<rparr>)"
  by (simp add: scope_ok_def frame_simps advance_ok)

lemma checkVelocity_ok:
  "scopes_ok m \<Longrightarrow> scopes_ok (snd (checkVelocityLocked sk u t now m))"
  using scopes_ok_put [OF _ window_sum_keeps_ok, of m]
  by (auto simp: checkVelocityLocked_def case_prod_unfold Let_def dest: scopes_ok_get split: option.split)

lemma checkVelocity_load:
  assumes "scopes_ok m"
  shows "same_load (unix now) m (snd (checkVelocityLocked sk u t now m))"
    and "run_spent (snd (checkVelocityLocked sk u t now m)) k = run_spent m k"
    and "tok_load (snd (checkVelocityLocked sk u t now m)) k (unix now) = tok_load m k (unix now)"
    and "mget (snd (checkVelocityLocked sk u t now m)) k = None \<longleftrightarrow> mget m k = None"
proof -
  have "tok_total (snd (advance (st_window st) (unix now))) (unix now) = tok_total (st_window st) (unix now)"
    if "mget m k' = Some st" for k' st
    using scopes_ok_get [OF assms that] by (simp add: scope_ok_def tok_total_advance)
  then show "same_load (unix now) m (snd (checkVelocityLocked sk u t now m))"
    "run_spent (snd (checkVelocityLocked sk u t now m)) k = run_spent m k"
    "tok_load (snd (checkVelocityLocked sk u t now m)) k (unix now) = tok_load m k (unix now)"
    "mget (snd (checkVelocityLocked sk u t now m)) k = None \<longleftrightarrow> mget m k = None"
    by (auto simp: same_load_def checkVelocityLocked_def case_prod_unfold Let_def observers_put
        observers_Some frame_simps split: option.split)
qed

text \<open>What a passed velocity check guarantees of a scope that is tracked.\<close>

definition fits :: "scope \<Rightarrow> usd \<Rightarrow> int \<Rightarrow> usd \<times> int \<Rightarrow> bool" where
  "fits sk u t r \<longleftrightarrow>
     (MaxUSDPerMin (sc_Limits sk) > 0 \<longrightarrow> fst r + u \<le> MaxUSDPerMin (sc_Limits sk)) \<and>
     (MaxTokensPerMin (sc_Limits sk) > 0 \<longrightarrow> wrap64 (snd r + t) \<le> MaxTokensPerMin (sc_Limits sk))"

lemma checkVelocity_iff:
  "fst (checkVelocityLocked sk u t now m) = None \<longleftrightarrow>
     mget m (sc_Key sk) = None \<or> fits sk u t (reading m (sc_Key sk) (unix now))"
  by (auto simp: checkVelocityLocked_def fits_def case_prod_unfold Let_def observers_Some
      split: option.split if_splits)

lemma checkVelocity_error:
  "fst (checkVelocityLocked sk u t now m) \<in> {None, Some (VelocityError (sc_Name sk) (int windowSeconds))}"
  by (auto simp: checkVelocityLocked_def case_prod_unfold Let_def split: option.split)

lemma checkVelocityAll_Cons:
  "checkVelocityAll (sk # sks) u t now m =
     (if fst (checkVelocityLocked sk u t now m) = None
      then checkVelocityAll sks u t now (snd (checkVelocityLocked sk u t now m))
      else checkVelocityLocked sk u t now m)"
  by (simp split: prod.split option.split)

declare checkVelocityAll.simps(2) [simp del]

lemma checkVelocityAll_ok: "scopes_ok m \<Longrightarrow> scopes_ok (snd (checkVelocityAll sks u t now m))"
  by (induction sks arbitrary: m) (simp_all add: checkVelocityAll_Cons checkVelocity_ok)

lemma checkVelocityAll_load:
  "scopes_ok m \<Longrightarrow> same_load (unix now) m (snd (checkVelocityAll sks u t now m))"
proof (induction sks arbitrary: m)
  case (Cons sk sks)
  have step: "same_load (unix now) m (snd (checkVelocityLocked sk u t now m))"
    by (rule checkVelocity_load(1) [OF Cons.prems])
  with Cons.IH [OF checkVelocity_ok [OF Cons.prems, of sk u t now]] show ?case
    by (auto simp: checkVelocityAll_Cons intro: same_load_trans)
qed simp

lemma checkVelocityAll_frame:
  assumes "scopes_ok m"
  shows "run_spent (snd (checkVelocityAll sks u t now m)) k = run_spent m k"
    and "tok_load (snd (checkVelocityAll sks u t now m)) k (unix now) = tok_load m k (unix now)"
    and "mget (snd (checkVelocityAll sks u t now m)) k = None \<longleftrightarrow> mget m k = None"
  using assms
  by (induction sks arbitrary: m)
    (simp_all add: checkVelocityAll_Cons checkVelocity_ok checkVelocity_load)

lemma checkVelocityAll_iff:
  "scopes_ok m \<Longrightarrow> fst (checkVelocityAll sks u t now m) = None \<longleftrightarrow>
    (\<forall>sk\<in>set sks. mget m (sc_Key sk) = None \<or> fits sk u t (reading m (sc_Key sk) (unix now)))"
proof (induction sks arbitrary: m)
  case (Cons sk sks)
  let ?m = "snd (checkVelocityLocked sk u t now m)"
  have "reading ?m k (unix now) = reading m k (unix now)" "mget ?m k = None \<longleftrightarrow> mget m k = None" for k
    using checkVelocity_load [OF Cons.prems, where now = now and sk = sk and u = u and t = t] by (simp_all add: same_load_def)
  with Cons.IH [OF checkVelocity_ok [OF Cons.prems, of sk u t now]] show ?case
    by (auto simp: checkVelocityAll_Cons checkVelocity_iff)
qed simp

lemma checkVelocityAll_error:
  "fst (checkVelocityAll sks u t now m) = Some e \<Longrightarrow>
   \<exists>sk\<in>set sks. e = VelocityError (sc_Name sk) (int windowSeconds)"
proof (induction sks arbitrary: m)
  case (Cons sk sks)
  then show ?case using checkVelocity_error [of sk u t now m]
    by (auto simp: checkVelocityAll_Cons split: if_splits)
qed simp

text \<open>The concurrency check reads the in-flight counts.\<close>

lemma checkConcurrencyAll_iff:
  "checkConcurrencyAll sks m = None \<longleftrightarrow>
    (\<forall>sk\<in>set sks. MaxConcurrent (sc_Limits sk) > 0 \<longrightarrow> inflight m (sc_Key sk) < MaxConcurrent (sc_Limits sk))"
  by (induction sks) (auto simp: inflight_def split: option.split)

lemma checkConcurrencyAll_error:
  "checkConcurrencyAll sks m = Some e \<Longrightarrow> \<exists>sk\<in>set sks. e = ConcurrencyError (sc_Name sk)"
  by (induction sks) (auto split: if_splits)

text \<open>Reserving in one scope and in a list of distinct scopes.\<close>

lemma reserveScope_ok:
  assumes "scopes_ok m"
  shows "scopes_ok (reserveScope u t now k m)"
  using ensured_ok [OF assms, where k = k and now = now] assms
  by (auto simp: reserveScope_def ensureScopeLocked_simps Let_def scope_ok_def window_add_ok frame_simps
      intro!: scopes_ok_put)

lemma reserveScope_other:
  "k' \<noteq> k \<Longrightarrow> mget (reserveScope u t now k m) k' = mget m k'"
  by (simp add: reserveScope_def ensureScopeLocked_simps Let_def)

lemma reserveScope_get:
  "\<exists>st. mget (reserveScope u t now k m) k = Some st"
  by (simp add: reserveScope_def ensureScopeLocked_simps Let_def)

lemma reserveScope_load:
  assumes "scopes_ok m" "0 \<le> u" "0 \<le> t"
  shows "inflight (reserveScope u t now k m) k = inflight m k + 1"
    and "run_spent (reserveScope u t now k m) k = run_spent m k"
    and "fst (reading (reserveScope u t now k m) k (unix now)) = fst (reading m k (unix now)) + u"
    and "tok_load m k (unix now) + t \<le> max_int64 \<Longrightarrow>
      snd (reading (reserveScope u t now k m) k (unix now)) = tok_load m k (unix now) + t"
proof -
  define st where "st = fst (ensureScopeLocked k now m)"
  note obs = ensure_observers [OF st_def]
  have ok: "scope_ok st" using ensured_ok [OF assms(1), where k = k and now = now] by (simp add: st_def ensureScopeLocked_simps Let_def)
  then have w: "window_ok (st_window st)" by (simp add: scope_ok_def)
  have eq: "reserveScope u t now k m = mput k (st\<lparr>st_window := window_add (st_window st) (unix now) u t,
      st_inflight := st_inflight st + 1\<rparr>) (mput k st m)"
    by (simp add: reserveScope_def st_def ensureScopeLocked_simps Let_def)
  note tot = window_sum_total [OF window_add_ok [OF w, of "unix now" u t], of "unix now"]
  show "inflight (reserveScope u t now k m) k = inflight m k + 1"
    "run_spent (reserveScope u t now k m) k = run_spent m k"
    by (simp_all add: eq observers_put obs)
  show "fst (reading (reserveScope u t now k m) k (unix now)) = fst (reading m k (unix now)) + u"
    using tot(1) window_sum_total(1) [OF w, of "unix now"]
    by (simp add: eq observers_put total_add(1) [OF w assms(2,3)] obs(1))
  assume "tok_load m k (unix now) + t \<le> max_int64"
  with tot(2) total_add(2) [OF w assms(2,3), of "unix now"]
  show "snd (reading (reserveScope u t now k m) k (unix now)) = tok_load m k (unix now) + t"
    by (simp add: eq observers_put obs(4))
qed

lemma fold_reserve_ok: "scopes_ok m \<Longrightarrow> scopes_ok (fold (reserveScope u t now) ks m)"
  by (induction ks arbitrary: m) (simp_all add: reserveScope_ok)

lemma fold_reserve_other:
  "k \<notin> set ks \<Longrightarrow> mget (fold (reserveScope u t now) ks m) k = mget m k"
  by (induction ks arbitrary: m) (simp_all add: reserveScope_other)

lemma observers_cong:
  "mget m' k = mget m k \<Longrightarrow> reading m' k s = reading m k s" "mget m' k = mget m k \<Longrightarrow> inflight m' k = inflight m k"
  "mget m' k = mget m k \<Longrightarrow> run_spent m' k = run_spent m k" "mget m' k = mget m k \<Longrightarrow> tok_load m' k s = tok_load m k s"
  by (simp_all add: observer_defs)

lemma fold_reserve_counts:
  assumes "scopes_ok m" "0 \<le> u" "0 \<le> t"
  shows "inflight (fold (reserveScope u t now) ks m) k = inflight m k + int (count_list ks k)"
    and "run_spent (fold (reserveScope u t now) ks m) k = run_spent m k"
  using assms
proof (induction ks arbitrary: m)
  case (Cons x ks)
  have "inflight (reserveScope u t now x m) k = inflight m k + (if x = k then 1 else 0)"
    "run_spent (reserveScope u t now x m) k = run_spent m k" if "scopes_ok m" for m
    using reserveScope_load(1,2) [OF that assms(2,3), where now = now and k = x] reserveScope_other [of k x u t now m]
    by (auto intro: observers_cong)
  note step = this
  {
    case 1
    then show ?case using Cons.IH(1) [of "reserveScope u t now x m"] step(1) by (simp add: reserveScope_ok)
  next
    case 2
    then show ?case using Cons.IH(2) [of "reserveScope u t now x m"] step(2) by (simp add: reserveScope_ok)
  }
qed simp_all

lemma fold_reserve_reading:
  assumes "scopes_ok m" "0 \<le> u" "0 \<le> t" "distinct ks" "k \<in> set ks"
  shows "fst (reading (fold (reserveScope u t now) ks m) k (unix now)) = fst (reading m k (unix now)) + u"
    and "tok_load m k (unix now) + t \<le> max_int64 \<Longrightarrow>
      snd (reading (fold (reserveScope u t now) ks m) k (unix now)) = tok_load m k (unix now) + t"
proof -
  obtain as bs where ks: "ks = as @ k # bs" using assms(5) by (auto simp: in_set_conv_decomp)
  then have k: "k \<notin> set as" "k \<notin> set bs" using assms(4) by auto
  let ?m = "fold (reserveScope u t now) as m"
  have get: "mget ?m k = mget m k" by (rule fold_reserve_other [OF k(1)])
  have "mget (fold (reserveScope u t now) ks m) k = mget (reserveScope u t now k ?m) k"
    by (simp add: ks fold_reserve_other [OF k(2)])
  then have eq: "reading (fold (reserveScope u t now) ks m) k s = reading (reserveScope u t now k ?m) k s" for s
    by (rule observers_cong)
  note l = reserveScope_load [OF fold_reserve_ok [OF assms(1), of u t now as] assms(2,3),
      where now = now and k = k]
  show "fst (reading (fold (reserveScope u t now) ks m) k (unix now)) = fst (reading m k (unix now)) + u"
    using l(3) by (simp add: eq observers_cong(1) [OF get])
  show "tok_load m k (unix now) + t \<le> max_int64 \<Longrightarrow>
      snd (reading (fold (reserveScope u t now) ks m) k (unix now)) = tok_load m k (unix now) + t"
    using l(4) by (simp add: eq observers_cong(4) [OF get])
qed

end
