(* ===== verification/FirewallAdmit.thy ===== *)
theory FirewallAdmit
  imports FirewallScopes
begin

text \<open>
  The admit path of \<open>internal/firewall/firewall.go\<close> without a shared store: what a request that is
  admitted, denied or auto-killed does to the counters. The section ends with the properties of one
  admit; the properties of whole executions are in \<open>FirewallRuns\<close>.
\<close>

definition fw_ok :: "'w firewall \<Rightarrow> bool" where
  "fw_ok f \<longleftrightarrow> scopes_ok (fw_scopes f) \<and> mwf (fw_loops f) \<and> ks_ok (fw_localKills f)"

lemma fw_New_ok: "fw_ok (fw_New e l)"
  by (auto simp: fw_ok_def fw_New_def Let_def fw_consts intro!: ks_new_ok)

section \<open>Garbage collection\<close>

lemma mget_map: "mget (map (\<lambda>(k, st). (k, g st)) m) k = map_option g (mget m k)"
  by (simp add: mget_def map_of_map)

lemma mwf_map: "mwf (map (\<lambda>(k, st). (k, g st)) m) = mwf m"
  by (simp add: mwf_def comp_def case_prod_unfold)

lemma gc_get:
  assumes "mwf (fw_scopes f)"
  shows "mget (fw_scopes (fw_gcLocked now f)) k =
    (if mlen (fw_scopes f) < defaultMaxScopes \<and> time_sub now (fw_lastGC f) < gcInterval then mget (fw_scopes f) k
     else case mget (fw_scopes f) k of None \<Rightarrow> None
       | Some st \<Rightarrow> if scope_idle now st then None else Some (gcScope now st))"
  using assms by (auto simp: fw_gcLocked_def mget_map gm.get_sweep split: option.split)

lemma gc_frame [frame_simps]:
  "fw_limits (fw_gcLocked now f) = fw_limits f" "fw_enabled (fw_gcLocked now f) = fw_enabled f"
  "fw_scopeStore (fw_gcLocked now f) = fw_scopeStore f" "fw_sharedKills (fw_gcLocked now f) = fw_sharedKills f"
  "fw_scopeDegraded (fw_gcLocked now f) = fw_scopeDegraded f"
  "fw_sharedKillErrs (fw_gcLocked now f) = fw_sharedKillErrs f"
  by (simp_all add: fw_gcLocked_def)

lemma gc_scopes_ok:
  assumes "scopes_ok (fw_scopes f)"
  shows "scopes_ok (fw_scopes (fw_gcLocked now f))"
proof -
  have wf: "mwf (fw_scopes f)" using assms by (simp add: scopes_ok_def)
  have "mwf (fw_scopes (fw_gcLocked now f))" using wf by (simp add: fw_gcLocked_def mwf_map gm.inv_sweep)
  moreover have "scope_ok st" if "mget (fw_scopes (fw_gcLocked now f)) k = Some st" for k st
    using that window_sum_keeps_ok scopes_ok_get [OF assms, of k]
    by (auto simp: gc_get [OF wf] gcScope_def split: if_splits option.splits)
  ultimately show ?thesis by (simp add: scopes_ok_def)
qed

lemma gc_ok: "fw_ok f \<Longrightarrow> fw_ok (fw_gcLocked now f)"
  using gc_scopes_ok [of f now] by (auto simp: fw_ok_def) (simp_all add: fw_gcLocked_def ks_gc_ok gm.inv_sweep)

text \<open>A sweep is invisible at the instant it runs, but for the run budget of an evicted scope.\<close>

lemma gc_load:
  assumes "scopes_ok (fw_scopes f)"
  shows "same_load (unix now) (fw_scopes f) (fw_scopes (fw_gcLocked now f))"
proof -
  have wf: "mwf (fw_scopes f)" using assms by (simp add: scopes_ok_def)
  show ?thesis
    by (auto simp: same_load_def observer_defs gc_get [OF wf] scope_idle_def gcScope_def frame_simps
        case_prod_unfold Let_def prod_eq_iff split: option.split)
qed

lemma gc_run_spent:
  assumes "scopes_ok (fw_scopes f)"
  shows "run_spent (fw_scopes (fw_gcLocked now f)) k =
    (if mget (fw_scopes (fw_gcLocked now f)) k = None then 0 else run_spent (fw_scopes f) k)"
proof -
  have wf: "mwf (fw_scopes f)" using assms by (simp add: scopes_ok_def)
  show ?thesis
    by (auto simp: run_spent_def gc_get [OF wf] gcScope_def split: option.split)
qed

lemma gc_keeps_inflight:
  assumes "scopes_ok (fw_scopes f)" "inflight (fw_scopes f) k > 0"
  shows "mget (fw_scopes (fw_gcLocked now f)) k \<noteq> None"
proof
  assume "mget (fw_scopes (fw_gcLocked now f)) k = None"
  then have "inflight (fw_scopes (fw_gcLocked now f)) k = 0" by (rule observers_None)
  with gc_load [OF assms(1), of now] assms(2) show False by (simp add: same_load_def)
qed

lemma gc_tok_load:
  assumes ok: "scopes_ok (fw_scopes f)" and le: "tok_load (fw_scopes f) k (unix now) \<le> max_int64"
  shows "tok_load (fw_scopes (fw_gcLocked now f)) k (unix now) = tok_load (fw_scopes f) k (unix now)"
proof (cases "mget (fw_scopes f) k")
  case None
  have wf: "mwf (fw_scopes f)" using ok by (simp add: scopes_ok_def)
  show ?thesis using None by (simp add: tok_load_def gc_get [OF wf])
next
  case (Some st)
  have wf: "mwf (fw_scopes f)" using ok by (simp add: scopes_ok_def)
  have w: "window_ok (st_window st)" using scopes_ok_get [OF ok Some] by (simp add: scope_ok_def)
  have "tok_total (st_window st) (unix now) = 0" if "scope_idle now st"
    using that le Some window_sum_total(2) [OF w, of "unix now"]
    by (simp add: scope_idle_def case_prod_unfold Let_def tok_load_def)
  with Some show ?thesis
    by (auto simp: tok_load_def gc_get [OF wf] gcScope_def frame_simps tok_total_advance [OF w])
qed

section \<open>The per-run budget\<close>

lemma unreserve_is_adjust: "unreserveBudgetLocked k u m = adjustRunUSD k (- u) m"
  unfolding unreserveBudgetLocked_def adjustRunUSD_def diff_conv_add_uminus ..

lemma adjustRunUSD_ok: "scopes_ok m \<Longrightarrow> scopes_ok (adjustRunUSD k d m)"
  by (auto simp: adjustRunUSD_def scope_ok_def dest: scopes_ok_get intro!: scopes_ok_put split: option.split)

lemma adjustRunUSD_load:
  "same_load s m (adjustRunUSD k d m)"
  "mget (adjustRunUSD k d m) k' = None \<longleftrightarrow> mget m k' = None"
  "tok_load (adjustRunUSD k d m) k' s = tok_load m k' s"
  by (auto simp: same_load_def adjustRunUSD_def observers_put observers_Some split: option.split)

lemma adjustRunUSD_spent:
  "run_spent (adjustRunUSD k d m) k' =
     (if k' = k \<and> k \<noteq> [] \<and> mget m k \<noteq> None then max 0 (run_spent m k + d) else run_spent m k')"
  by (auto simp: adjustRunUSD_def observers_put observers_Some split: option.split)

text \<open>
  The loop and budget check: on a trip no scope is touched; otherwise the estimate is held against
  the run (when it has a budget) and fits under it.
\<close>

lemma checkLoopBudget_frame [frame_simps]:
  "fw_limits (snd (checkLoopBudgetLocked r h u c now f)) = fw_limits f"
  "fw_enabled (snd (checkLoopBudgetLocked r h u c now f)) = fw_enabled f"
  "fw_localKills (snd (checkLoopBudgetLocked r h u c now f)) = fw_localKills f"
  "fw_scopeStore (snd (checkLoopBudgetLocked r h u c now f)) = fw_scopeStore f"
  "fw_sharedKills (snd (checkLoopBudgetLocked r h u c now f)) = fw_sharedKills f"
  "fw_scopeDegraded (snd (checkLoopBudgetLocked r h u c now f)) = fw_scopeDegraded f"
  by (auto simp: checkLoopBudgetLocked_def case_prod_unfold Let_def)

lemma checkLoopBudget_loops: "mwf (fw_loops f) \<Longrightarrow> mwf (fw_loops (snd (checkLoopBudgetLocked r h u c now f)))"
  by (auto simp: checkLoopBudgetLocked_def tripLoopLocked_def case_prod_unfold Let_def)

definition holds_budget :: "gostring \<Rightarrow> usd \<Rightarrow> bool" where
  "holds_budget r c \<longleftrightarrow> r \<noteq> [] \<and> c > 0"

lemma checkLoopBudget_tripped:
  "fst (fst (checkLoopBudgetLocked r h u c now f)) \<Longrightarrow>
   fw_scopes (snd (checkLoopBudgetLocked r h u c now f)) = fw_scopes f"
  by (auto simp: checkLoopBudgetLocked_def case_prod_unfold Let_def split: if_splits)

lemma checkLoopBudget_passed:
  assumes "\<not> fst (fst (checkLoopBudgetLocked r h u c now f))"
  shows "snd (fst (checkLoopBudgetLocked r h u c now f)) = (if holds_budget r c then r else [])"
    and "holds_budget r c \<Longrightarrow> run_spent (fw_scopes f) r + u \<le> c"
    and "\<not> holds_budget r c \<Longrightarrow> fw_scopes (snd (checkLoopBudgetLocked r h u c now f)) = fw_scopes f"
    and "holds_budget r c \<Longrightarrow> fw_scopes (snd (checkLoopBudgetLocked r h u c now f)) =
      (let (st, m) = ensureScopeLocked r now (fw_scopes f) in mput r (st\<lparr>st_runUSD := st_runUSD st + u\<rparr>) m)"
  using assms
  by (auto simp: checkLoopBudgetLocked_def holds_budget_def case_prod_unfold Let_def run_spent_def
      split: if_splits option.splits)

lemma ensured_run_ok:
  assumes "scopes_ok m" "0 \<le> u"
  shows "scopes_ok (let (st, m) = ensureScopeLocked r now m in mput r (st\<lparr>st_runUSD := st_runUSD st + u\<rparr>) m)"
  using ensured_ok [OF assms(1), where k = r and now = now] assms
  by (auto simp: ensureScopeLocked_simps Let_def scope_ok_def intro!: scopes_ok_put)

lemma ensured_run_load:
  "same_load s m (let (st, m) = ensureScopeLocked r now m in mput r (st\<lparr>st_runUSD := st_runUSD st + u\<rparr>) m)"
  "run_spent (let (st, m) = ensureScopeLocked r now m in mput r (st\<lparr>st_runUSD := st_runUSD st + u\<rparr>) m) k =
     run_spent m k + (if k = r then u else 0)"
  "tok_load (let (st, m) = ensureScopeLocked r now m in mput r (st\<lparr>st_runUSD := st_runUSD st + u\<rparr>) m) k s =
     tok_load m k s"
  "mget (let (st, m) = ensureScopeLocked r now m in mput r (st\<lparr>st_runUSD := st_runUSD st + u\<rparr>) m) k =
     None \<longleftrightarrow> k \<noteq> r \<and> mget m k = None"
  using ensure_observers [OF refl, of r now m]
  by (auto simp: same_load_def ensureScopeLocked_simps Let_def observers_put)

lemma checkLoopBudget_load:
  assumes "scopes_ok (fw_scopes f)" "0 \<le> u"
    and f'_def: "f' = snd (checkLoopBudgetLocked r h u c now f)"
    and held_def: "held = (\<not> fst (fst (checkLoopBudgetLocked r h u c now f)) \<and> holds_budget r c)"
  shows "scopes_ok (fw_scopes f')" and "same_load s (fw_scopes f) (fw_scopes f')"
    and "run_spent (fw_scopes f') k = run_spent (fw_scopes f) k + (if held \<and> k = r then u else 0)"
    and "tok_load (fw_scopes f') k s = tok_load (fw_scopes f) k s"
    and "mget (fw_scopes f') k = None \<longleftrightarrow> \<not> (held \<and> k = r) \<and> mget (fw_scopes f) k = None"
proof -
  have "fw_scopes f' = (if held then
      (let (st, m) = ensureScopeLocked r now (fw_scopes f) in mput r (st\<lparr>st_runUSD := st_runUSD st + u\<rparr>) m)
      else fw_scopes f)"
    using checkLoopBudget_passed(3,4) [of r h u c now f] checkLoopBudget_tripped [of r h u c now f]
    unfolding f'_def held_def by auto
  then show "scopes_ok (fw_scopes f')" "same_load s (fw_scopes f) (fw_scopes f')"
    "run_spent (fw_scopes f') k = run_spent (fw_scopes f) k + (if held \<and> k = r then u else 0)"
    "tok_load (fw_scopes f') k s = tok_load (fw_scopes f) k s"
    "mget (fw_scopes f') k = None \<longleftrightarrow> \<not> (held \<and> k = r) \<and> mget (fw_scopes f) k = None"
    using assms(1) ensured_run_ok [OF assms(1,2), of r now] ensured_run_load [where m = "fw_scopes f" and r = r and now = now and u = u]
    by auto
qed

section \<open>The check-and-reserve section\<close>

lemma checkReserve_cases:
  "checkReserveScopesLocked sks u t now m =
     (let m1 = snd (checkVelocityAll sks u t now m)
      in case fst (checkVelocityAll sks u t now m) of
           Some e \<Rightarrow> (Inl e, m1)
         | None \<Rightarrow> (case checkConcurrencyAll sks m1 of
             Some e \<Rightarrow> (Inl e, m1)
           | None \<Rightarrow> (Inr (map sc_Key sks), fold (reserveScope u t now) (map sc_Key sks) m1)))"
  by (auto simp: checkReserveScopesLocked_def Let_def split: prod.split option.split)

text \<open>All or nothing: a denied section leaves every counter as it was.\<close>

lemma checkReserve_denied:
  assumes "scopes_ok m" "checkReserveScopesLocked sks u t now m = (Inl e, m')"
  shows "scopes_ok m'" "same_load (unix now) m m'" "run_spent m' k = run_spent m k"
    "mget m' k = None \<longleftrightarrow> mget m k = None"
proof -
  have "m' = snd (checkVelocityAll sks u t now m)"
    using assms(2) by (auto simp: checkReserve_cases Let_def split: option.splits)
  with assms(1) show "scopes_ok m'" "same_load (unix now) m m'" "run_spent m' k = run_spent m k"
    "mget m' k = None \<longleftrightarrow> mget m k = None"
    by (simp_all add: checkVelocityAll_ok checkVelocityAll_load checkVelocityAll_frame)
qed

text \<open>An admitted section passed every check and reserved in every scope.\<close>

lemma checkReserve_admitted:
  assumes "scopes_ok m" "checkReserveScopesLocked sks u t now m = (Inr ks, m')" "0 \<le> u" "0 \<le> t"
  shows "ks = map sc_Key sks" "scopes_ok m'" "run_spent m' k = run_spent m k"
    "inflight m' k = inflight m k + int (count_list ks k)"
    "\<And>sk. sk \<in> set sks \<Longrightarrow> mget m (sc_Key sk) = None \<or> fits sk u t (reading m (sc_Key sk) (unix now))"
    "\<And>sk. sk \<in> set sks \<Longrightarrow> MaxConcurrent (sc_Limits sk) > 0 \<Longrightarrow>
       inflight m (sc_Key sk) < MaxConcurrent (sc_Limits sk)"
    "k \<notin> set ks \<Longrightarrow> reading m' k (unix now) = reading m k (unix now)"
    "distinct ks \<Longrightarrow> k \<in> set ks \<Longrightarrow> fst (reading m' k (unix now)) = fst (reading m k (unix now)) + u"
    "distinct ks \<Longrightarrow> k \<in> set ks \<Longrightarrow> tok_load m k (unix now) + t \<le> max_int64 \<Longrightarrow>
       snd (reading m' k (unix now)) = tok_load m k (unix now) + t"
proof -
  define m1 where "m1 = snd (checkVelocityAll sks u t now m)"
  have ok1: "scopes_ok m1" and load: "same_load (unix now) m m1" and spent: "run_spent m1 j = run_spent m j"
    and tl: "tok_load m1 j (unix now) = tok_load m j (unix now)" for j
    using assms(1) by (simp_all add: m1_def checkVelocityAll_ok checkVelocityAll_load checkVelocityAll_frame)
  have v: "fst (checkVelocityAll sks u t now m) = None" and c: "checkConcurrencyAll sks m1 = None"
    and r: "ks = map sc_Key sks" "m' = fold (reserveScope u t now) ks m1"
    using assms(2) by (auto simp: checkReserve_cases Let_def m1_def split: option.splits)
  show "ks = map sc_Key sks" by (rule r(1))
  show "scopes_ok m'" unfolding r(2) by (rule fold_reserve_ok [OF ok1])
  show "run_spent m' k = run_spent m k" "inflight m' k = inflight m k + int (count_list ks k)"
    using fold_reserve_counts [OF ok1 assms(3,4)] load spent by (simp_all add: r(2) same_load_def)
  show "\<And>sk. sk \<in> set sks \<Longrightarrow> mget m (sc_Key sk) = None \<or> fits sk u t (reading m (sc_Key sk) (unix now))"
    using v checkVelocityAll_iff [OF assms(1), of sks u t now] by simp
  show "\<And>sk. sk \<in> set sks \<Longrightarrow> MaxConcurrent (sc_Limits sk) > 0 \<Longrightarrow>
       inflight m (sc_Key sk) < MaxConcurrent (sc_Limits sk)"
    using c load by (simp add: checkConcurrencyAll_iff same_load_def)
  show "k \<notin> set ks \<Longrightarrow> reading m' k (unix now) = reading m k (unix now)"
    using load fold_reserve_other [of k ks u t now m1] by (simp add: r(2) reading_def same_load_def)
  show "distinct ks \<Longrightarrow> k \<in> set ks \<Longrightarrow> fst (reading m' k (unix now)) = fst (reading m k (unix now)) + u"
    using fold_reserve_reading(1) [OF ok1 assms(3,4)] load by (simp add: r(2) same_load_def)
  show "distinct ks \<Longrightarrow> k \<in> set ks \<Longrightarrow> tok_load m k (unix now) + t \<le> max_int64 \<Longrightarrow>
       snd (reading m' k (unix now)) = tok_load m k (unix now) + t"
    using fold_reserve_reading(2) [OF ok1 assms(3,4)] tl by (simp add: r(2))
qed

section \<open>The locked admit section\<close>

lemma enterLocked_cases:
  "enterLocked sks r h c u t now f =
     (let f2 = snd (checkLoopBudgetLocked r h u c now (fw_gcLocked now f));
          bk = snd (fst (checkLoopBudgetLocked r h u c now (fw_gcLocked now f)))
      in if fst (fst (checkLoopBudgetLocked r h u c now (fw_gcLocked now f))) then (Tripped, f2)
         else case checkReserveScopesLocked sks u t now (fw_scopes f2) of
           (Inl e, m) \<Rightarrow> (Denied e, f2\<lparr>fw_scopes := adjustRunUSD bk (- u) m\<rparr>)
         | (Inr ks, m) \<Rightarrow>
             (Admitted (zero_ticket\<lparr>tk_fw := True, tk_scopeKeys := ks, tk_runScopeKey := bk,
                          tk_estUSD := u, tk_estTokens := t\<rparr>), f2\<lparr>fw_scopes := m\<rparr>))"
  by (cases "checkLoopBudgetLocked r h u c now (fw_gcLocked now f)")
    (auto simp: enterLocked_def Let_def unreserve_is_adjust split: prod.split sum.split)

lemma enterLocked_frame [frame_simps]:
  "fw_limits (snd (enterLocked sks r h c u t now f)) = fw_limits f"
  "fw_enabled (snd (enterLocked sks r h c u t now f)) = fw_enabled f"
  "fw_localKills (snd (enterLocked sks r h c u t now f)) = fw_localKills (fw_gcLocked now f)"
  "fw_sharedKills (snd (enterLocked sks r h c u t now f)) = fw_sharedKills f"
  "fw_scopeStore (snd (enterLocked sks r h c u t now f)) = fw_scopeStore f"
  by (auto simp: enterLocked_cases Let_def frame_simps split: prod.split sum.split)

lemma enterLocked_loops:
  "mwf (fw_loops (fw_gcLocked now f)) \<Longrightarrow> mwf (fw_loops (snd (enterLocked sks r h c u t now f)))"
  using checkLoopBudget_loops [of "fw_gcLocked now f" r h u c now]
  by (auto simp: enterLocked_cases Let_def split: prod.split sum.split)

lemma enterLocked_tripped:
  assumes "enterLocked sks r h c u t now f = (Tripped, f')"
  shows "fw_scopes f' = fw_scopes (fw_gcLocked now f)"
proof -
  have "fst (fst (checkLoopBudgetLocked r h u c now (fw_gcLocked now f)))"
    "f' = snd (checkLoopBudgetLocked r h u c now (fw_gcLocked now f))"
    using assms by (auto simp: enterLocked_cases Let_def split: if_splits prod.splits sum.splits)
  then show ?thesis by (simp add: checkLoopBudget_tripped)
qed

lemma enterLocked_denied:
  assumes ok: "scopes_ok (fw_scopes f)" and "0 \<le> u"
    and "enterLocked sks r h c u t now f = (Denied e, f')"
  shows "scopes_ok (fw_scopes f')" and "same_load (unix now) (fw_scopes f) (fw_scopes f')"
    and "run_spent (fw_scopes f') k = run_spent (fw_scopes (fw_gcLocked now f)) k"
    and "mget (fw_scopes f') k = None \<Longrightarrow> mget (fw_scopes (fw_gcLocked now f)) k = None"
proof -
  let ?g = "fw_gcLocked now f"
  define f2 where "f2 = snd (checkLoopBudgetLocked r h u c now ?g)"
  define held where "held = (\<not> fst (fst (checkLoopBudgetLocked r h u c now ?g)) \<and> holds_budget r c)"
  note gok = gc_scopes_ok [OF ok, of now]
  note lb = checkLoopBudget_load [OF gok assms(2) f2_def held_def]
  have notrip: "\<not> fst (fst (checkLoopBudgetLocked r h u c now ?g))"
    using assms(3) by (auto simp: enterLocked_cases Let_def split: if_splits)
  have bk: "snd (fst (checkLoopBudgetLocked r h u c now ?g)) = (if held then r else [])"
    using checkLoopBudget_passed(1) [OF notrip] notrip by (simp add: held_def)
  obtain m where m: "checkReserveScopesLocked sks u t now (fw_scopes f2) = (Inl e, m)"
    and f': "f' = f2\<lparr>fw_scopes := adjustRunUSD (if held then r else []) (- u) m\<rparr>"
    using assms(3) notrip bk
    by (auto simp: enterLocked_cases Let_def f2_def split: prod.splits sum.splits)
  note cr = checkReserve_denied [OF lb(1) m]
  show "scopes_ok (fw_scopes f')" using cr(1) by (simp add: f' adjustRunUSD_ok)
  show "same_load (unix now) (fw_scopes f) (fw_scopes f')"
    using same_load_trans [OF gc_load [OF ok] same_load_trans [OF lb(2) same_load_trans [OF cr(2) adjustRunUSD_load(1)]]]
    by (simp add: f')
  have "r \<noteq> []" if held using that by (simp add: held_def holds_budget_def)
  moreover have "mget m r \<noteq> None" if held using that cr(4) lb(5) by auto
  ultimately show "run_spent (fw_scopes f') k = run_spent (fw_scopes ?g) k"
    using cr(3) lb(3) run_spent_nonneg [OF gok, of r] by (auto simp: f' adjustRunUSD_spent)
  show "mget (fw_scopes f') k = None \<Longrightarrow> mget (fw_scopes ?g) k = None"
    using cr(4) lb(5) by (simp add: f' adjustRunUSD_load)
qed

lemma enterLocked_admitted:
  assumes ok: "scopes_ok (fw_scopes f)" and "0 \<le> u" "0 \<le> t"
    and "enterLocked sks r h c u t now f = (Admitted tk, f')"
  shows "tk = zero_ticket\<lparr>tk_fw := True, tk_scopeKeys := map sc_Key sks,
        tk_runScopeKey := (if holds_budget r c then r else []), tk_estUSD := u, tk_estTokens := t\<rparr>"
    and "scopes_ok (fw_scopes f')"
    and "inflight (fw_scopes f') k = inflight (fw_scopes f) k + int (count_list (map sc_Key sks) k)"
    and "run_spent (fw_scopes f') k =
      run_spent (fw_scopes (fw_gcLocked now f)) k + (if holds_budget r c \<and> k = r then u else 0)"
    and "holds_budget r c \<Longrightarrow> run_spent (fw_scopes f') r \<le> c"
    and "\<And>sk. sk \<in> set sks \<Longrightarrow> MaxConcurrent (sc_Limits sk) > 0 \<Longrightarrow>
      inflight (fw_scopes f) (sc_Key sk) < MaxConcurrent (sc_Limits sk)"
    and "\<And>sk. sk \<in> set sks \<Longrightarrow>
      reading (fw_scopes f) (sc_Key sk) (unix now) = (0, 0) \<or>
      fits sk u t (reading (fw_scopes f) (sc_Key sk) (unix now))"
    and "k \<notin> set (map sc_Key sks) \<Longrightarrow> reading (fw_scopes f') k (unix now) = reading (fw_scopes f) k (unix now)"
    and "distinct (map sc_Key sks) \<Longrightarrow> k \<in> set (map sc_Key sks) \<Longrightarrow>
      fst (reading (fw_scopes f') k (unix now)) = fst (reading (fw_scopes f) k (unix now)) + u"
proof -
  let ?g = "fw_gcLocked now f"
  define f2 where "f2 = snd (checkLoopBudgetLocked r h u c now ?g)"
  define held where "held = (\<not> fst (fst (checkLoopBudgetLocked r h u c now ?g)) \<and> holds_budget r c)"
  note gok = gc_scopes_ok [OF ok, of now]
  note lb = checkLoopBudget_load [OF gok assms(2) f2_def held_def]
  have notrip: "\<not> fst (fst (checkLoopBudgetLocked r h u c now ?g))"
    using assms(4) by (auto simp: enterLocked_cases Let_def split: if_splits)
  note passed = checkLoopBudget_passed [OF notrip]
  have held: "held = holds_budget r c" using notrip by (simp add: held_def)
  obtain ks m where m: "checkReserveScopesLocked sks u t now (fw_scopes f2) = (Inr ks, m)"
    and f': "f' = f2\<lparr>fw_scopes := m\<rparr>"
    and tk: "tk = zero_ticket\<lparr>tk_fw := True, tk_scopeKeys := ks,
        tk_runScopeKey := (if holds_budget r c then r else []), tk_estUSD := u, tk_estTokens := t\<rparr>"
    using assms(4) notrip passed(1)
    by (auto simp: enterLocked_cases Let_def f2_def split: prod.splits sum.splits)
  note cr = checkReserve_admitted [OF lb(1) m assms(2,3)]
  note load = same_load_trans [OF gc_load [OF ok] lb(2)]
  show "tk = zero_ticket\<lparr>tk_fw := True, tk_scopeKeys := map sc_Key sks,
        tk_runScopeKey := (if holds_budget r c then r else []), tk_estUSD := u, tk_estTokens := t\<rparr>"
    using tk cr(1) by simp
  show "scopes_ok (fw_scopes f')" using cr(2) by (simp add: f')
  show "inflight (fw_scopes f') k = inflight (fw_scopes f) k + int (count_list (map sc_Key sks) k)"
    using cr(4) load cr(1) by (simp add: f' same_load_def)
  show spent: "run_spent (fw_scopes f') k =
      run_spent (fw_scopes ?g) k + (if holds_budget r c \<and> k = r then u else 0)" for k
    using cr(3) lb(3) held by (simp add: f')
  show "holds_budget r c \<Longrightarrow> run_spent (fw_scopes f') r \<le> c" using passed(2) spent [of r] by simp
  show "\<And>sk. sk \<in> set sks \<Longrightarrow> MaxConcurrent (sc_Limits sk) > 0 \<Longrightarrow>
      inflight (fw_scopes f) (sc_Key sk) < MaxConcurrent (sc_Limits sk)"
    using cr(6) load by (simp add: same_load_def)
  show "\<And>sk. sk \<in> set sks \<Longrightarrow> reading (fw_scopes f) (sc_Key sk) (unix now) = (0, 0) \<or>
      fits sk u t (reading (fw_scopes f) (sc_Key sk) (unix now))"
    using cr(5) load observers_None(1) [of "fw_scopes f2"] unfolding same_load_def by metis
  show "k \<notin> set (map sc_Key sks) \<Longrightarrow> reading (fw_scopes f') k (unix now) = reading (fw_scopes f) k (unix now)"
    using cr(7) load cr(1) by (simp add: f' same_load_def)
  show "distinct (map sc_Key sks) \<Longrightarrow> k \<in> set (map sc_Key sks) \<Longrightarrow>
      fst (reading (fw_scopes f') k (unix now)) = fst (reading (fw_scopes f) k (unix now)) + u"
    using cr(8) load cr(1) by (simp add: f' same_load_def)
qed

text \<open>The token side of an admission, for windows whose token total stays within 64 bits.\<close>

lemma enterLocked_admitted_tokens:
  assumes ok: "scopes_ok (fw_scopes f)" and "0 \<le> u" "0 \<le> t"
    and "enterLocked sks r h c u t now f = (Admitted tk, f')"
    and "distinct (map sc_Key sks)" "k \<in> set (map sc_Key sks)"
    and le: "tok_load (fw_scopes f) k (unix now) + t \<le> max_int64"
  shows "snd (reading (fw_scopes f') k (unix now)) = tok_load (fw_scopes f) k (unix now) + t"
proof -
  let ?g = "fw_gcLocked now f"
  define f2 where "f2 = snd (checkLoopBudgetLocked r h u c now ?g)"
  define held where "held = (\<not> fst (fst (checkLoopBudgetLocked r h u c now ?g)) \<and> holds_budget r c)"
  note lb = checkLoopBudget_load [OF gc_scopes_ok [OF ok, of now] assms(2) f2_def held_def]
  have tl: "tok_load (fw_scopes f2) k (unix now) = tok_load (fw_scopes f) k (unix now)"
    using lb(4) gc_tok_load [OF ok, of k now] le assms(3) by simp
  obtain ks m where m: "checkReserveScopesLocked sks u t now (fw_scopes f2) = (Inr ks, m)"
    and f': "f' = f2\<lparr>fw_scopes := m\<rparr>"
    using assms(4) by (auto simp: enterLocked_cases Let_def f2_def split: if_splits prod.splits sum.splits)
  note cr = checkReserve_admitted [OF lb(1) m assms(2,3)]
  show ?thesis using cr(9) [of k] cr(1) assms(5,6) le tl by (simp add: f')
qed

end
