(* ===== verification/FirewallEnter.thy ===== *)
theory FirewallEnter
  imports FirewallAdmit
begin

text \<open>
  \<open>Enter\<close> and \<open>EnterChain\<close> of \<open>internal/firewall/firewall.go\<close>: the validation of the chain, the
  kill check in front of the locked section and the auto-kill behind it. The properties state what one
  request does to the firewall: an admitted request is within every cap, a refused one leaves no trace,
  a killed run is refused, a malformed chain fails closed.
\<close>

section \<open>Kills do not touch the counters\<close>

lemma isKilled_frame [frame_simps]:
  "fw_limits (fst (snd (isKilled n r f w))) = fw_limits f"
  "fw_enabled (fst (snd (isKilled n r f w))) = fw_enabled f"
  "fw_scopes (fst (snd (isKilled n r f w))) = fw_scopes f"
  "fw_loops (fst (snd (isKilled n r f w))) = fw_loops f"
  "fw_lastGC (fst (snd (isKilled n r f w))) = fw_lastGC f"
  "fw_scopeStore (fst (snd (isKilled n r f w))) = fw_scopeStore f"
  "fw_sharedKills (fst (snd (isKilled n r f w))) = fw_sharedKills f"
  by (auto simp: isKilled_def case_prod_unfold Let_def split: option.split prod.split bool.split)

lemma doKill_frame [frame_simps]:
  "fw_limits (fst (snd (doKill n r f w))) = fw_limits f"
  "fw_enabled (fst (snd (doKill n r f w))) = fw_enabled f"
  "fw_scopes (fst (snd (doKill n r f w))) = fw_scopes f"
  "fw_loops (fst (snd (doKill n r f w))) = fw_loops f"
  "fw_lastGC (fst (snd (doKill n r f w))) = fw_lastGC f"
  "fw_scopeStore (fst (snd (doKill n r f w))) = fw_scopeStore f"
  "fw_sharedKills (fst (snd (doKill n r f w))) = fw_sharedKills f"
  "fw_localKills (fst (snd (doKill n r f w))) = snd (ks_Kill n r (fw_localKills f))"
  by (auto simp: doKill_def split: option.split prod.split)

lemma isKilled_local:
  "fw_localKills (fst (snd (isKilled n r f w))) =
     (if r = [] then fw_localKills f else snd (ks_Killed n r (fw_localKills f)))"
  by (auto simp: isKilled_def case_prod_unfold Let_def split: option.split prod.split bool.split)

lemma isKilled_live:
  "r \<noteq> [] \<Longrightarrow> fst (ks_Killed n r (fw_localKills f)) \<Longrightarrow> fst (isKilled n r f w)"
  by (auto simp: isKilled_def split: prod.split bool.split)

lemma isKilled_no_shared:
  "fw_sharedKills f = None \<Longrightarrow> fst (isKilled n r f w) = (r \<noteq> [] \<and> fst (ks_Killed n r (fw_localKills f)))"
  by (auto simp: isKilled_def split: prod.split bool.split)

lemma kills_ok:
  "fw_ok f \<Longrightarrow> fw_ok (fst (snd (isKilled n r f w)))"
  "fw_ok f \<Longrightarrow> fw_ok (fst (snd (doKill n r f w)))"
  by (simp_all add: fw_ok_def frame_simps isKilled_local ks_Killed_ok ks_Kill_ok)

section \<open>The chain scan\<close>

abbreviation is_run :: "scope \<Rightarrow> bool" where "is_run sc \<equiv> sc_Name sc = ''run''"

definition bad_key :: "scope \<Rightarrow> bool" where
  "bad_key sc \<longleftrightarrow> sc_Key sc = [] \<or> length (sc_Key sc) > maxScopeKeyLen"

lemma scanChain_None: "scanChain scs acc = None \<longleftrightarrow> (\<exists>sc\<in>set scs. bad_key sc)"
proof (induction scs arbitrary: acc)
  case (Cons sc scs)
  obtain n r c where "acc = (n, r, c)" by (cases acc)
  with Cons.IH show ?case by (auto simp: bad_key_def)
qed simp

lemma scanChain_count:
  "scanChain scs (n, r, c) = Some (n', r', c') \<Longrightarrow> n' = n + length (filter is_run scs)"
  by (induction scs arbitrary: n r c) (fastforce split: if_splits)+

lemma scanChain_run:
  "scanChain scs (n, r, c) = Some (n', r', c') \<Longrightarrow>
   (r', c') = (case filter is_run (rev scs) of [] \<Rightarrow> (r, c) | sc # _ \<Rightarrow> (sc_Key sc, MaxUSDPerRun (sc_Limits sc)))"
proof (induction scs arbitrary: n r c)
  case (Cons sc scs)
  show ?case
  proof (cases "is_run sc")
    case True
    with Cons.prems Cons.IH [of "Suc n" "sc_Key sc" "MaxUSDPerRun (sc_Limits sc)"] show ?thesis
      by (cases "filter is_run (rev scs)") (auto split: if_splits)
  next
    case False
    with Cons.prems Cons.IH [of n r c] show ?thesis by (auto split: if_splits)
  qed
qed simp

definition malformed :: "scope list \<Rightarrow> bool" where
  "malformed scs \<longleftrightarrow> (\<exists>sc\<in>set scs. bad_key sc) \<or> length (filter is_run scs) > 1"

text \<open>The run key and run budget of a chain with at most one run scope.\<close>

definition chain_run :: "scope list \<Rightarrow> gostring \<times> usd" where
  "chain_run scs = (case filter is_run scs of [] \<Rightarrow> ([], 0) | sc # _ \<Rightarrow> (sc_Key sc, MaxUSDPerRun (sc_Limits sc)))"

lemma rev_short: "length xs \<le> 1 \<Longrightarrow> rev xs = xs"
  by (cases xs) auto

lemma EnterChain_cases:
  "fw_EnterChain scs h u t hold now f w =
     (if \<not> fw_enabled f then (Inr zero_ticket, f, w)
      else if malformed scs then (Inl ErrBadChain, f, w)
      else enterChain scs (fst (chain_run scs)) h (snd (chain_run scs)) u t hold now f w)"
proof (cases "scanChain scs (0, [], 0)")
  case None
  moreover have "malformed scs" using scanChain_None None by (metis malformed_def)
  ultimately show ?thesis by (simp add: fw_EnterChain_def)
next
  case (Some a)
  obtain n r c where a: "a = (n, r, c)" by (cases a)
  note scan = Some [unfolded a]
  have "\<not> (\<exists>sc\<in>set scs. bad_key sc)" using scan scanChain_None by (metis option.distinct(1))
  moreover have "n = length (filter is_run scs)" using scanChain_count [OF scan] by simp
  moreover have "(r, c) = chain_run scs" if "n \<le> 1"
    using scanChain_run [OF scan] rev_short [of "filter is_run scs"] scanChain_count [OF scan] that
    by (simp add: chain_run_def rev_filter)
  ultimately show ?thesis
    by (cases "n \<le> 1") (auto simp: fw_EnterChain_def scan malformed_def split: prod.split)
qed

lemma chain_run_in:
  assumes "\<not> malformed scs" "sk \<in> set scs" "is_run sk"
  shows "chain_run scs = (sc_Key sk, MaxUSDPerRun (sc_Limits sk))"
proof -
  have "sk \<in> set (filter is_run scs)" using assms by simp
  moreover have "length (filter is_run scs) \<le> 1" using assms by (simp add: malformed_def)
  ultimately have "filter is_run scs = [sk]" by (cases "filter is_run scs") auto
  then show ?thesis by (simp add: chain_run_def)
qed

lemma wellformed_key: "\<not> malformed scs \<Longrightarrow> sk \<in> set scs \<Longrightarrow> sc_Key sk \<noteq> []"
  by (auto simp: malformed_def bad_key_def)

section \<open>Admission without a shared scope store\<close>

lemma clamp_usd: "(if u < 0 then 0 else u) = max 0 (u::real)" by simp
lemma clamp_tok: "(if t < 0 then 0 else t) = max 0 (t::int)" by simp

lemma enterChain_local:
  assumes "fw_scopeStore f = None"
  shows "enterChain scs r h c u t hold now f w =
    (let dead = fst (isKilled (now 0) r f w); f1 = fst (snd (isKilled (now 0) r f w));
         w1 = snd (snd (isKilled (now 0) r f w))
     in if dead then (Inl ErrKilled, f1, w1)
        else case enterLocked scs r h c (max 0 u) (max 0 t) (now 1) f1 of
          (Tripped, f2) \<Rightarrow> (Inl ErrKilled, snd (doKill (now 2) r f2 w1))
        | (Denied e, f2) \<Rightarrow> (Inl e, f2, w1)
        | (Admitted tk, f2) \<Rightarrow> (Inr tk, f2, w1))"
  using assms
  by (simp add: enterChain_def clamp_usd clamp_tok isKilled_frame case_prod_unfold Let_def
      del: max_def split: locked_result.split)

lemma enterChain_admitted:
  assumes "fw_scopeStore f = None" "enterChain scs r h c u t hold now f w = (Inr tk, f', w')"
  obtains f1 where "enterLocked scs r h c (max 0 u) (max 0 t) (now 1) f1 = (Admitted tk, f')"
    "f1 = fst (snd (isKilled (now 0) r f w))" "\<not> fst (isKilled (now 0) r f w)"
  using assms(2) unfolding enterChain_local [OF assms(1)]
  by (auto simp: Let_def split: if_splits prod.splits locked_result.splits)

lemma enterChain_keeps_store:
  assumes "fw_scopeStore f = None"
  shows "fw_scopeStore (fst (snd (enterChain scs r h c u t hold now f w))) = None"
proof -
  let ?f = "fst (snd (isKilled (now 0) r f w))"
  obtain res f2 where e: "enterLocked scs r h c (max 0 u) (max 0 t) (now 1) ?f = (res, f2)" by (metis surj_pair)
  have "fw_scopeStore f2 = None"
    using enterLocked_frame(5) [of scs r h c "max 0 u" "max 0 t" "now 1" ?f, unfolded e] assms
    by (simp add: isKilled_frame)
  then show ?thesis
    unfolding enterChain_local [OF assms] Let_def e using assms by (cases res) (simp_all add: frame_simps)
qed

lemma tok_reading:
  assumes "scopes_ok m" "tok_load m k s \<le> max_int64"
  shows "snd (reading m k s) = tok_load m k s"
  using assms reading_totals(2) [OF assms(1)] by (cases "mget m k") (simp_all add: observers_None)

lemma tok_load_nonneg: "scopes_ok m \<Longrightarrow> 0 \<le> tok_load m k s"
  using scopes_ok_get [of m k]
  by (auto simp: tok_load_def scope_ok_def intro: total_nonneg(2) split: option.split)

section \<open>Loop detection\<close>

definition lastn :: "nat \<Rightarrow> 'a list \<Rightarrow> 'a list" where
  "lastn n xs = drop (length xs - n) xs"

lemma lastn_idem: "lastn n (lastn n xs @ ys) = lastn n (xs @ ys)"
proof (cases "n \<le> length xs")
  case True
  then show ?thesis by (cases "n \<le> length ys") (auto simp: lastn_def add.commute)
qed (simp add: lastn_def)

text \<open>The history length and the trip condition, on the list of prompts a run has sent.\<close>

definition hist_len :: "int \<Rightarrow> nat" where
  "hist_len thr = nat (max 8 (wrap64 (thr * 2)))"

definition loop_hit :: "int \<Rightarrow> gostring list \<Rightarrow> gostring \<Rightarrow> bool" where
  "loop_hit thr hist h \<longleftrightarrow> int (count_list (lastn (hist_len thr) (hist @ [h])) h) \<ge> thr"

definition prompts :: "loop_map \<Rightarrow> gostring \<Rightarrow> gostring list" where
  "prompts m r = (case mget m r of None \<Rightarrow> [] | Some ls \<Rightarrow> ls_recent ls)"

lemma count_filter: "length (filter (\<lambda>x. x = y) xs) = count_list xs y"
  by (induction xs) auto

lemma tripLoop_eq:
  "tripLoopLocked thr r h now m =
     (loop_hit thr (prompts m r) h,
      mput r \<lparr>ls_recent = lastn (hist_len thr) (prompts m r @ [h]), ls_lastTouch = now\<rparr> m)"
proof -
  have "nat (if x < 8 then 8 else x) = nat (max 8 x)" for x :: int by simp
  moreover have "(if n < length ys then drop (length ys - n) ys else ys) = lastn n ys"
    for n and ys :: "gostring list" by (simp add: lastn_def)
  ultimately show ?thesis
    unfolding tripLoopLocked_def Let_def prompts_def loop_hit_def hist_len_def
    by (simp only: count_filter)
qed

text \<open>A run's prompts fed one by one to the detector.\<close>

fun loop_feed :: "int \<Rightarrow> gostring \<Rightarrow> (instant \<times> gostring) list \<Rightarrow> loop_map \<Rightarrow> loop_map" where
  "loop_feed thr r [] m = m"
| "loop_feed thr r ((now, h) # hs) m = loop_feed thr r hs (snd (tripLoopLocked thr r h now m))"

lemma loop_feed_prompts:
  "lastn (hist_len thr) (prompts (loop_feed thr r hs m) r) = lastn (hist_len thr) (prompts m r @ map snd hs)"
proof (induction hs arbitrary: m)
  case (Cons p hs)
  obtain now h where "p = (now, h)" by (cases p)
  with Cons show ?case
    by (simp add: tripLoop_eq) (simp add: prompts_def lastn_idem)
qed simp

lemma loop_hit_lastn: "loop_hit thr (lastn (hist_len thr) hist) h = loop_hit thr hist h"
  by (simp add: loop_hit_def lastn_idem)

text \<open>
  Loop detection counts exactly. After any sequence of prompts of a run, the next prompt trips the
  detector if and only if it occurs at least \<open>LoopThreshold\<close> times among the run's last
  \<open>max 8 (2 * LoopThreshold)\<close> prompts, itself included; what the detector keeps is enough to decide
  it and never longer than that.
\<close>
theorem loop_detection_exact:
  assumes "0 < thr" "thr \<le> 1000000" "mget m r = None"
  shows "(fst (tripLoopLocked thr r h now (loop_feed thr r hs m)) \<longleftrightarrow>
      thr \<le> int (count_list (lastn (nat (max 8 (2 * thr))) (map snd hs @ [h])) h)) \<and>
    length (prompts (snd (tripLoopLocked thr r h now (loop_feed thr r hs m))) r) \<le> nat (max 8 (2 * thr))"
proof (intro conjI)
  have len: "hist_len thr = nat (max 8 (2 * thr))"
    using assms by (simp add: hist_len_def wrap64_id mult.commute)
  have "loop_hit thr (prompts (loop_feed thr r hs m) r) h = loop_hit thr (map snd hs) h"
    using loop_feed_prompts [of thr r hs m] loop_hit_lastn [of thr "map snd hs" h]
      loop_hit_lastn [of thr "prompts (loop_feed thr r hs m) r" h] assms(3)
    by (simp add: prompts_def)
  then show "fst (tripLoopLocked thr r h now (loop_feed thr r hs m)) \<longleftrightarrow>
      thr \<le> int (count_list (lastn (nat (max 8 (2 * thr))) (map snd hs @ [h])) h)"
    by (simp add: tripLoop_eq loop_hit_def len)
  show "length (prompts (snd (tripLoopLocked thr r h now (loop_feed thr r hs m))) r) \<le> nat (max 8 (2 * thr))"
    by (simp add: tripLoop_eq len [symmetric]) (simp add: prompts_def lastn_def)
qed

theorem loop_detection_exact_witness:
  "fst (tripLoopLocked 3 ''r'' ''p'' 9 (loop_feed 3 ''r'' [(1, ''p''), (2, ''q''), (3, ''p'')] []))
   \<and> \<not> fst (tripLoopLocked 3 ''r'' ''p'' 9 (loop_feed 3 ''r'' [(1, ''p''), (2, ''q'')] []))"
  using loop_detection_exact [of 3 "[]" "''r''" "''p''" 9 "[(1, ''p''), (2, ''q''), (3, ''p'')]"]
    loop_detection_exact [of 3 "[]" "''r''" "''p''" 9 "[(1, ''p''), (2, ''q'')]"]
  by (simp add: lastn_def)

section \<open>Properties of one admit\<close>

lemma enterLocked_ok:
  assumes "fw_ok f" "0 \<le> u" "0 \<le> t" "enterLocked scs r h c u t now f = (res, f')"
  shows "fw_ok f'"
proof -
  have g: "fw_ok (fw_gcLocked now f)" by (rule gc_ok [OF assms(1)])
  have sok: "scopes_ok (fw_scopes f)" using assms(1) by (simp add: fw_ok_def)
  have f': "f' = snd (enterLocked scs r h c u t now f)" by (simp add: assms(4))
  have "scopes_ok (fw_scopes f')"
  proof (cases res)
    case Tripped
    then show ?thesis using enterLocked_tripped [OF assms(4) [unfolded Tripped]] g by (simp add: fw_ok_def)
  next
    case (Denied e)
    show ?thesis by (rule enterLocked_denied(1) [OF sok assms(2) assms(4) [unfolded Denied]])
  next
    case (Admitted tk)
    show ?thesis by (rule enterLocked_admitted(2) [OF sok assms(2,3) assms(4) [unfolded Admitted]])
  qed
  moreover have "mwf (fw_loops f')" "ks_ok (fw_localKills f')"
    using g enterLocked_loops [of now f scs r h c u t] by (simp_all add: f' frame_simps fw_ok_def)
  ultimately show ?thesis by (simp add: fw_ok_def)
qed

text \<open>The run is looping: this prompt would trip the detector.\<close>

definition loops :: "'w firewall \<Rightarrow> gostring \<Rightarrow> gostring \<Rightarrow> bool" where
  "loops f r h \<longleftrightarrow> r \<noteq> [] \<and> LoopThreshold (fw_limits f) > 0 \<and> h \<noteq> []
     \<and> loop_hit (LoopThreshold (fw_limits f)) (prompts (fw_loops f) r) h"

lemma checkLoopBudget_trip_iff:
  "fst (fst (checkLoopBudgetLocked r h u c now f)) \<longleftrightarrow>
     loops f r h \<or> holds_budget r c \<and> run_spent (fw_scopes f) r + u > c"
  by (auto simp: checkLoopBudgetLocked_def loops_def holds_budget_def run_spent_def tripLoop_eq
      case_prod_unfold Let_def split: option.splits)

lemma lastn_snoc: "0 < n \<Longrightarrow> lastn n (xs @ [x]) = lastn (n - 1) xs @ [x]"
  by (cases n) (auto simp: lastn_def Suc_diff_le not_less_eq_eq)

lemma hist_len_pos: "0 < hist_len thr" by (simp add: hist_len_def)

lemma loop_hit_Nil: "loop_hit thr [] h \<Longrightarrow> loop_hit thr hist h"
  using lastn_snoc [OF hist_len_pos [of thr]] by (simp add: loop_hit_def lastn_def)

lemma gc_loops:
  assumes "mwf (fw_loops f)" "loops (fw_gcLocked now f) r h"
  shows "loops f r h"
proof -
  have "prompts (fw_loops (fw_gcLocked now f)) r \<in> {prompts (fw_loops f) r, []}"
    using assms(1) by (auto simp: prompts_def fw_gcLocked_def gm.get_sweep split: option.split)
  with assms(2) show ?thesis by (auto simp: loops_def frame_simps dest: loop_hit_Nil)
qed

lemma enterLocked_admits:
  assumes ok: "fw_ok f" and "0 \<le> u" "0 \<le> t" and "\<not> loops f r h"
    and budget: "holds_budget r c \<Longrightarrow> run_spent (fw_scopes f) r + u \<le> c"
    and fit: "\<And>sk. sk \<in> set scs \<Longrightarrow> fits sk u t (reading (fw_scopes f) (sc_Key sk) (unix now))"
    and conc: "\<And>sk. sk \<in> set scs \<Longrightarrow> 0 < MaxConcurrent (sc_Limits sk) \<Longrightarrow>
      inflight (fw_scopes f) (sc_Key sk) < MaxConcurrent (sc_Limits sk)"
  shows "\<exists>tk f'. enterLocked scs r h c u t now f = (Admitted tk, f')"
proof -
  let ?g = "fw_gcLocked now f"
  define f2 where "f2 = snd (checkLoopBudgetLocked r h u c now ?g)"
  define held where "held = (\<not> fst (fst (checkLoopBudgetLocked r h u c now ?g)) \<and> holds_budget r c)"
  have sok: "scopes_ok (fw_scopes f)" "mwf (fw_loops f)" using ok by (simp_all add: fw_ok_def)
  note lb = checkLoopBudget_load [OF gc_scopes_ok [OF sok(1), of now] assms(2) f2_def held_def]
  have "run_spent (fw_scopes ?g) r \<le> run_spent (fw_scopes f) r"
    using gc_run_spent [OF sok(1), of now r] run_spent_nonneg [OF sok(1), of r] by simp
  then have notrip: "\<not> fst (fst (checkLoopBudgetLocked r h u c now ?g))"
    using gc_loops [OF sok(2)] assms(4) budget by (fastforce simp: checkLoopBudget_trip_iff)
  have load: "reading (fw_scopes f2) k (unix now) = reading (fw_scopes f) k (unix now)"
    "inflight (fw_scopes f2) k = inflight (fw_scopes f) k" for k
    using same_load_trans [OF gc_load [OF sok(1), of now] lb(2)] by (simp_all add: same_load_def)
  have v: "fst (checkVelocityAll scs u t now (fw_scopes f2)) = None"
    using fit by (simp add: checkVelocityAll_iff [OF lb(1)] load)
  have "inflight (snd (checkVelocityAll scs u t now (fw_scopes f2))) k = inflight (fw_scopes f) k" for k
    using checkVelocityAll_load [OF lb(1), of now scs u t] load by (simp add: same_load_def)
  then have "checkConcurrencyAll scs (snd (checkVelocityAll scs u t now (fw_scopes f2))) = None"
    using conc by (simp add: checkConcurrencyAll_iff)
  with v notrip show ?thesis
    by (simp add: enterLocked_cases checkReserve_cases Let_def f2_def)
qed

lemma enterChain_local_caps:
  assumes ok: "fw_ok f" and "fw_scopeStore f = None" and "distinct (map sc_Key scs)"
    and enter: "enterChain scs r h c u t hold now f w = (Inr tk, f', w')" and sk: "sk \<in> set scs"
  shows "fw_ok f'"
    and "inflight (fw_scopes f') (sc_Key sk) = inflight (fw_scopes f) (sc_Key sk) + 1"
    and "0 < MaxConcurrent (sc_Limits sk) \<Longrightarrow> inflight (fw_scopes f') (sc_Key sk) \<le> MaxConcurrent (sc_Limits sk)"
    and "0 < MaxUSDPerMin (sc_Limits sk) \<Longrightarrow>
      fst (reading (fw_scopes f') (sc_Key sk) (unix (now 1))) \<le> max (MaxUSDPerMin (sc_Limits sk)) u"
    and "0 < MaxTokensPerMin (sc_Limits sk) \<Longrightarrow>
      tok_load (fw_scopes f) (sc_Key sk) (unix (now 1)) + max 0 t \<le> max_int64 \<Longrightarrow>
      snd (reading (fw_scopes f') (sc_Key sk) (unix (now 1))) \<le> max (MaxTokensPerMin (sc_Limits sk)) t"
    and "holds_budget r c \<Longrightarrow> run_spent (fw_scopes f') r \<le> c"
proof -
  obtain f1 where adm: "enterLocked scs r h c (max 0 u) (max 0 t) (now 1) f1 = (Admitted tk, f')"
    and f1: "f1 = fst (snd (isKilled (now 0) r f w))" by (rule enterChain_admitted [OF assms(2) enter])
  have scopes: "fw_scopes f1 = fw_scopes f" and ok1: "fw_ok f1" using ok by (simp_all add: f1 frame_simps kills_ok)
  then have sok: "scopes_ok (fw_scopes f1)" by (simp add: fw_ok_def)
  note a = enterLocked_admitted [OF sok _ _ adm, simplified]
  let ?k = "sc_Key sk" and ?s = "unix (now 1)"
  have k: "?k \<in> set (map sc_Key scs)" "?k \<in> sc_Key ` set scs" using sk by auto
  show "fw_ok f'"
    by (rule enterLocked_ok [OF ok1 _ _ adm]) simp_all
  have "count_list (map sc_Key scs) ?k = 1" using assms(3) k(1) by (simp add: count_list_distinct)
  then show inc: "inflight (fw_scopes f') ?k = inflight (fw_scopes f) ?k + 1"
    using a(3) by (simp add: scopes)
  show "0 < MaxConcurrent (sc_Limits sk) \<Longrightarrow> inflight (fw_scopes f') ?k \<le> MaxConcurrent (sc_Limits sk)"
    using a(6) [OF sk] inc by (simp add: scopes)
  have fit: "reading (fw_scopes f) ?k ?s = (0, 0) \<or> fits sk (max 0 u) (max 0 t) (reading (fw_scopes f) ?k ?s)"
    using a(7) [OF sk] by (simp add: scopes)
  show "0 < MaxUSDPerMin (sc_Limits sk) \<Longrightarrow> fst (reading (fw_scopes f') ?k ?s) \<le> max (MaxUSDPerMin (sc_Limits sk)) u"
    using a(9) [OF assms(3) k(2)] fit by (auto simp: scopes fits_def)
  show "holds_budget r c \<Longrightarrow> run_spent (fw_scopes f') r \<le> c" using a(5) by simp
  assume cap: "0 < MaxTokensPerMin (sc_Limits sk)"
    and le: "tok_load (fw_scopes f) ?k ?s + max 0 t \<le> max_int64"
  have nn: "0 \<le> tok_load (fw_scopes f) ?k ?s" using ok by (simp add: fw_ok_def tok_load_nonneg)
  have rd: "snd (reading (fw_scopes f) ?k ?s) = tok_load (fw_scopes f) ?k ?s"
    using ok le by (intro tok_reading) (simp_all add: fw_ok_def)
  have "snd (reading (fw_scopes f') ?k ?s) = tok_load (fw_scopes f) ?k ?s + max 0 t"
    using enterLocked_admitted_tokens [OF sok _ _ adm assms(3) k(1)] le by (simp add: scopes)
  then show "snd (reading (fw_scopes f') ?k ?s) \<le> max (MaxTokensPerMin (sc_Limits sk)) t"
    using fit cap le nn rd by (auto simp: fits_def wrap64_id)
qed

text \<open>
  C1. An admitted request is within every cap. After \<open>EnterChain\<close> admits a request, each scope of the
  chain has at most \<open>MaxConcurrent\<close> requests in flight (this one included), the dollars and tokens of
  its rolling minute are at most its cap (or, where a scope was idle, the request's own estimate), and the
  run's cumulative spend is at most its budget: the whole estimate is reserved before the vendor is called.
\<close>
theorem admitted_within_caps:
  assumes "fw_ok f" "fw_enabled f" "fw_scopeStore f = None" "distinct (map sc_Key scs)"
    and "fw_EnterChain scs h u t hold now f w = (Inr tk, f', w')" and "sk \<in> set scs"
    and "tok_load (fw_scopes f) (sc_Key sk) (unix (now 1)) + max 0 t \<le> max_int64"
  shows "(0 < MaxConcurrent (sc_Limits sk) \<longrightarrow>
      0 < inflight (fw_scopes f') (sc_Key sk) \<and> inflight (fw_scopes f') (sc_Key sk) \<le> MaxConcurrent (sc_Limits sk)) \<and>
    (0 < MaxUSDPerMin (sc_Limits sk) \<longrightarrow>
      fst (reading (fw_scopes f') (sc_Key sk) (unix (now 1))) \<le> max (MaxUSDPerMin (sc_Limits sk)) u) \<and>
    (0 < MaxTokensPerMin (sc_Limits sk) \<longrightarrow>
      snd (reading (fw_scopes f') (sc_Key sk) (unix (now 1))) \<le> max (MaxTokensPerMin (sc_Limits sk)) t) \<and>
    (is_run sk \<and> 0 < MaxUSDPerRun (sc_Limits sk) \<longrightarrow>
      run_spent (fw_scopes f') (sc_Key sk) \<le> MaxUSDPerRun (sc_Limits sk))"
proof (intro conjI)
  have wf: "\<not> malformed scs"
    and enter: "enterChain scs (fst (chain_run scs)) h (snd (chain_run scs)) u t hold now f w = (Inr tk, f', w')"
    using assms(2,5) by (auto simp: EnterChain_cases split: if_splits)
  note caps = enterChain_local_caps [OF assms(1,3,4) enter assms(6)]
  show "0 < MaxConcurrent (sc_Limits sk) \<longrightarrow>
      0 < inflight (fw_scopes f') (sc_Key sk) \<and> inflight (fw_scopes f') (sc_Key sk) \<le> MaxConcurrent (sc_Limits sk)"
    using caps(2,3) inflight_nonneg [of "fw_scopes f" "sc_Key sk"] assms(1) by (auto simp: fw_ok_def)
  show "0 < MaxUSDPerMin (sc_Limits sk) \<longrightarrow>
      fst (reading (fw_scopes f') (sc_Key sk) (unix (now 1))) \<le> max (MaxUSDPerMin (sc_Limits sk)) u"
    using caps(4) by blast
  show "0 < MaxTokensPerMin (sc_Limits sk) \<longrightarrow>
      snd (reading (fw_scopes f') (sc_Key sk) (unix (now 1))) \<le> max (MaxTokensPerMin (sc_Limits sk)) t"
    using caps(5) assms(7) by blast
  show "is_run sk \<and> 0 < MaxUSDPerRun (sc_Limits sk) \<longrightarrow>
      run_spent (fw_scopes f') (sc_Key sk) \<le> MaxUSDPerRun (sc_Limits sk)"
    using caps(6) chain_run_in [OF wf assms(6)] wellformed_key [OF wf assms(6)] by (auto simp: holds_budget_def)
qed

text \<open>
  C8. No spurious denial. A well-formed chain is admitted whenever the run is not killed and not
  looping, the estimate fits under the run's budget, and every scope has room for it in its rolling
  minute and in its concurrency cap.
\<close>
theorem admitted_when_it_fits:
  assumes "fw_ok f" "fw_scopeStore f = None" "\<not> malformed scs"
    and "\<not> fst (isKilled (now 0) (fst (chain_run scs)) f w)" "\<not> loops f (fst (chain_run scs)) h"
    and "snd (chain_run scs) > 0 \<longrightarrow> run_spent (fw_scopes f) (fst (chain_run scs)) + max 0 u \<le> snd (chain_run scs)"
    and "\<forall>sk\<in>set scs. fits sk (max 0 u) (max 0 t) (reading (fw_scopes f) (sc_Key sk) (unix (now 1)))"
    and "\<forall>sk\<in>set scs. 0 < MaxConcurrent (sc_Limits sk) \<longrightarrow>
      inflight (fw_scopes f) (sc_Key sk) < MaxConcurrent (sc_Limits sk)"
  shows "\<exists>tk f' w'. fw_EnterChain scs h u t hold now f w = (Inr tk, f', w')"
proof (cases "fw_enabled f")
  case True
  let ?r = "fst (chain_run scs)" and ?c = "snd (chain_run scs)"
  let ?f = "fst (snd (isKilled (now 0) ?r f w))"
  have "\<exists>tk f'. enterLocked scs ?r h ?c (max 0 u) (max 0 t) (now 1) ?f = (Admitted tk, f')"
    using assms kills_ok(1) [OF assms(1), of "now 0" ?r w]
    by (intro enterLocked_admits) (auto simp: frame_simps loops_def holds_budget_def)
  then show ?thesis using True assms(3,4)
    by (auto simp: EnterChain_cases enterChain_local [OF assms(2)] Let_def)
qed (simp add: fw_EnterChain_def)

text \<open>A small deployment the witnesses run on: an organisation scope above a run scope.\<close>

definition ex_limits :: limits where
  "ex_limits = \<lparr>MaxUSDPerMin = 10, MaxTokensPerMin = 1000, MaxConcurrent = 2, LoopThreshold = 3,
     MaxUSDPerRun = 20, KillTTL = 0\<rparr>"

definition ex_chain :: "scope list" where
  "ex_chain = [\<lparr>sc_Name = ''org'', sc_Key = ''org:a'', sc_Limits = ex_limits\<rparr>,
     \<lparr>sc_Name = ''run'', sc_Key = ''run:r'', sc_Limits = ex_limits\<rparr>]"

definition ex_fw :: "unit firewall" where "ex_fw = fw_New True ex_limits"

definition ex_now :: "nat \<Rightarrow> instant" where "ex_now i = 1700000000 * second"

lemma ex_fw_simps [simp]:
  "fw_ok ex_fw" "fw_enabled ex_fw" "fw_scopeStore ex_fw = None" "fw_sharedKills ex_fw = None"
  "fw_scopes ex_fw = []" "fw_loops ex_fw = []" "fw_limits ex_fw = ex_limits"
  "fw_localKills ex_fw = newMemKillStore DefaultKillTTL"
  by (simp_all add: ex_fw_def fw_New_ok) (simp_all add: fw_New_def ex_limits_def)

lemma ex_chain_simps [simp]:
  "\<not> malformed ex_chain" "chain_run ex_chain = (''run:r'', 20)" "map sc_Key ex_chain = [''org:a'', ''run:r'']"
  by (simp_all add: ex_chain_def malformed_def bad_key_def chain_run_def ex_limits_def maxScopeKeyLen_def)

lemma ex_fits:
  "sk \<in> set ex_chain \<Longrightarrow> fits sk 4 100 (0, 0)" "sk \<in> set ex_chain \<Longrightarrow> MaxConcurrent (sc_Limits sk) = 2"
  by (auto simp: ex_chain_def fits_def ex_limits_def wrap64_def)

lemma ex_not_killed: "\<not> fst (isKilled n r ex_fw w)"
  by (simp add: isKilled_no_shared ks_Killed_def newMemKillStore_def)

lemma ex_not_looping: "\<not> loops ex_fw r h"
  using hist_len_pos [of 3] by (simp add: loops_def prompts_def loop_hit_def lastn_def ex_limits_def)

theorem admitted_when_it_fits_witness:
  "\<exists>tk f' w'. fw_EnterChain ex_chain ''p'' 4 100 [] ex_now ex_fw () = (Inr tk, f', w')"
  by (rule admitted_when_it_fits)
    (simp_all add: ex_not_killed ex_not_looping ex_fits observers_None)

lemma ex_admits:
  obtains tk f' where "fw_EnterChain ex_chain ''p'' 4 100 [] ex_now ex_fw () = (Inr tk, f', ())"
proof -
  have "\<exists>tk f'. enterLocked ex_chain ''run:r'' ''p'' 20 4 100 (ex_now 1)
      (fst (snd (isKilled (ex_now 0) ''run:r'' ex_fw ()))) = (Admitted tk, f')"
    by (rule enterLocked_admits)
      (use ex_not_looping [of "''run:r''" "''p''"] in
        \<open>auto simp: frame_simps kills_ok ex_fits observers_None loops_def\<close>)
  then show thesis using that
    by (auto simp: EnterChain_cases enterChain_local Let_def ex_not_killed)
qed

theorem admitted_within_caps_witness:
  "\<exists>tk f'. fw_EnterChain ex_chain ''p'' 4 100 [] ex_now ex_fw () = (Inr tk, f', ())
     \<and> inflight (fw_scopes f') ''org:a'' \<le> 2 \<and> fst (reading (fw_scopes f') ''org:a'' 1700000000) \<le> 10
     \<and> snd (reading (fw_scopes f') ''org:a'' 1700000000) \<le> 1000 \<and> run_spent (fw_scopes f') ''run:r'' \<le> 20"
proof -
  obtain tk f' where e: "fw_EnterChain ex_chain ''p'' 4 100 [] ex_now ex_fw () = (Inr tk, f', ())"
    by (rule ex_admits)
  have d: "distinct (map sc_Key ex_chain)" by simp
  have now: "unix (ex_now i) = 1700000000" for i by (simp add: unix_def ex_now_def second_def)
  note c = admitted_within_caps [OF _ _ _ d e, where sk = "ex_chain ! 0"]
    admitted_within_caps [OF _ _ _ d e, where sk = "ex_chain ! 1"]
  show ?thesis
    using e c by (simp add: ex_chain_def observers_None ex_limits_def now)
qed

lemma enterChain_local_refused:
  assumes ok: "fw_ok f" and "fw_scopeStore f = None"
    and enter: "enterChain scs r h c u t hold now f w = (Inl e, f', w')"
  shows "fw_ok f'" and "same_load (unix (now 1)) (fw_scopes f) (fw_scopes f')"
    and "run_spent (fw_scopes f') k \<noteq> run_spent (fw_scopes f) k \<Longrightarrow>
      run_spent (fw_scopes f') k = 0 \<and> (\<exists>st. mget (fw_scopes f) k = Some st \<and> scope_idle (now 1) st)"
proof -
  define f1 where "f1 = fst (snd (isKilled (now 0) r f w))"
  have scopes: "fw_scopes f1 = fw_scopes f" and ok1: "fw_ok f1" using ok by (simp_all add: f1_def frame_simps kills_ok)
  then have sok: "scopes_ok (fw_scopes f1)" by (simp add: fw_ok_def)
  let ?g = "fw_gcLocked (now 1) f1"
  have g: "run_spent (fw_scopes ?g) k \<noteq> run_spent (fw_scopes f) k \<Longrightarrow>
      run_spent (fw_scopes ?g) k = 0 \<and> (\<exists>st. mget (fw_scopes f) k = Some st \<and> scope_idle (now 1) st)"
    using gc_run_spent [OF sok, of "now 1" k] gc_get [of f1 "now 1" k] sok
    by (auto simp: scopes scopes_ok_def run_spent_def split: if_splits option.splits)
  consider "f' = f1" | f2 w1 where "enterLocked scs r h c (max 0 u) (max 0 t) (now 1) f1 = (Tripped, f2)"
      "f' = fst (snd (doKill (now 2) r f2 w1))"
    | "enterLocked scs r h c (max 0 u) (max 0 t) (now 1) f1 = (Denied e, f')"
    using enter unfolding enterChain_local [OF assms(2)] f1_def
    by (auto simp: Let_def split: if_splits prod.splits locked_result.splits) (metis fst_conv)
  then have "fw_ok f' \<and> same_load (unix (now 1)) (fw_scopes f) (fw_scopes f') \<and>
    (run_spent (fw_scopes f') k \<noteq> run_spent (fw_scopes f) k \<longrightarrow>
      run_spent (fw_scopes f') k = 0 \<and> (\<exists>st. mget (fw_scopes f) k = Some st \<and> scope_idle (now 1) st))"
  proof (cases)
    case 2
    have eq: "fw_scopes f' = fw_scopes ?g" by (simp add: 2(2) frame_simps enterLocked_tripped [OF 2(1)])
    have "fw_ok f'" using enterLocked_ok [OF ok1 _ _ 2(1)] by (simp add: 2(2) kills_ok)
    then show ?thesis using gc_load [OF sok, of "now 1"] g by (simp add: eq scopes)
  next
    case 3
    note d = enterLocked_denied [OF sok _ 3, simplified]
    have "fw_ok f'" by (rule enterLocked_ok [OF ok1 _ _ 3]) simp_all
    then show ?thesis using d(2) d(3) [of k] g by (simp add: scopes)
  qed (simp add: ok1 scopes)
  then show "fw_ok f'" "same_load (unix (now 1)) (fw_scopes f) (fw_scopes f')"
    "run_spent (fw_scopes f') k \<noteq> run_spent (fw_scopes f) k \<Longrightarrow>
      run_spent (fw_scopes f') k = 0 \<and> (\<exists>st. mget (fw_scopes f) k = Some st \<and> scope_idle (now 1) st)"
    by blast+
qed

text \<open>
  C4. A refused request leaves no trace. Whatever the error (killed, looping, over the run budget, over a
  velocity or a concurrency cap of any scope of the chain), every counter reads as before the call: no scope
  earlier in the chain keeps a reservation, no in-flight slot leaks, and the budget hold is rolled back. The
  only change of a run's spend is the eviction of a scope that has been idle for the eviction TTL.
\<close>
theorem refused_leaves_no_trace:
  assumes "fw_ok f" "fw_scopeStore f = None" "fw_EnterChain scs h u t hold now f w = (Inl e, f', w')"
  shows "(\<forall>k. reading (fw_scopes f') k (unix (now 1)) = reading (fw_scopes f) k (unix (now 1))
      \<and> inflight (fw_scopes f') k = inflight (fw_scopes f) k) \<and>
    (\<forall>k. run_spent (fw_scopes f') k \<noteq> run_spent (fw_scopes f) k \<longrightarrow>
      run_spent (fw_scopes f') k = 0 \<and> (\<exists>st. mget (fw_scopes f) k = Some st \<and> scope_idle (now 1) st)) \<and>
    fw_ok f'"
  using assms enterChain_local_refused [OF assms(1,2)]
  by (auto simp: EnterChain_cases same_load_def split: if_splits)

text \<open>A chain the example firewall refuses: its estimate is above the run budget.\<close>

lemma ex_refuses:
  obtains f' where "fw_EnterChain ex_chain ''p'' 25 100 [] ex_now ex_fw () = (Inl ErrKilled, f', ())"
proof -
  let ?f = "fst (snd (isKilled (ex_now 0) ''run:r'' ex_fw ()))"
  have "fst (fst (checkLoopBudgetLocked ''run:r'' ''p'' 25 20 (ex_now 1) (fw_gcLocked (ex_now 1) ?f)))"
    using run_spent_nonneg [OF gc_scopes_ok, of ?f "ex_now 1" "''run:r''"]
    by (simp add: checkLoopBudget_trip_iff holds_budget_def frame_simps)
  then have "fst (fw_EnterChain ex_chain ''p'' 25 100 [] ex_now ex_fw ()) = Inl ErrKilled"
    by (simp add: EnterChain_cases enterChain_local Let_def ex_not_killed enterLocked_cases)
  then show thesis using that by (metis (full_types) old.unit.exhaust prod.collapse)
qed

theorem refused_leaves_no_trace_witness:
  "\<exists>f'. fw_EnterChain ex_chain ''p'' 25 100 [] ex_now ex_fw () = (Inl ErrKilled, f', ())
     \<and> inflight (fw_scopes f') ''org:a'' = 0 \<and> run_spent (fw_scopes f') ''run:r'' = 0"
proof -
  obtain f' where e: "fw_EnterChain ex_chain ''p'' 25 100 [] ex_now ex_fw () = (Inl ErrKilled, f', ())"
    by (rule ex_refuses)
  note r = refused_leaves_no_trace [OF _ _ e]
  show ?thesis using e r by (auto simp: observers_None)
qed

section \<open>Properties of kills\<close>

lemma ks_Kill_error: "fst (ks_Kill n r s) \<in> {None, Some ErrKillStoreFull}"
  by (auto simp: ks_Kill_def Let_def)

lemma doKill_res: "fst (ks_Kill n r (fw_localKills f)) = Some e \<Longrightarrow> fst (doKill n r f w) = Some e"
  by (auto simp: doKill_def split: prod.splits)

lemma ks_killed_within_ttl:
  assumes "ks_ok s" "fst (ks_Kill t0 r s) = None" "t0 \<le> t1" "t1 - t0 \<le> ks_ttl s"
  shows "fst (ks_Killed t1 r (snd (ks_Kill t0 r s)))"
proof -
  have "mget (ks_m (snd (ks_Kill t0 r s))) r = Some t0"
    using assms(2) by (auto simp: ks_Kill_def Let_def split: if_splits)
  moreover have "\<not> time_sub t1 t0 > ks_ttl s"
    using assms by (intro fresh_stamp [of t0]) (auto simp: ks_ok_def)
  ultimately show ?thesis by (simp add: ks_Killed_def frame_simps)
qed

lemma enterChain_dead: "fst (isKilled (now 0) r f w) \<Longrightarrow> fst (enterChain scs r h c u t hold now f w) = Inl ErrKilled"
  by (simp add: enterChain_def case_prod_unfold Let_def)

lemma KillRun_enabled: "fw_enabled (fst (snd (KillRun n r f w))) = fw_enabled f"
  by (simp add: KillRun_def frame_simps)

lemma killed_run_dead:
  assumes "fw_ok f" "r \<noteq> []" and kill: "KillRun t0 r f w = (res, f1, w1)" "res \<noteq> Some ErrKillStoreFull"
    and "t0 \<le> now" "now - t0 \<le> ks_ttl (fw_localKills f)"
  shows "fst (isKilled now r f1 w')"
proof -
  have f1: "f1 = fst (snd (doKill t0 r f w))" and res: "res = fst (doKill t0 r f w)"
    using kill(1) assms(2) by (auto simp: KillRun_def)
  have "fst (ks_Kill t0 r (fw_localKills f)) = None"
    using ks_Kill_error [of t0 r "fw_localKills f"] doKill_res [of t0 r f ErrKillStoreFull w] res kill(2) by auto
  then have "fst (ks_Killed now r (fw_localKills f1))"
    using assms by (simp add: f1 frame_simps ks_killed_within_ttl fw_ok_def)
  then show ?thesis by (rule isKilled_live [OF assms(2)])
qed

text \<open>
  A killed run is refused. Once \<open>KillRun\<close> has recorded a kill locally (it reports anything but a full
  store), every request whose chain carries that run is refused within the kill's TTL, whatever the shared
  kill store does: a kill takes effect even when the shared store is unreachable or answers wrongly.
\<close>
theorem killed_run_refused:
  assumes "fw_ok f" "fw_enabled f" "r \<noteq> []" and kill: "KillRun t0 r f w = (res, f1, w1)" "res \<noteq> Some ErrKillStoreFull"
    and "sk \<in> set scs" "is_run sk" "sc_Key sk = r"
    and "t0 \<le> now 0" "now 0 - t0 \<le> ks_ttl (fw_localKills f)"
  shows "fst (fw_EnterChain scs h u t hold now f1 w') = (if malformed scs then Inl ErrBadChain else Inl ErrKilled)"
proof -
  have dead: "fst (isKilled (now 0) r f1 w')" by (rule killed_run_dead [OF assms(1,3) kill assms(9,10)])
  have "fw_enabled f1" using assms(2) KillRun_enabled [of t0 r f w] kill(1) by simp
  then show ?thesis
    using chain_run_in [OF _ assms(6,7), of] assms(8) enterChain_dead [where now = now, OF dead]
    by (simp add: EnterChain_cases)
qed

theorem killed_run_refused_witness:
  "fst (fw_EnterChain ex_chain ''p'' 4 100 [] ex_now
     (fst (snd (KillRun (1700000000 * second - 60 * second) ''run:r'' ex_fw ()))) ()) = Inl ErrKilled"
proof -
  let ?k = "KillRun (1700000000 * second - 60 * second) ''run:r'' ex_fw ()"
  note k = triple_eq [of ?k]
  have "fst ?k \<noteq> Some ErrKillStoreFull"
    by (simp add: KillRun_def doKill_def ks_Kill_def newMemKillStore_def maxKills_def)
  then show ?thesis
    using killed_run_refused [OF _ _ _ k, where sk = "ex_chain ! 1" and scs = ex_chain and now = ex_now]
    by (simp add: ex_chain_simps(1)) (simp add: ex_chain_def ex_now_def newMemKillStore_def fw_consts)
qed

text \<open>The run key determines the owner and the run: an owner cannot name another's run.\<close>

lemma runKey_inject:
  assumes "fw_runKey a x = fw_runKey b y" "x \<noteq> []" "y \<noteq> []"
  shows "a = b \<and> x = y"
proof -
  have colon: "CHR '':'' \<notin> set (itoa n)" for n
    using itoa_chars [of "CHR '':''" n] by auto
  have "itoa (length a) @ CHR '':'' # (a @ [NUL] @ x) = itoa (length b) @ CHR '':'' # (b @ [NUL] @ y)"
    using assms by (simp add: fw_runKey_def)
  then have "itoa (length a) = itoa (length b)" and eq: "a @ [NUL] @ x = b @ [NUL] @ y"
    using append_sep_inject [OF colon colon] by blast+
  then have "length a = length b" by (simp add: itoa_inject)
  with eq show ?thesis by simp
qed

lemma ks_Kill_other:
  assumes "ks_ok s" "k \<noteq> r" "t0 \<le> t1"
  shows "fst (ks_Killed t1 k (snd (ks_Kill t0 r s))) = fst (ks_Killed t1 k s)"
proof -
  have wf: "mwf (ks_m s)" using assms(1) by (simp add: ks_ok_def)
  have live: "kill_live t1 k (ks_gcLocked t0 s) = kill_live t1 k s"
    using time_sub_mono [OF assms(3)] ks_gc_get [OF wf, of t0 k]
    by (auto simp: kill_live_def frame_simps split: option.splits if_splits) (meson order.strict_trans2)
  have "kill_live t1 k (s'\<lparr>ks_m := mput r t0 (ks_m s')\<rparr>) = kill_live t1 k s'"
    "kill_live t1 k (s'\<lparr>ks_rejected := n\<rparr>) = kill_live t1 k s'" for s' n
    using assms(2) by (simp_all add: kill_live_def)
  then have "kill_live t1 k (snd (ks_Kill t0 r s)) = kill_live t1 k s"
    using live by (simp add: ks_Kill_def Let_def)
  then show ?thesis using assms(1) by (simp add: mem_kills.killed_iff ks_Kill_ok)
qed

text \<open>
  C7. Kills are isolated by owner. Killing \<open>runID\<close> as \<open>owner\<close> changes the answer for no other (owner, run)
  pair: run keys are injective, whatever bytes the owner's key and the run id contain, so a spoofed run id
  cannot kill another caller's run.
\<close>
theorem kill_isolation:
  assumes "fw_ok f" "fw_sharedKills f = None" "(owner', run') \<noteq> (owner, run)" "t0 \<le> t1"
    and "fw_Kill t0 owner run f w = (res, f1, w1)"
  shows "fst (fw_Killed t1 owner' run' f1 w1) = fst (fw_Killed t1 owner' run' f w)"
proof (cases "run = [] \<or> run' = []")
  case True
  then show ?thesis using assms(5) by (auto simp: fw_Kill_def fw_Killed_def)
next
  case False
  let ?r = "fw_runKey owner run" and ?r' = "fw_runKey owner' run'"
  have ne: "?r \<noteq> []" "?r' \<noteq> []" "?r' \<noteq> ?r"
    using False assms(3) runKey_inject [of owner' run' owner run] by (auto simp: fw_runKey_def)
  have f1: "f1 = fst (snd (doKill t0 ?r f w))"
    using assms(5) ne False by (auto simp: fw_Kill_def KillRun_def)
  have "ks_ok (fw_localKills f)" using assms(1) by (simp add: fw_ok_def)
  then show ?thesis
    using False ne assms(2,4) ks_Kill_other [OF _ ne(3) assms(4)]
    by (simp add: fw_Killed_def RunKilled_def isKilled_no_shared f1 frame_simps)
qed

theorem kill_isolation_witness:
  "\<not> fst (fw_Killed 5 ''team'' ''r1'' (fst (snd (fw_Kill 3 ''other'' ''r1'' ex_fw ()))) ())"
proof -
  let ?k = "fw_Kill 3 ''other'' ''r1'' ex_fw ()"
  have "fst (fw_Killed 5 ''team'' ''r1'' (fst (snd ?k)) (snd (snd ?k))) = fst (fw_Killed 5 ''team'' ''r1'' ex_fw ())"
    by (rule kill_isolation [OF _ _ _ _ triple_eq [of ?k]]) simp_all
  then show ?thesis by (simp add: fw_Killed_def RunKilled_def ex_not_killed)
qed

end
