(* ===== verification/FirewallShared.thy ===== *)
theory FirewallShared
  imports FirewallEnter
begin

text \<open>
  The admit path of \<open>internal/firewall/firewall.go\<close> with a shared scope store (\<open>enterShared\<close>), for an
  arbitrary store: which errors it can report, what it leaves behind when the store denies, and that a store
  that cannot be reached degrades to the local caps, exactly as if no store were configured. The section
  also holds the properties that do not depend on the mode: a malformed chain fails closed, and \<open>Enter\<close> is
  \<open>EnterChain\<close> on a key scope and a run scope.
\<close>

section \<open>Errors\<close>

lemma checkReserve_error:
  "checkReserveScopesLocked scs u t now m = (Inl e, m') \<Longrightarrow>
   \<exists>sk\<in>set scs. e = VelocityError (sc_Name sk) (int windowSeconds) \<or> e = ConcurrencyError (sc_Name sk)"
  using checkVelocityAll_error [of scs u t now m] checkConcurrencyAll_error [of scs]
  by (fastforce simp: checkReserve_cases Let_def split: option.splits)

lemma enterLocked_error:
  "enterLocked scs r h c u t now f = (Denied e, f') \<Longrightarrow>
   \<exists>sk\<in>set scs. e = VelocityError (sc_Name sk) (int windowSeconds) \<or> e = ConcurrencyError (sc_Name sk)"
  by (auto simp: enterLocked_cases Let_def split: if_splits prod.splits sum.splits dest: checkReserve_error)

lemma reserveScopesLocal_cases:
  "reserveScopesLocal scs bk u t now f =
     (case checkReserveScopesLocked scs u t now (fw_scopes f) of
        (Inl e, m) \<Rightarrow> (Inl e, f\<lparr>fw_scopes := adjustRunUSD bk (- u) m\<rparr>)
      | (Inr ks, m) \<Rightarrow>
          (Inr (zero_ticket\<lparr>tk_fw := True, tk_scopeKeys := ks, tk_runScopeKey := bk, tk_estUSD := u,
             tk_estTokens := t\<rparr>), f\<lparr>fw_scopes := m\<rparr>))"
  by (simp add: reserveScopesLocal_def unreserve_is_adjust split: prod.split sum.split)

text \<open>The outcome of the shared path, by what the local check and the store answer.\<close>

lemma enterShared_cases:
  "enterShared ss scs r h c u t hold now f w =
     (let lb = checkLoopBudgetLocked r h u c (now 1) (fw_gcLocked (now 1) f);
          f1 = snd lb; bk = snd (fst lb);
          (keys, names, mu, mt, mc) = sharedCaps scs;
          rsv = ss_Reserve ss keys names mu mt mc u t hold w
      in if fst (fst lb) then (Inl ErrKilled, snd (doKill (now 2) r f1 w))
         else if keys = [] then
           (Inr (zero_ticket\<lparr>tk_fw := True, tk_runScopeKey := bk, tk_estUSD := u, tk_estTokens := t\<rparr>), f1, w)
         else case fst rsv of
           (_, _, _, Some _) \<Rightarrow>
             (let l = reserveScopesLocal scs bk u t (now 2) (f1\<lparr>fw_scopeDegraded := Suc (fw_scopeDegraded f1)\<rparr>)
              in (fst l, snd l, snd rsv))
         | (adm, dname, dkind, None) \<Rightarrow>
             if adm then
               (Inr (zero_ticket\<lparr>tk_fw := True, tk_store := fw_scopeStore f1, tk_storeKeys := keys,
                  tk_holdID := hold, tk_runScopeKey := bk, tk_estUSD := u, tk_estTokens := t\<rparr>), f1, snd rsv)
             else (Inl (if dkind = ''concurrency'' then ConcurrencyError dname
                        else VelocityError dname (int windowSeconds)),
                   f1\<lparr>fw_scopes := adjustRunUSD bk (- u) (fw_scopes f1)\<rparr>, snd rsv))"
  by (simp add: enterShared_def reserveLocalLocked_def releaseBudgetLocked_def unreserve_is_adjust
      case_prod_unfold Let_def split: prod.split option.split bool.split)

lemma enterShared_error:
  "fst (enterShared ss scs r h c u t hold now f w) = Inl e \<Longrightarrow>
   e = ErrKilled \<or> (\<exists>n. e = VelocityError n (int windowSeconds) \<or> e = ConcurrencyError n)"
  by (auto simp: enterShared_cases reserveScopesLocal_cases Let_def
      split: if_splits option.splits sum.splits prod.splits dest: checkReserve_error)

lemma enterChain_error:
  assumes "fst (enterChain scs r h c u t hold now f w) = Inl e"
  shows "e = ErrKilled \<or> (\<exists>n. e = VelocityError n (int windowSeconds) \<or> e = ConcurrencyError n)"
proof (cases "fw_scopeStore f")
  case None
  then show ?thesis using assms enterLocked_error [of scs r h c "max 0 u" "max 0 t" "now 1"]
    by (fastforce simp: enterChain_local Let_def split: if_splits prod.splits locked_result.splits)
next
  case (Some ss)
  then show ?thesis using assms enterShared_error [of ss scs r h c _ _ hold now]
    by (fastforce simp: enterChain_def frame_simps case_prod_unfold Let_def split: if_splits)
qed

lemma never_bad_chain: "fst (enterChain scs r h c u t hold now f w) \<noteq> Inl ErrBadChain"
  using enterChain_error [of scs r h c u t hold now f w ErrBadChain] by auto

text \<open>
  A malformed chain fails closed. With or without shared stores, \<open>EnterChain\<close> answers \<open>ErrBadChain\<close>
  exactly when a scope key is empty or longer than 512 bytes or the chain has two run scopes, and then it
  neither reserves nor kills anything.
\<close>
theorem bad_chain_fails_closed:
  assumes "fw_enabled f"
  shows "(fst (fw_EnterChain scs h u t hold now f w) = Inl ErrBadChain \<longleftrightarrow>
      (\<exists>sc\<in>set scs. sc_Key sc = [] \<or> 512 < length (sc_Key sc)) \<or>
      1 < length (filter (\<lambda>sc. sc_Name sc = ''run'') scs)) \<and>
    (fst (fw_EnterChain scs h u t hold now f w) = Inl ErrBadChain \<longrightarrow>
      snd (fw_EnterChain scs h u t hold now f w) = (f, w))"
  using assms
  by (auto simp: EnterChain_cases never_bad_chain malformed_def bad_key_def maxScopeKeyLen_def)

theorem bad_chain_fails_closed_witness:
  "fst (fw_EnterChain [ex_chain ! 1, ex_chain ! 1] ''p'' 4 100 [] ex_now ex_fw ()) = Inl ErrBadChain"
  using bad_chain_fails_closed [of ex_fw "[ex_chain ! 1, ex_chain ! 1]"] by (simp add: ex_chain_def)

section \<open>Enter as a chain\<close>

definition enter_chain :: "limits \<Rightarrow> gostring \<Rightarrow> gostring \<Rightarrow> scope list" where
  "enter_chain l key runID =
     (if key = [] then [] else [\<lparr>sc_Name = ''key'', sc_Key = ''key:'' @ key, sc_Limits = l\<rparr>])
     @ (if runID = [] then [] else [\<lparr>sc_Name = ''run'', sc_Key = fw_runKey key runID, sc_Limits = l\<rparr>])"

lemma checkLoopBudget_no_run: "checkLoopBudgetLocked [] h u c now f = ((False, []), f)"
  by (simp add: checkLoopBudgetLocked_def)

lemma enterChain_no_run: "enterChain scs [] h c u t hold now f w = enterChain scs [] h 0 u t hold now f w"
proof -
  have eqs: "enterLocked scs [] h c u t n f = enterLocked scs [] h 0 u t n f"
    "enterShared ss scs [] h c u t hold now f w = enterShared ss scs [] h 0 u t hold now f w" for u t n f ss w
    by (simp_all add: enterShared_def reserveLocalLocked_def enterLocked_def checkLoopBudget_no_run)
  show ?thesis unfolding enterChain_def eqs ..
qed

text \<open>
  \<open>Enter\<close> is \<open>EnterChain\<close> on the two-scope chain (key, run): the single-key API has the caps, the kill
  switch, the loop detector and the run budget of the chain API, for every key and run id short enough for a
  scope key.
\<close>
theorem enter_is_chain:
  assumes "length key \<le> 508" "length (fw_runKey key runID) \<le> 512"
  shows "fw_Enter key runID h u t hold now f w =
    fw_EnterChain (enter_chain (fw_limits f) key runID) h u t hold now f w"
proof -
  have "(fw_runKey key runID = []) = (runID = [])" by (simp add: fw_runKey_def)
  moreover have "fw_runKey key [] = []" by (simp add: fw_runKey_def)
  ultimately show ?thesis using assms
    by (auto simp: fw_Enter_def EnterChain_cases enter_chain_def malformed_def bad_key_def chain_run_def
        maxScopeKeyLen_def Let_def enterChain_no_run [of _ h "MaxUSDPerRun (fw_limits f)"])
qed

lemma short_itoa: "n < 10 \<Longrightarrow> length (itoa n) = 1" by (subst itoa.simps) simp

theorem enter_is_chain_witness:
  "fw_Enter ''k'' ''r'' ''p'' 4 100 [] ex_now ex_fw () =
   fw_EnterChain (enter_chain ex_limits ''k'' ''r'') ''p'' 4 100 [] ex_now ex_fw ()"
  using enter_is_chain [of "''k''" "''r''" "''p''" 4 100 "[]" ex_now ex_fw "()"]
  by (simp add: fw_runKey_def short_itoa)

section \<open>A store that cannot be reached\<close>

text \<open>The configured store is not read by the locked sections.\<close>

lemma gc_store: "fw_gcLocked n (f\<lparr>fw_scopeStore := x\<rparr>) = (fw_gcLocked n f)\<lparr>fw_scopeStore := x\<rparr>"
  by (simp add: fw_gcLocked_def)

lemma checkLoopBudget_store:
  "checkLoopBudgetLocked r h u c n (f\<lparr>fw_scopeStore := x\<rparr>) =
     (fst (checkLoopBudgetLocked r h u c n f), (snd (checkLoopBudgetLocked r h u c n f))\<lparr>fw_scopeStore := x\<rparr>)"
proof -
  obtain b ls where trip: "tripLoopLocked (LoopThreshold (fw_limits f)) r h n (fw_loops f) = (b, ls)"
    by (metis surj_pair)
  obtain st m where ens: "ensureScopeLocked r n (fw_scopes f) = (st, m)" by (metis surj_pair)
  define sp where "sp = (case mget (fw_scopes f) r of None \<Rightarrow> 0 | Some st \<Rightarrow> st_runUSD st)"
  show ?thesis
    by (cases "r = []"; cases "0 < LoopThreshold (fw_limits f)"; cases "h = []"; cases b; cases "0 < c"; cases "sp + u > c")
      (simp_all add: checkLoopBudgetLocked_def trip ens sp_def [symmetric])
qed

lemma enterLocked_store:
  "enterLocked scs r h c u t n (f\<lparr>fw_scopeStore := x\<rparr>) =
     (fst (enterLocked scs r h c u t n f), (snd (enterLocked scs r h c u t n f))\<lparr>fw_scopeStore := x\<rparr>)"
proof -
  obtain b bk f2 where lb: "checkLoopBudgetLocked r h u c n (fw_gcLocked n f) = ((b, bk), f2)"
    by (metis surj_pair)
  obtain x m where cr: "checkReserveScopesLocked scs u t n (fw_scopes f2) = (x, m)" by (metis surj_pair)
  show ?thesis by (cases x) (simp_all add: enterLocked_cases gc_store checkLoopBudget_store lb cr)
qed

lemma isKilled_store:
  "isKilled n r (f\<lparr>fw_scopeStore := x\<rparr>) w =
     (fst (isKilled n r f w), (fst (snd (isKilled n r f w)))\<lparr>fw_scopeStore := x\<rparr>, snd (snd (isKilled n r f w)))"
  by (simp add: isKilled_def case_prod_unfold Let_def split: prod.split bool.split option.split)

definition store_down :: "'w ScopeStoreI \<Rightarrow> bool" where
  "store_down ss \<longleftrightarrow> (\<forall>ks ns mu mt mc u t hold w.
     snd (snd (snd (fst (ss_Reserve ss ks ns mu mt mc u t hold w)))) \<noteq> None)"

lemma sharedCaps_keys: "fst (sharedCaps scs) = map sc_Key (filter has_cap scs)"
  by (simp add: sharedCaps_def Let_def)

lemma enterShared_down:
  assumes "store_down ss" "now 2 = now 1" "filter has_cap scs \<noteq> []"
  shows "fst (enterShared ss scs r h c u t hold now f w) =
      (case fst (enterLocked scs r h c u t (now 1) f) of
         Tripped \<Rightarrow> Inl ErrKilled | Denied e \<Rightarrow> Inl e | Admitted tk \<Rightarrow> Inr tk)"
    and "fw_scopes (fst (snd (enterShared ss scs r h c u t hold now f w))) =
      fw_scopes (snd (enterLocked scs r h c u t (now 1) f))"
proof -
  obtain keys ns mu mt mc where caps: "sharedCaps scs = (keys, ns, mu, mt, mc)" by (metis surj_pair)
  have keys: "keys \<noteq> []" using sharedCaps_keys [of scs] caps assms(3) by simp
  obtain b dn dk e w1 where r: "ss_Reserve ss keys ns mu mt mc u t hold w = ((b, dn, dk, Some e), w1)"
  proof -
    have "snd (snd (snd (fst (ss_Reserve ss keys ns mu mt mc u t hold w)))) \<noteq> None"
      using assms(1) unfolding store_down_def by blast
    then show thesis using that by (metis option.exhaust prod.collapse)
  qed
  show "fst (enterShared ss scs r h c u t hold now f w) =
      (case fst (enterLocked scs r h c u t (now 1) f) of
         Tripped \<Rightarrow> Inl ErrKilled | Denied e \<Rightarrow> Inl e | Admitted tk \<Rightarrow> Inr tk)"
    "fw_scopes (fst (snd (enterShared ss scs r h c u t hold now f w))) =
      fw_scopes (snd (enterLocked scs r h c u t (now 1) f))"
    using assms(2) keys
    by (auto simp: enterShared_cases caps r reserveScopesLocal_cases enterLocked_cases Let_def frame_simps
        split: prod.split sum.split)
qed


definition ex_down :: "unit ScopeStoreI" where
  "ex_down = \<lparr>ss_Reserve = \<lambda>_ _ _ _ _ _ _ _ w. ((False, [], [], Some ''dial tcp''), w),
     ss_Settle = \<lambda>_ _ _ w. (Some ''dial tcp'', w), ss_Release = \<lambda>_ _ _ _ _ w. (Some ''dial tcp'', w)\<rparr>"


end
