(* ===== verification/FirewallRuns.thy ===== *)
theory FirewallRuns
  imports FirewallShared
begin

text \<open>
  Whole executions of the firewall of \<open>internal/firewall/firewall.go\<close> in local mode: requests enter, are
  settled and released in any order and at any time, runs are killed, idle scopes are collected. The mutex
  makes each call's locked section atomic, so an execution is a sequence of steps over the firewall and the
  tickets it has issued; each ticket carries, as a ghost, the amount it currently stands for (its
  estimate, then the settled amount).
\<close>

section \<open>Settling and releasing, through the observers\<close>

lemma adjustScope_ok: "scopes_ok m \<Longrightarrow> scopes_ok (adjustScope n d t k m)"
  by (auto simp: adjustScope_def scope_ok_def window_add_ok frame_simps dest: scopes_ok_get
      intro!: scopes_ok_put split: option.split)

lemma adjustScope_frame:
  "inflight (adjustScope n d t k m) x = inflight m x" "run_spent (adjustScope n d t k m) x = run_spent m x"
  "mget (adjustScope n d t k m) x = None \<longleftrightarrow> mget m x = None"
  by (auto simp: adjustScope_def observers_put observers_Some split: option.split)

lemma fold_adjust_ok: "scopes_ok m \<Longrightarrow> scopes_ok (fold (adjustScope n d t) ks m)"
  by (induction ks arbitrary: m) (simp_all add: adjustScope_ok)

lemma fold_adjust_frame:
  "inflight (fold (adjustScope n d t) ks m) x = inflight m x"
  "run_spent (fold (adjustScope n d t) ks m) x = run_spent m x"
  "mget (fold (adjustScope n d t) ks m) x = None \<longleftrightarrow> mget m x = None"
  by (induction ks arbitrary: m) (simp_all add: adjustScope_frame)

lemma releaseScope_ok: "scopes_ok m \<Longrightarrow> scopes_ok (releaseScope n b u t k m)"
  by (auto simp: releaseScope_def scope_ok_def window_add_ok frame_simps dest: scopes_ok_get
      intro!: scopes_ok_put split: option.split)

lemma releaseScope_frame:
  "run_spent (releaseScope n b u t k m) x = run_spent m x"
  "mget (releaseScope n b u t k m) x = None \<longleftrightarrow> mget m x = None"
  by (auto simp: releaseScope_def observers_put observers_Some split: option.split)

lemma releaseScope_inflight:
  "scopes_ok m \<Longrightarrow> inflight (releaseScope n b u t k m) x = (if x = k then max 0 (inflight m x - 1) else inflight m x)"
  using inflight_nonneg [of m k]
  by (auto simp: releaseScope_def observers_put observers_Some observers_None split: option.split)

lemma fold_release_ok: "scopes_ok m \<Longrightarrow> scopes_ok (fold (releaseScope n b u t) ks m)"
  by (induction ks arbitrary: m) (simp_all add: releaseScope_ok)

lemma fold_release_frame:
  "run_spent (fold (releaseScope n b u t) ks m) x = run_spent m x"
  "mget (fold (releaseScope n b u t) ks m) x = None \<longleftrightarrow> mget m x = None"
  by (induction ks arbitrary: m) (simp_all add: releaseScope_frame)

lemma fold_release_inflight:
  "scopes_ok m \<Longrightarrow> inflight (fold (releaseScope n b u t) ks m) x = max 0 (inflight m x - int (count_list ks x))"
proof (induction ks arbitrary: m)
  case Nil
  then show ?case using inflight_nonneg [of m x] by simp
next
  case (Cons k ks)
  then show ?case using releaseScope_inflight [OF Cons.prems, of n b u t k x]
    by (auto simp: releaseScope_ok)
qed

text \<open>A ticket of a firewall without a scope store.\<close>

lemma tk_Settle_local:
  assumes "tk_store tk = None" "tk_Settle a b n tk f w = (tk', f', w')"
  shows "w' = w" and "f' = f\<lparr>fw_scopes := fw_scopes f'\<rparr>"
    and "tk' = (if tk_fw tk \<and> \<not> tk_released tk then tk\<lparr>tk_settled := True\<rparr> else tk)"
    and "scopes_ok (fw_scopes f) \<Longrightarrow> scopes_ok (fw_scopes f')"
    and "inflight (fw_scopes f') k = inflight (fw_scopes f) k"
    and "run_spent (fw_scopes f') k =
      (if tk_fw tk \<and> \<not> tk_settled tk \<and> \<not> tk_released tk \<and> k = tk_runScopeKey tk \<and> k \<noteq> [] \<and> mget (fw_scopes f) k \<noteq> None
       then max 0 (run_spent (fw_scopes f) k + (a - tk_estUSD tk)) else run_spent (fw_scopes f) k)"
  using assms adjustRunUSD_load(1)
  by (auto simp: tk_Settle_def Let_def adjustRunUSD_ok fold_adjust_ok adjustRunUSD_spent fold_adjust_frame
      same_load_def split: if_splits)

lemma tk_Release_local:
  assumes "tk_store tk = None" "tk_Release n tk f w = (tk', f', w')"
  shows "w' = w" and "f' = f\<lparr>fw_scopes := fw_scopes f'\<rparr>"
    and "tk' = (if tk_fw tk then tk\<lparr>tk_released := True\<rparr> else tk)"
    and "scopes_ok (fw_scopes f) \<Longrightarrow> scopes_ok (fw_scopes f')"
    and "scopes_ok (fw_scopes f) \<Longrightarrow> inflight (fw_scopes f') k =
      (if tk_fw tk \<and> \<not> tk_released tk then max 0 (inflight (fw_scopes f) k - int (count_list (tk_scopeKeys tk) k))
       else inflight (fw_scopes f) k)"
    and "run_spent (fw_scopes f') k =
      (if tk_fw tk \<and> \<not> tk_settled tk \<and> \<not> tk_released tk \<and> k = tk_runScopeKey tk \<and> k \<noteq> [] \<and> mget (fw_scopes f) k \<noteq> None
       then max 0 (run_spent (fw_scopes f) k - tk_estUSD tk) else run_spent (fw_scopes f) k)"
  using assms adjustRunUSD_load(1)
  by (auto simp: tk_Release_def Let_def adjustRunUSD_ok fold_release_ok adjustRunUSD_spent fold_release_frame
      fold_release_inflight same_load_def split: if_splits)

section \<open>Executions\<close>

type_synonym 'w issued = "('w ticket \<times> usd) list"

inductive fw_step :: "'w firewall \<times> 'w issued \<Rightarrow> 'w firewall \<times> 'w issued \<Rightarrow> bool" where
  step_admit: "fw_EnterChain scs h u t hold now f w = (Inr tk, f', w') \<Longrightarrow>
     fw_step (f, ts) (f', ts @ [(tk, tk_estUSD tk)])"
| step_refuse: "fw_EnterChain scs h u t hold now f w = (Inl e, f', w') \<Longrightarrow> fw_step (f, ts) (f', ts)"
| step_settle: "tk_Settle a b n (fst (ts ! i)) f w = (tk', f', w') \<Longrightarrow> i < length ts \<Longrightarrow> 0 \<le> a \<Longrightarrow>
     fw_step (f, ts) (f', ts[i := (tk', if tk_settled tk' \<and> \<not> tk_settled (fst (ts ! i)) then a else snd (ts ! i))])"
| step_release: "tk_Release n (fst (ts ! i)) f w = (tk', f', w') \<Longrightarrow> i < length ts \<Longrightarrow>
     fw_step (f, ts) (f', ts[i := (tk', snd (ts ! i))])"
| step_kill: "KillRun n r f w = (res, f', w') \<Longrightarrow> fw_step (f, ts) (f', ts)"

inductive fw_reach :: "'w firewall \<times> 'w issued \<Rightarrow> bool" where
  reach_new: "fw_reach (fw_New en l0, [])"
| reach_step: "fw_reach s \<Longrightarrow> fw_step s s' \<Longrightarrow> fw_reach s'"

inductive_cases fw_step_elim: "fw_step (f, ts) s'"

text \<open>What the outstanding tickets hold of a scope: in-flight slots, and dollars of a run's budget.\<close>

definition slots_of :: "gostring \<Rightarrow> 'w ticket \<times> usd \<Rightarrow> int" where
  "slots_of k p = (if tk_released (fst p) then 0 else int (count_list (tk_scopeKeys (fst p)) k))"

definition charge_of :: "gostring \<Rightarrow> 'w ticket \<times> usd \<Rightarrow> usd" where
  "charge_of k p = (if tk_released (fst p) \<or> tk_runScopeKey (fst p) \<noteq> k then 0 else snd p)"

definition outstanding_slots :: "gostring \<Rightarrow> 'w issued \<Rightarrow> int" where
  "outstanding_slots k ts = sum_list (map (slots_of k) ts)"

definition outstanding_usd :: "gostring \<Rightarrow> 'w issued \<Rightarrow> usd" where
  "outstanding_usd k ts = sum_list (map (charge_of k) ts)"

definition ticket_ok :: "'w ticket \<times> usd \<Rightarrow> bool" where
  "ticket_ok p \<longleftrightarrow> (case p of (tk, c) \<Rightarrow>
     tk_store tk = None \<and> 0 \<le> c \<and> (\<not> tk_settled tk \<longrightarrow> c = tk_estUSD tk)
     \<and> (tk_runScopeKey tk = [] \<or> tk_runScopeKey tk \<in> set (tk_scopeKeys tk))
     \<and> (\<not> tk_fw tk \<longrightarrow> tk_scopeKeys tk = [] \<and> tk_runScopeKey tk = []))"

definition fw_inv :: "'w firewall \<times> 'w issued \<Rightarrow> bool" where
  "fw_inv s \<longleftrightarrow> (case s of (f, ts) \<Rightarrow>
     fw_ok f \<and> fw_scopeStore f = None \<and> (\<forall>p\<in>set ts. ticket_ok p)
     \<and> (\<forall>k. inflight (fw_scopes f) k = outstanding_slots k ts)
     \<and> (\<forall>k. k \<noteq> [] \<longrightarrow> outstanding_usd k ts \<le> run_spent (fw_scopes f) k))"

lemma sum_list_update_diff:
  fixes g :: "'a \<Rightarrow> 'b::ab_group_add"
  shows "i < length xs \<Longrightarrow> sum_list (map g (xs[i := y])) = sum_list (map g xs) - g (xs ! i) + g y"
  by (induction xs arbitrary: i) (auto simp: nth_Cons' split: nat.split)

lemma outstanding_snoc:
  "outstanding_slots k (ts @ [p]) = outstanding_slots k ts + slots_of k p"
  "outstanding_usd k (ts @ [p]) = outstanding_usd k ts + charge_of k p"
  by (simp_all add: outstanding_slots_def outstanding_usd_def)

lemma outstanding_update:
  "i < length ts \<Longrightarrow> outstanding_slots k (ts[i := p]) = outstanding_slots k ts - slots_of k (ts ! i) + slots_of k p"
  "i < length ts \<Longrightarrow> outstanding_usd k (ts[i := p]) = outstanding_usd k ts - charge_of k (ts ! i) + charge_of k p"
  by (simp_all add: outstanding_slots_def outstanding_usd_def sum_list_update_diff)

lemma count_list_pos: "x \<in> set xs \<Longrightarrow> 0 < count_list xs x"
  using count_list_0_iff [of xs x] by linarith

lemma issued_ok:
  "fw_inv (f, ts) \<Longrightarrow> i < length ts \<Longrightarrow> ts ! i = p \<Longrightarrow> p \<in> set ts \<and> ticket_ok p"
  unfolding fw_inv_def using nth_mem [of i ts] by auto

lemma slots_nonneg: "0 \<le> slots_of k p" by (simp add: slots_of_def)

lemma slots_le: "p \<in> set ts \<Longrightarrow> slots_of k p \<le> outstanding_slots k ts"
  unfolding outstanding_slots_def
  by (rule member_le_sum_list) (auto simp: slots_nonneg)

lemma charge_le: "\<forall>p\<in>set ts. ticket_ok p \<Longrightarrow> p \<in> set ts \<Longrightarrow> charge_of k p \<le> outstanding_usd k ts"
  unfolding outstanding_usd_def
  by (rule member_le_sum_list) (auto simp: charge_of_def ticket_ok_def)

lemma no_slots_no_charge:
  assumes "\<forall>p\<in>set ts. ticket_ok p" "k \<noteq> []" "outstanding_slots k ts = 0"
  shows "outstanding_usd k ts = 0"
proof -
  have "charge_of k p = 0" if p: "p \<in> set ts" for p
  proof -
    have "slots_of k p = 0" using slots_le [OF p, of k] slots_nonneg [of k p] assms(3) by simp
    then have "tk_released (fst p) \<or> k \<notin> set (tk_scopeKeys (fst p))"
      by (auto simp: slots_of_def count_list_0_iff split: if_splits)
    with assms(1,2) p show ?thesis by (auto simp: charge_of_def ticket_ok_def)
  qed
  then show ?thesis unfolding outstanding_usd_def by (simp add: sum_list_0 cong: map_cong)
qed

section \<open>The invariant holds in every reachable state\<close>

lemma chain_run_key: "fst (chain_run scs) \<noteq> [] \<Longrightarrow> fst (chain_run scs) \<in> set (map sc_Key scs)"
proof -
  have "sc \<in> set scs" if "filter is_run scs = sc # rest" for sc rest
    using that by (metis (no_types, lifting) filter_is_subset list.set_intros(1) subsetD)
  then show "fst (chain_run scs) \<noteq> [] \<Longrightarrow> fst (chain_run scs) \<in> set (map sc_Key scs)"
    by (auto simp: chain_run_def split: list.splits)
qed

lemma gc_covers:
  assumes ok: "scopes_ok (fw_scopes f)" and ts: "\<forall>p\<in>set ts. ticket_ok p" and k: "k \<noteq> []"
    and slots: "inflight (fw_scopes f) k = outstanding_slots k ts"
    and usd: "outstanding_usd k ts \<le> run_spent (fw_scopes f) k"
  shows "outstanding_usd k ts \<le> run_spent (fw_scopes (fw_gcLocked n f)) k"
proof (cases "mget (fw_scopes (fw_gcLocked n f)) k")
  case None
  then have "inflight (fw_scopes f) k = 0"
    using gc_load [OF ok, of n] observers_None(2) unfolding same_load_def by metis
  then have "outstanding_usd k ts = 0" using no_slots_no_charge [OF ts k] slots by simp
  then show ?thesis using run_spent_nonneg [OF gc_scopes_ok [OF ok]] by simp
next
  case Some
  then show ?thesis using gc_run_spent [OF ok, of n k] usd by simp
qed

lemma inv_admit:
  assumes inv: "fw_inv (f, ts)" and enter: "fw_EnterChain scs h u t hold now f w = (Inr tk, f', w')"
  shows "fw_inv (f', ts @ [(tk, tk_estUSD tk)])"
proof (cases "fw_enabled f")
  case False
  then have "tk = zero_ticket" "f' = f" using enter by (simp_all add: fw_EnterChain_def)
  then show ?thesis using inv
    by (auto simp: fw_inv_def outstanding_snoc slots_of_def charge_of_def ticket_ok_def zero_ticket_def)
next
  case True
  let ?r = "fst (chain_run scs)" and ?c = "snd (chain_run scs)"
  have inv': "fw_ok f" "fw_scopeStore f = None" "\<forall>p\<in>set ts. ticket_ok p"
    "\<And>k. inflight (fw_scopes f) k = outstanding_slots k ts"
    "\<And>k. k \<noteq> [] \<Longrightarrow> outstanding_usd k ts \<le> run_spent (fw_scopes f) k"
    using inv by (simp_all add: fw_inv_def)
  have e: "enterChain scs ?r h ?c u t hold now f w = (Inr tk, f', w')"
    using enter True by (auto simp: EnterChain_cases split: if_splits)
  then obtain f1 where adm: "enterLocked scs ?r h ?c (max 0 u) (max 0 t) (now 1) f1 = (Admitted tk, f')"
    and f1: "f1 = fst (snd (isKilled (now 0) ?r f w))" by (rule enterChain_admitted [OF inv'(2)])
  have scopes: "fw_scopes f1 = fw_scopes f" and ok1: "fw_ok f1" using inv'(1) by (simp_all add: f1 frame_simps kills_ok)
  then have sok: "scopes_ok (fw_scopes f1)" by (simp add: fw_ok_def)
  note a = enterLocked_admitted [OF sok _ _ adm, simplified]
  have "fw_ok f'" by (rule enterLocked_ok [OF ok1 _ _ adm]) simp_all
  moreover have "fw_scopeStore f' = None"
    using enterChain_keeps_store [OF inv'(2), of scs ?r h ?c u t hold now w] by (simp add: e)
  moreover have "ticket_ok (tk, tk_estUSD tk)"
    using chain_run_key [of scs] by (auto simp: ticket_ok_def a(1) zero_ticket_def holds_budget_def)
  moreover have "inflight (fw_scopes f') k = outstanding_slots k (ts @ [(tk, tk_estUSD tk)])" for k
    using a(3) inv'(4) by (simp add: outstanding_snoc slots_of_def a(1) zero_ticket_def scopes)
  moreover have "outstanding_usd k (ts @ [(tk, tk_estUSD tk)]) \<le> run_spent (fw_scopes f') k" if "k \<noteq> []" for k
    using gc_covers [OF sok inv'(3) that, of "now 1"] inv'(4,5) [of k] that a(4) [of k]
    by (auto simp: outstanding_snoc charge_of_def a(1) zero_ticket_def scopes)
  ultimately show ?thesis using inv'(3) by (simp add: fw_inv_def)
qed

lemma inv_refuse:
  assumes inv: "fw_inv (f, ts)" and enter: "fw_EnterChain scs h u t hold now f w = (Inl e, f', w')"
  shows "fw_inv (f', ts)"
proof (cases "fw_enabled f \<and> \<not> malformed scs")
  case False
  then have "f' = f" using enter by (auto simp: EnterChain_cases split: if_splits)
  then show ?thesis using inv by simp
next
  case True
  let ?r = "fst (chain_run scs)" and ?c = "snd (chain_run scs)"
  have inv': "fw_ok f" "fw_scopeStore f = None" "\<forall>p\<in>set ts. ticket_ok p"
    "\<And>k. inflight (fw_scopes f) k = outstanding_slots k ts"
    "\<And>k. k \<noteq> [] \<Longrightarrow> outstanding_usd k ts \<le> run_spent (fw_scopes f) k"
    using inv by (simp_all add: fw_inv_def)
  have e: "enterChain scs ?r h ?c u t hold now f w = (Inl e, f', w')"
    using enter True by (simp add: EnterChain_cases)
  note r = enterChain_local_refused [OF inv'(1,2) e]
  have "outstanding_usd k ts \<le> run_spent (fw_scopes f') k" if k: "k \<noteq> []" for k
  proof (cases "run_spent (fw_scopes f') k = run_spent (fw_scopes f) k")
    case False
    then have "inflight (fw_scopes f) k = 0"
      using r(3) [of k] by (auto simp: scope_idle_def case_prod_unfold Let_def observers_Some)
    then have "outstanding_usd k ts = 0" using no_slots_no_charge [OF inv'(3) k] inv'(4) by simp
    then show ?thesis using r(1) run_spent_nonneg [of "fw_scopes f'" k] by (simp add: fw_ok_def)
  qed (use inv'(5) k in simp)
  moreover have "fw_scopeStore f' = None"
    using enterChain_keeps_store [OF inv'(2), of scs ?r h ?c u t hold now w] by (simp add: e)
  ultimately show ?thesis using inv' r(1,2) by (simp add: fw_inv_def same_load_def)
qed

lemma fw_ok_scopes: "fw_ok f \<Longrightarrow> f' = f\<lparr>fw_scopes := fw_scopes f'\<rparr> \<Longrightarrow> scopes_ok (fw_scopes f') \<Longrightarrow> fw_ok f'"
  by (cases f; cases f') (simp add: fw_ok_def)

lemma held_tracked:
  assumes "fw_inv (f, ts)" "i < length ts" "ts ! i = (tk, c)" "\<not> tk_released tk"
    and "tk_runScopeKey tk \<noteq> []"
  shows "mget (fw_scopes f) (tk_runScopeKey tk) \<noteq> None"
    and "c \<le> run_spent (fw_scopes f) (tk_runScopeKey tk)"
proof -
  let ?k = "tk_runScopeKey tk"
  have p: "(tk, c) \<in> set ts" using assms(2,3) by (metis nth_mem)
  have ok: "\<forall>p\<in>set ts. ticket_ok p" using assms(1) by (simp add: fw_inv_def)
  then have "?k \<in> set (tk_scopeKeys tk)" using p assms(5) by (auto simp: ticket_ok_def)
  then have "0 < slots_of ?k (tk, c)" using assms(4) by (simp add: slots_of_def count_list_pos)
  then have "0 < inflight (fw_scopes f) ?k"
    using slots_le [OF p, of ?k] assms(1) by (simp add: fw_inv_def)
  then show "mget (fw_scopes f) ?k \<noteq> None" using observers_None(2) [of "fw_scopes f" ?k] by fastforce
  show "c \<le> run_spent (fw_scopes f) ?k"
    using charge_le [OF ok p, of ?k] assms(1,4,5) by (force simp: fw_inv_def charge_of_def)
qed

lemma inv_settle:
  assumes inv: "fw_inv (f, ts)" and i: "i < length ts" and a: "0 \<le> a"
    and settle: "tk_Settle a b n (fst (ts ! i)) f w = (tk', f', w')"
  shows "fw_inv (f', ts[i := (tk', if tk_settled tk' \<and> \<not> tk_settled (fst (ts ! i)) then a else snd (ts ! i))])"
proof -
  obtain tk c where p: "ts ! i = (tk, c)" by (cases "ts ! i")
  have okp: "ticket_ok (tk, c)" using issued_ok [OF inv i p] by simp
  note l = tk_Settle_local [OF _ settle [unfolded p fst_conv]]
  have st: "tk_store tk = None" using okp by (simp add: ticket_ok_def)
  note l = l [OF st]
  let ?q = "(tk', if tk_settled tk' \<and> \<not> tk_settled (fst (ts ! i)) then a else snd (ts ! i))"
  have ok': "fw_ok f'" using inv by (intro fw_ok_scopes [OF _ l(2) l(4)]) (simp_all add: fw_inv_def fw_ok_def)
  have store: "fw_scopeStore f' = None" using arg_cong [OF l(2), of fw_scopeStore] inv by (simp add: fw_inv_def)
  have slots: "slots_of k ?q = slots_of k (ts ! i)" for k by (simp add: slots_of_def l(3) p)
  have okq: "ticket_ok ?q" using okp a by (auto simp: ticket_ok_def l(3) p)
  have "outstanding_usd k (ts[i := ?q]) \<le> run_spent (fw_scopes f') k" if k: "k \<noteq> []" for k
  proof -
    have base: "outstanding_usd k ts \<le> run_spent (fw_scopes f) k" using inv k by (simp add: fw_inv_def)
    have "c = tk_estUSD tk" if "\<not> tk_settled tk" using okp that by (simp add: ticket_ok_def)
    moreover have "tk_fw tk" if "tk_runScopeKey tk = k" using okp that k by (auto simp: ticket_ok_def)
    moreover have "mget (fw_scopes f) k \<noteq> None" "c \<le> run_spent (fw_scopes f) k"
      if "tk_runScopeKey tk = k" "\<not> tk_released tk"
      using held_tracked [OF inv i p] that k by auto
    ultimately show ?thesis using base a
      by (auto simp: outstanding_update [OF i] p charge_of_def l(3) l(6) k)
  qed
  moreover have "\<forall>p\<in>set (ts[i := ?q]). ticket_ok p"
    using inv okq set_update_subset_insert [of ts i ?q] by (auto simp: fw_inv_def)
  moreover have "inflight (fw_scopes f') k = outstanding_slots k (ts[i := ?q])" for k
    using inv by (simp add: outstanding_update [OF i] slots l(5) fw_inv_def)
  ultimately show ?thesis using ok' store by (simp add: fw_inv_def)
qed

lemma inv_release:
  assumes inv: "fw_inv (f, ts)" and i: "i < length ts"
    and rel: "tk_Release n (fst (ts ! i)) f w = (tk', f', w')"
  shows "fw_inv (f', ts[i := (tk', snd (ts ! i))])"
proof -
  obtain tk c where p: "ts ! i = (tk, c)" by (cases "ts ! i")
  have okp: "ticket_ok (tk, c)" using issued_ok [OF inv i p] by simp
  note l = tk_Release_local [OF _ rel [unfolded p fst_conv]]
  have st: "tk_store tk = None" using okp by (simp add: ticket_ok_def)
  note l = l [OF st]
  have sok: "scopes_ok (fw_scopes f)" using inv by (simp add: fw_inv_def fw_ok_def)
  let ?q = "(tk', snd (ts ! i))"
  have ok': "fw_ok f'" using inv by (intro fw_ok_scopes [OF _ l(2) l(4)]) (simp_all add: fw_inv_def fw_ok_def)
  have store: "fw_scopeStore f' = None" using arg_cong [OF l(2), of fw_scopeStore] inv by (simp add: fw_inv_def)
  have okq: "ticket_ok ?q" using okp by (auto simp: ticket_ok_def l(3) p)
  have "inflight (fw_scopes f') k = outstanding_slots k (ts[i := ?q])" for k
  proof -
    have "slots_of k (tk, c) \<le> inflight (fw_scopes f) k"
      using slots_le [of "(tk, c)" ts k] issued_ok [OF inv i p] inv by (simp add: fw_inv_def)
    moreover have "inflight (fw_scopes f) k = outstanding_slots k ts" using inv by (simp add: fw_inv_def)
    moreover have "tk_fw tk \<or> count_list (tk_scopeKeys tk) k = 0" using okp by (auto simp: ticket_ok_def)
    ultimately show ?thesis
      by (auto simp: outstanding_update [OF i] slots_of_def l(3) l(5) [OF sok] p split: if_splits)
  qed
  moreover have "outstanding_usd k (ts[i := ?q]) \<le> run_spent (fw_scopes f') k" if k: "k \<noteq> []" for k
  proof -
    have base: "outstanding_usd k ts \<le> run_spent (fw_scopes f) k" using inv k by (simp add: fw_inv_def)
    have "c = tk_estUSD tk" if "\<not> tk_settled tk" using okp that by (simp add: ticket_ok_def)
    moreover have "tk_fw tk" if "tk_runScopeKey tk = k" using okp that k by (auto simp: ticket_ok_def)
    moreover have "0 \<le> c" using okp by (simp add: ticket_ok_def)
    ultimately show ?thesis using base
      by (auto simp: outstanding_update [OF i] p charge_of_def l(3) l(6) k)
  qed
  moreover have "\<forall>p\<in>set (ts[i := ?q]). ticket_ok p"
    using inv okq set_update_subset_insert [of ts i ?q] by (auto simp: fw_inv_def)
  ultimately show ?thesis using ok' store by (simp add: fw_inv_def)
qed

lemma inv_kill:
  assumes "fw_inv (f, ts)" "KillRun n r f w = (res, f', w')"
  shows "fw_inv (f', ts)"
proof -
  have "f' = f \<or> f' = fst (snd (doKill n r f w))"
    using assms(2) by (auto simp: KillRun_def split: if_splits)
  then show ?thesis using assms(1) by (auto simp: fw_inv_def frame_simps kills_ok)
qed

lemma fw_inv_step: "fw_step s s' \<Longrightarrow> fw_inv s \<Longrightarrow> fw_inv s'"
  by (induction rule: fw_step.induct)
    (blast intro: inv_admit inv_refuse inv_settle inv_release inv_kill)+

lemma fw_inv_reach: "fw_reach s \<Longrightarrow> fw_inv s"
proof (induction rule: fw_reach.induct)
  case (reach_new en l0)
  then show ?case
    by (simp add: fw_inv_def fw_New_ok outstanding_slots_def outstanding_usd_def)
      (simp add: fw_New_def observers_None)
qed (rule fw_inv_step)

section \<open>Properties of executions\<close>

text \<open>
  C3. No in-flight slot leaks. In every reachable state the in-flight counter of every scope is exactly the
  number of unreleased tickets that hold it, whatever the interleaving of admissions, refusals, settlements,
  repeated releases, kills and sweeps; so once every ticket is released all counters are zero.
\<close>
theorem inflight_is_outstanding:
  assumes "fw_reach (f, ts)"
  shows "inflight (fw_scopes f) k = outstanding_slots k ts \<and>
    ((\<forall>p\<in>set ts. tk_released (fst p)) \<longrightarrow> inflight (fw_scopes f) k = 0)"
proof -
  have eq: "inflight (fw_scopes f) k = outstanding_slots k ts"
    using fw_inv_reach [OF assms] by (simp add: fw_inv_def)
  moreover have "outstanding_slots k ts = 0" if "\<forall>p\<in>set ts. tk_released (fst p)"
    using that by (simp add: outstanding_slots_def slots_of_def cong: map_cong)
  ultimately show ?thesis by auto
qed

lemma ex_reach:
  obtains tk f' where "fw_EnterChain ex_chain ''p'' 4 100 [] ex_now ex_fw () = (Inr tk, f', ())"
    "fw_reach (f', [(tk, tk_estUSD tk)])" "tk_scopeKeys tk = [''org:a'', ''run:r'']" "\<not> tk_released tk"
proof -
  obtain tk f' where e: "fw_EnterChain ex_chain ''p'' 4 100 [] ex_now ex_fw () = (Inr tk, f', ())"
    by (rule ex_admits)
  have "fw_reach (ex_fw, [])" unfolding ex_fw_def by (rule reach_new)
  then have r: "fw_reach (f', [(tk, tk_estUSD tk)])"
    using step_admit [OF e, of "[]"] by (auto intro: reach_step)
  have "enterChain ex_chain ''run:r'' ''p'' 20 4 100 [] ex_now ex_fw () = (Inr tk, f', ())"
    using e by (simp add: EnterChain_cases)
  then obtain f1 where adm: "enterLocked ex_chain ''run:r'' ''p'' 20 (max 0 4) (max 0 100) (ex_now 1) f1 = (Admitted tk, f')"
    and f1: "f1 = fst (snd (isKilled (ex_now 0) ''run:r'' ex_fw ()))" by (rule enterChain_admitted [OF ex_fw_simps(3)])
  have "tk = zero_ticket\<lparr>tk_fw := True, tk_scopeKeys := map sc_Key ex_chain,
      tk_runScopeKey := (if holds_budget ''run:r'' 20 then ''run:r'' else []), tk_estUSD := max 0 4, tk_estTokens := max 0 100\<rparr>"
    by (rule enterLocked_admitted(1) [OF _ _ _ adm]) (simp_all add: f1 isKilled_frame)
  then show thesis using that [OF e r] by (simp add: zero_ticket_def)
qed

theorem inflight_is_outstanding_witness:
  "\<exists>tk f'. fw_EnterChain ex_chain ''p'' 4 100 [] ex_now ex_fw () = (Inr tk, f', ()) \<and>
     inflight (fw_scopes f') ''org:a'' = 1"
proof -
  obtain tk f' where e: "fw_EnterChain ex_chain ''p'' 4 100 [] ex_now ex_fw () = (Inr tk, f', ())"
    "fw_reach (f', [(tk, tk_estUSD tk)])" "tk_scopeKeys tk = [''org:a'', ''run:r'']" "\<not> tk_released tk"
    by (rule ex_reach)
  then show ?thesis using inflight_is_outstanding [OF e(2), of "''org:a''"]
    by (simp add: outstanding_slots_def slots_of_def)
qed



text \<open>
  Settling and releasing happen once. A second \<open>Settle\<close>, a second \<open>Release\<close>, and a \<open>Settle\<close> after the
  \<open>Release\<close> are no-ops on the ticket, the firewall and the shared store, in local and in shared mode.
\<close>
theorem settle_release_once:
  assumes "tk_fw tk" "tk_Settle a b n tk f w = (tk1, f1, w1)" "tk_Release n' tk2 f2 w2 = (tk3, f3, w3)" "tk_fw tk2"
  shows "tk_Settle a' b' m tk1 f' w' = (tk1, f', w') \<and> tk_Release m tk3 f' w' = (tk3, f', w') \<and>
    tk_Settle a' b' m tk3 f' w' = (tk3, f', w')"
proof -
  have "tk_settled tk1 \<or> tk_released tk1"
    using assms(1,2) by (auto simp: tk_Settle_def Let_def split: if_splits option.splits prod.splits)
  moreover have "tk_released tk3"
    using assms(3,4) by (auto simp: tk_Release_def Let_def split: if_splits option.splits prod.splits)
  ultimately show ?thesis by (auto simp: tk_Settle_def tk_Release_def)
qed

theorem settle_release_once_witness:
  "let tk = (zero_ticket :: unit ticket)\<lparr>tk_fw := True\<rparr>; (tk1, f1, w1) = tk_Settle 3 10 5 tk ex_fw ()
   in tk_Settle 4 20 9 tk1 f1 w1 = (tk1, f1, w1)"
  using settle_release_once [OF _ triple_eq [of "tk_Settle 3 10 5 ((zero_ticket :: unit ticket)\<lparr>tk_fw := True\<rparr>) ex_fw ()"]
      triple_eq [of "tk_Release 5 ((zero_ticket :: unit ticket)\<lparr>tk_fw := True\<rparr>) ex_fw ()"]]
  by (simp add: case_prod_unfold Let_def)

end
