(* ===== verification/FirewallTickets.thy ===== *)
theory FirewallTickets
  imports FirewallRuns
begin

text \<open>
  Tickets and decision-API reservations of \<open>internal/firewall/firewall.go\<close>: what a settled request costs
  its scopes, the round trip of a ticket through its \<open>Reservation\<close> (the detached form the guard API signs),
  and two behaviours of the rolling windows worth knowing: a scope without state is not velocity-checked,
  and a settlement is booked at the second it happens.
\<close>

section \<open>Reservations\<close>

lemma enterShared_ticket:
  assumes "fst (enterShared ss scs r h c u t hold now f w) = Inr tk"
    and "fw_scopeStore f = Some ss"
  shows "ticketFrom (tk_Reservation tk) (fst (snd (enterShared ss scs r h c u t hold now f w))) = tk"
proof -
  obtain b bk f1 where lb: "checkLoopBudgetLocked r h u c (now 1) (fw_gcLocked (now 1) f) = ((b, bk), f1)"
    by (metis surj_pair)
  obtain keys ns mu mt mc where caps: "sharedCaps scs = (keys, ns, mu, mt, mc)" by (metis surj_pair)
  obtain adm dn dk err w1 where rsv: "ss_Reserve ss keys ns mu mt mc u t hold w = ((adm, dn, dk, err), w1)"
    by (metis surj_pair)
  obtain res m where cr: "checkReserveScopesLocked scs u t (now 2) (fw_scopes f1) = (res, m)" by (metis surj_pair)
  have "fw_scopeStore f1 = Some ss"
    using checkLoopBudget_frame(4) [of r h u c "now 1" "fw_gcLocked (now 1) f", unfolded lb] assms(2)
    by (simp add: gc_frame)
  then show ?thesis using assms(1)
    unfolding enterShared_cases lb caps Let_def fst_conv snd_conv case_prod_conv rsv reserveScopesLocal_cases
    by (cases b; cases "keys = []"; cases err; cases adm; cases res)
      (auto simp: cr ticketFrom_def tk_Reservation_def zero_ticket_def)
qed

lemma enterChain_ticket:
  assumes "enterChain scs r h c u t hold now f w = (Inr tk, f', w')"
  shows "ticketFrom (tk_Reservation tk) f' = tk"
proof (cases "fw_scopeStore f")
  case None
  obtain f1 where "enterLocked scs r h c (max 0 u) (max 0 t) (now 1) f1 = (Admitted tk, f')"
    using assms by (rule enterChain_admitted [OF None]) auto
  then show ?thesis
    by (auto simp: enterLocked_cases Let_def ticketFrom_def tk_Reservation_def zero_ticket_def
        split: if_splits prod.splits sum.splits)
next
  case (Some ss)
  let ?f = "fst (snd (isKilled (now 0) r f w))" and ?w = "snd (snd (isKilled (now 0) r f w))"
  have store: "fw_scopeStore ?f = Some ss" using Some by (simp add: frame_simps)
  then have "enterShared ss scs r h c (max 0 u) (max 0 t) hold now ?f ?w = (Inr tk, f', w')"
    using assms by (auto simp: enterChain_def clamp_usd clamp_tok case_prod_unfold Let_def simp del: max_def split: if_splits)
  then show ?thesis using enterShared_ticket [of ss scs r h c "max 0 u" "max 0 t" hold now ?f ?w tk] store
    by simp
qed

text \<open>
  C13. The round trip of a reservation. A ticket admitted by \<open>EnterChain\<close>, in local or shared mode, is
  rebuilt exactly from its detached \<open>Reservation\<close>, so settling the reservation later does to the firewall
  and the store what settling and releasing the ticket would have done.
\<close>
theorem reservation_roundtrip:
  assumes "fw_enabled f" "fw_EnterChain scs h u t hold now f w = (Inr tk, f', w')"
  shows "ticketFrom (tk_Reservation tk) f' = tk \<and>
    SettleReservation (tk_Reservation tk) a b n f' w'' =
      (let (tk1, f1, w1) = tk_Settle a b (n 0) tk f' w'' in snd (tk_Release (n 1) tk1 f1 w1)) \<and>
    ReleaseReservation (tk_Reservation tk) (n 0) f' w'' = snd (tk_Release (n 0) tk f' w'')"
proof -
  have "enterChain scs (fst (chain_run scs)) h (snd (chain_run scs)) u t hold now f w = (Inr tk, f', w')"
    using assms by (auto simp: EnterChain_cases split: if_splits)
  then have "ticketFrom (tk_Reservation tk) f' = tk" by (rule enterChain_ticket)
  then show ?thesis
    by (simp add: SettleReservation_def ReleaseReservation_def case_prod_unfold Let_def)
qed

theorem reservation_roundtrip_witness:
  "\<exists>tk f'. fw_EnterChain ex_chain ''p'' 4 100 [] ex_now ex_fw () = (Inr tk, f', ()) \<and>
     ticketFrom (tk_Reservation tk) f' = tk"
proof -
  obtain tk f' where e: "fw_EnterChain ex_chain ''p'' 4 100 [] ex_now ex_fw () = (Inr tk, f', ())"
    by (rule ex_admits)
  then show ?thesis using reservation_roundtrip [OF _ e] by auto
qed

section \<open>The net effect of a request\<close>

lemma adjustScope_other: "k' \<noteq> k \<Longrightarrow> mget (adjustScope n d t k m) k' = mget m k'"
  by (simp add: adjustScope_def split: option.split)

lemma fold_adjust_other: "k \<notin> set ks \<Longrightarrow> mget (fold (adjustScope n d t) ks m) k = mget m k"
  by (induction ks arbitrary: m) (simp_all add: adjustScope_other)

lemma fold_adjust_get:
  assumes "distinct ks" "k \<in> set ks"
  shows "mget (fold (adjustScope n d t) ks m) k = mget (adjustScope n d t k m) k"
proof -
  obtain as bs where ks: "ks = as @ k # bs" using assms(2) by (auto simp: in_set_conv_decomp)
  then have "k \<notin> set as" "k \<notin> set bs" using assms(1) by auto
  then show ?thesis
    by (simp add: ks fold_adjust_other adjustScope_def split: option.split)
qed

text \<open>The dollars a scope has booked in the current second.\<close>

definition current_usd :: "scope_map \<Rightarrow> gostring \<Rightarrow> int \<Rightarrow> usd" where
  "current_usd m k s = (case mget m k of None \<Rightarrow> 0 | Some st \<Rightarrow> usd_view (st_window st) (slot_at (st_window st) s))"

lemma adjust_reading:
  assumes "scopes_ok m" "mget m k \<noteq> None" "0 \<le> current_usd m k (unix n) + d"
  shows "fst (reading (adjustScope n d t k m) k (unix n)) = fst (reading m k (unix n)) + d"
proof -
  obtain st where st: "mget m k = Some st" using assms(2) by auto
  have w: "window_ok (st_window st)" using scopes_ok_get [OF assms(1) st] by (simp add: scope_ok_def)
  show ?thesis
    using assms(3) total_adjust [OF w, of "unix n" d t]
      window_sum_total(1) [OF w, of "unix n"] window_sum_total(1) [OF window_add_ok [OF w, of "unix n" d t], of "unix n"]
    by (simp add: adjustScope_def st observers_put observers_Some current_usd_def)
qed

lemma reserve_current:
  assumes "scopes_ok m" "0 \<le> u"
  shows "u \<le> current_usd (reserveScope u t n k m) k (unix n)"
proof -
  define st where "st = fst (ensureScopeLocked k n m)"
  have "scope_ok st" using ensured_ok [OF assms(1), where k = k and now = n] by (simp add: st_def ensureScopeLocked_simps Let_def)
  then have w: "window_ok (st_window st)" by (simp add: scope_ok_def)
  have "mget (reserveScope u t n k m) k = Some (st\<lparr>st_window := window_add (st_window st) (unix n) u t,
      st_inflight := st_inflight st + 1\<rparr>)"
    by (simp add: reserveScope_def st_def ensureScopeLocked_simps Let_def)
  then show ?thesis using view_nonneg(1) [OF w] assms(2)
    by (simp add: current_usd_def slot_at_def frame_simps view_add [OF w])
qed

lemma fold_reserve_current:
  assumes "scopes_ok m" "0 \<le> u" "distinct ks" "k \<in> set ks"
  shows "u \<le> current_usd (fold (reserveScope u t n) ks m) k (unix n)"
    and "mget (fold (reserveScope u t n) ks m) k \<noteq> None"
proof -
  obtain as bs where ks: "ks = as @ k # bs" using assms(4) by (auto simp: in_set_conv_decomp)
  then have k: "k \<notin> set bs" using assms(3) by auto
  let ?m = "fold (reserveScope u t n) as m"
  have eq: "mget (fold (reserveScope u t n) ks m) k = mget (reserveScope u t n k ?m) k"
    by (simp add: ks fold_reserve_other [OF k])
  show "u \<le> current_usd (fold (reserveScope u t n) ks m) k (unix n)"
    using reserve_current [OF fold_reserve_ok [OF assms(1), of u t n as] assms(2), of t n k]
    by (simp add: current_usd_def eq)
  show "mget (fold (reserveScope u t n) ks m) k \<noteq> None"
    using reserveScope_get [of u t n k ?m] eq by auto
qed

lemma enterLocked_current:
  assumes ok: "scopes_ok (fw_scopes f)" and "0 \<le> u"
    and adm: "enterLocked scs r h c u t n f = (Admitted tk, f')" and "distinct (map sc_Key scs)" "k \<in> set (map sc_Key scs)"
  shows "u \<le> current_usd (fw_scopes f') k (unix n)" and "mget (fw_scopes f') k \<noteq> None"
proof -
  let ?g = "fw_gcLocked n f"
  define f2 where "f2 = snd (checkLoopBudgetLocked r h u c n ?g)"
  define held where "held = (\<not> fst (fst (checkLoopBudgetLocked r h u c n ?g)) \<and> holds_budget r c)"
  note lb = checkLoopBudget_load [OF gc_scopes_ok [OF ok, of n] assms(2) f2_def held_def]
  obtain ks m where m: "checkReserveScopesLocked scs u t n (fw_scopes f2) = (Inr ks, m)"
    and f': "f' = f2\<lparr>fw_scopes := m\<rparr>"
    using adm by (auto simp: enterLocked_cases Let_def f2_def split: if_splits prod.splits sum.splits)
  then have "m = fold (reserveScope u t n) (map sc_Key scs) (snd (checkVelocityAll scs u t n (fw_scopes f2)))"
    by (auto simp: checkReserve_cases Let_def split: option.splits)
  then show "u \<le> current_usd (fw_scopes f') k (unix n)" "mget (fw_scopes f') k \<noteq> None"
    using fold_reserve_current [OF checkVelocityAll_ok [OF lb(1)] assms(2,4,5)] by (simp_all add: f')
qed

lemma releaseScope_settled_reading: "reading (releaseScope n True u t k m) x s = reading m x s"
  by (auto simp: releaseScope_def observers_put observers_Some split: option.split)

lemma fold_release_settled_reading: "reading (fold (releaseScope n True u t) ks m) x s = reading m x s"
  by (induction ks arbitrary: m) (simp_all add: releaseScope_settled_reading)

lemma settle_release_effect:
  assumes "tk_store tk = None" "tk_fw tk" "\<not> tk_settled tk" "\<not> tk_released tk"
    and "tk_Settle a b n tk f w = (tk1, f1, w1)" "tk_Release n' tk1 f1 w1 = (tk2, f2, w2)"
  shows "fw_scopes f2 = fold (releaseScope n' True (tk_estUSD tk) (tk_estTokens tk)) (tk_scopeKeys tk)
    (adjustRunUSD (tk_runScopeKey tk) (a - tk_estUSD tk)
      (fold (adjustScope n (a - tk_estUSD tk) (wrap64 (b - tk_estTokens tk))) (tk_scopeKeys tk) (fw_scopes f)))"
  using assms by (auto simp: tk_Settle_def tk_Release_def Let_def)

text \<open>What settling by \<open>d\<close> dollars and releasing does to a scope held once, with enough of it left in the window.\<close>

lemma settled_scope:
  fixes t tok :: int and n' :: instant and u :: usd and rk :: gostring
  assumes "scopes_ok m0" "distinct ks" "k \<in> set ks" "mget m0 k \<noteq> None" "0 \<le> current_usd m0 k (unix n) + d"
  defines "m \<equiv> fold (adjustScope n d t) ks m0"
  defines "m2 \<equiv> fold (releaseScope n' True u tok) ks (adjustRunUSD rk d m)"
  shows "fst (reading m2 k (unix n)) = fst (reading m0 k (unix n)) + d" and "inflight m2 k = max 0 (inflight m0 k - 1)"
proof -
  have mok: "scopes_ok m" using assms(1) by (simp add: m_def fold_adjust_ok)
  have "reading m k s = reading (adjustScope n d t k m0) k s" for s
    unfolding m_def by (rule observers_cong) (rule fold_adjust_get [OF assms(2,3)])
  then have "fst (reading m k (unix n)) = fst (reading m0 k (unix n)) + d"
    using adjust_reading [OF assms(1,4,5)] by simp
  moreover have "reading m2 k (unix n) = reading m k (unix n)"
    using adjustRunUSD_load(1) [of "unix n" m rk d] by (simp add: m2_def fold_release_settled_reading same_load_def)
  ultimately show "fst (reading m2 k (unix n)) = fst (reading m0 k (unix n)) + d" by simp
  have "count_list ks k = 1" using assms(2,3) by (rule count_list_distinct)
  moreover have "inflight (adjustRunUSD rk d m) k = inflight m0 k"
    using adjustRunUSD_load(1) [of 0 m rk d] by (simp add: same_load_def m_def fold_adjust_frame)
  ultimately show "inflight m2 k = max 0 (inflight m0 k - 1)"
    using fold_release_inflight [OF adjustRunUSD_ok [OF mok]] by (simp add: m2_def)
qed

text \<open>
  C5. A served request costs its actual spend and frees its slots. When a request is admitted and then settled
  within the same second, the rolling minute of every scope of its chain has grown by exactly the actual cost,
  whatever the estimate was, and after its release the in-flight counts are those before the request.
\<close>
theorem settle_charges_actual:
  assumes "fw_ok f" "fw_enabled f" "fw_scopeStore f = None" "distinct (map sc_Key scs)" "0 \<le> a"
    and "fw_EnterChain scs h u t hold now f w = (Inr tk, f', w')" and "sk \<in> set scs"
    and "unix n = unix (now 1)"
    and "tk_Settle a b n tk f' w' = (tk1, f1, w1)" and "tk_Release n' tk1 f1 w1 = (tk2, f2, w2)"
  shows "fst (reading (fw_scopes f2) (sc_Key sk) (unix n)) = fst (reading (fw_scopes f) (sc_Key sk) (unix n)) + a \<and>
    inflight (fw_scopes f2) (sc_Key sk) = inflight (fw_scopes f) (sc_Key sk)"
proof -
  let ?r = "fst (chain_run scs)" and ?c = "snd (chain_run scs)" and ?k = "sc_Key sk" and ?ks = "map sc_Key scs"
  have "enterChain scs ?r h ?c u t hold now f w = (Inr tk, f', w')"
    using assms(2,6) by (auto simp: EnterChain_cases split: if_splits)
  then obtain f0 where adm: "enterLocked scs ?r h ?c (max 0 u) (max 0 t) (now 1) f0 = (Admitted tk, f')"
    and f0: "f0 = fst (snd (isKilled (now 0) ?r f w))" by (rule enterChain_admitted [OF assms(3)])
  have scopes: "fw_scopes f0 = fw_scopes f" and ok: "scopes_ok (fw_scopes f0)"
    using assms(1) by (simp_all add: f0 frame_simps kills_ok fw_ok_def)
  note e = enterLocked_admitted [OF ok _ _ adm, simplified]
  have k: "?k \<in> set ?ks" using assms(7) by simp
  have "0 \<le> max 0 u" by simp
  note cur = enterLocked_current [OF ok this adm assms(4) k]
  have tk: "tk_store tk = None" "tk_fw tk" "\<not> tk_settled tk" "\<not> tk_released tk" "tk_scopeKeys tk = ?ks"
    "tk_estUSD tk = max 0 u"
    by (simp_all add: e(1) zero_ticket_def)
  define d where "d = a - max 0 u"
  have f2: "fw_scopes f2 = fold (releaseScope n' True (max 0 u) (tk_estTokens tk)) ?ks (adjustRunUSD (tk_runScopeKey tk) d
      (fold (adjustScope n d (wrap64 (b - tk_estTokens tk))) ?ks (fw_scopes f')))"
    using settle_release_effect [OF tk(1-4) assms(9,10)] by (simp add: tk d_def)
  have "0 \<le> current_usd (fw_scopes f') ?k (unix n) + d"
    using cur(1) assms(5) unfolding assms(8) d_def by linarith
  note settled = settled_scope [OF e(2) assms(4) k cur(2) this]
  have "fst (reading (fw_scopes f') ?k (unix n)) = fst (reading (fw_scopes f) ?k (unix n)) + max 0 u"
    using e(9) [OF assms(4), of ?k] assms(7,8) by (simp add: scopes)
  moreover have "count_list ?ks ?k = 1" using assms(4) k by (rule count_list_distinct)
  ultimately show ?thesis
    using settled inflight_nonneg [OF ok, of ?k] e(3) [of ?k] by (simp add: f2 scopes d_def)
qed

theorem settle_charges_actual_witness:
  "\<exists>tk f'. fw_EnterChain ex_chain ''p'' 4 100 [] ex_now ex_fw () = (Inr tk, f', ()) \<and>
     (let (tk1, f1, w1) = tk_Settle 1 40 (ex_now 0) tk f' (); (tk2, f2, w2) = tk_Release (ex_now 0) tk1 f1 w1
      in fst (reading (fw_scopes f2) ''org:a'' 1700000000) = 1)"
proof -
  obtain tk f' where e: "fw_EnterChain ex_chain ''p'' 4 100 [] ex_now ex_fw () = (Inr tk, f', ())"
    by (rule ex_admits)
  have now: "unix (ex_now i) = 1700000000" for i by (simp add: unix_def ex_now_def second_def)
  let ?s = "tk_Settle 1 40 (ex_now 0) tk f' ()"
  let ?t = "tk_Release (ex_now 0) (fst ?s) (fst (snd ?s)) (snd (snd ?s))"
  have "fst (reading (fw_scopes (fst (snd ?t))) (sc_Key (ex_chain ! 0)) (unix (ex_now 0))) =
      fst (reading (fw_scopes ex_fw) (sc_Key (ex_chain ! 0)) (unix (ex_now 0))) + 1"
    using settle_charges_actual [OF _ _ _ _ _ e _ _ triple_eq [of ?s] triple_eq [of ?t], of "ex_chain ! 0"]
    by (simp add: now ex_chain_def)
  then show ?thesis using e by (simp add: case_prod_unfold Let_def ex_chain_def observers_None now)
qed

section \<open>Where the caps do not bind\<close>

text \<open>
  A scope without state is not velocity-checked. The first request of a scope (or the first after its
  state was evicted) is admitted whatever its estimate, even above the scope's \<open>MaxUSDPerMin\<close>:
  \<open>checkVelocityLocked\<close> returns before it compares the estimate when the key is not tracked.
\<close>
theorem fresh_scope_admits_over_cap:
  fixes w :: 'w
  assumes "sc_Name sc \<noteq> ''run''" "\<not> bad_key sc" "0 < MaxUSDPerMin (sc_Limits sc)" "MaxUSDPerMin (sc_Limits sc) < u"
  shows "\<exists>tk f'. fw_EnterChain [sc] h u t hold now (fw_New True l) w = (Inr tk, f', w) \<and> tk_estUSD tk = u"
proof -
  let ?f = "fw_New True l :: 'w firewall"
  have f: "fw_enabled ?f" "fw_scopeStore ?f = None" "fw_scopes ?f = []" by (simp_all add: fw_New_def)
  have gc: "fw_scopes (fw_gcLocked n ?f) = []" for n by (simp add: fw_gcLocked_def f gomap_defs)
  have "checkReserveScopesLocked [sc] u t' n [] = (Inr [sc_Key sc], fold (reserveScope u t' n) [sc_Key sc] [])" for t' n
    by (simp add: checkReserveScopesLocked_def checkVelocityAll.simps checkVelocityLocked_def)
  then obtain tk f' where e: "enterLocked [sc] [] h 0 u (max 0 t) (now 1) ?f = (Admitted tk, f')" "tk_estUSD tk = u"
    by (simp add: enterLocked_cases checkLoopBudget_no_run gc)
  have k: "isKilled n [] ?f w = (False, ?f, w)" for n by (simp add: isKilled_def)
  have c: "chain_run [sc] = ([], 0)" "max 0 u = u" and "\<not> malformed [sc]"
    using assms by (simp_all add: malformed_def chain_run_def)
  then have "fw_EnterChain [sc] h u t hold now ?f w = (Inr tk, f', w)"
    unfolding EnterChain_cases enterChain_local [OF f(2)] Let_def c fst_conv snd_conv k e(1) using f(1) by simp
  with e(2) show ?thesis by blast
qed

theorem fresh_scope_admits_over_cap_witness:
  "\<exists>tk f'. fw_EnterChain [ex_chain ! 0] ''p'' 1000 0 [] ex_now ex_fw () = (Inr tk, f', ()) \<and> tk_estUSD tk = 1000"
  unfolding ex_fw_def
  by (rule fresh_scope_admits_over_cap)
    (simp_all add: ex_chain_def ex_limits_def bad_key_def maxScopeKeyLen_def)

text \<open>
  A late release erases another request's spend. One request reserves \<open>u\<close> at second \<open>s\<close>; another reserves
  and spends \<open>u\<close> at second \<open>s + 50\<close>; the first is then released unserved. Its refund is taken from the bucket
  of second \<open>s + 50\<close>, so ten seconds later the rolling minute reads zero although \<open>u\<close> was spent within it.
\<close>
theorem late_release_forgets_spend:
  assumes "0 < u"
  shows "fst (fst (window_sum (window_run (newWindow 60) [(s, u, 0), (s + 50, u, 0), (s + 50, - u, 0)]) (s + 60))) = 0"
proof -
  let ?w1 = "window_add (newWindow 60) s u 0"
  let ?w2 = "window_add ?w1 (s + 50) u 0"
  let ?w3 = "window_add ?w2 (s + 50) (- u) 0"
  have ok: "window_ok ?w1" "window_ok ?w2" "window_ok ?w3" "window_ok (newWindow 60)"
    by (simp_all add: window_add_ok newWindow_ok)
  have size: "w_size ?w1 = 60" "w_size ?w2 = 60" "w_size ?w3 = 60" "w_size (newWindow 60) = 60"
    by (simp_all add: frame_simps) (simp_all add: newWindow_def)
  have slot: "slot_at (newWindow 60) s = s" "slot_at ?w1 (s + 50) = s + 50" "slot_at ?w2 (s + 50) = s + 50"
    "slot_at ?w3 (s + 60) = s + 60"
    by (simp_all add: slot_at_def frame_simps newWindow_def)
  have v1: "usd_view ?w1 x = (if x = s then u else 0)" for x
    using assms by (simp add: view_add [OF ok(4)] slot size)
  have v2: "usd_view ?w2 x = (if x = s \<or> x = s + 50 then u else 0)" for x
    using assms by (simp add: view_add [OF ok(1)] slot size v1)
  have v3: "usd_view ?w3 x = (if x = s then u else 0)" for x
    using assms by (auto simp: view_add [OF ok(2)] slot size v2)
  have "usd_total ?w3 (s + 60) = 0"
    unfolding usd_total_def by (rule sum.neutral) (auto simp: window_secs_def slot size v3)
  then show ?thesis using window_sum_total(1) [OF ok(3), of "s + 60"] by simp
qed

theorem late_release_forgets_spend_witness:
  "fst (fst (window_sum (window_run (newWindow 60) [(1000, 5, 0), (1050, 5, 0), (1050, -5, 0)]) 1060)) = 0"
  using late_release_forgets_spend [of 5 1000] by simp

end
