(* ===== verification/Policy.thy ===== *)
theory Policy
  imports Prelude "HOL-Library.List_Lexorder" "HOL-Library.Char_ord" "HOL-Library.Product_Lexorder"
begin

text \<open>
  The spend hierarchy of \<open>internal/policy/policy.go\<close>: organisations, teams and apps with caps at every
  node, API keys bound to a node, and \<open>Resolve\<close>, which maps a key and a run nid to the ordered chain of
  scopes a request must fit under. The store's state is \<open>policy_store\<close>; the ancestry walk, a Go loop
  without a bound, is a \<open>partial_function\<close> whose termination on reachable stores is proved.

  A node type is a Go string; \<open>Org\<close>, \<open>Team\<close>, \<open>App\<close> are its constants. \<open>validID\<close> is read byte by byte: a
  byte outside ASCII belongs to a rune the loop rejects, so the byte reading accepts the same ids.
\<close>

section \<open>Model\<close>

type_synonym nodeType = gostring

definition Org :: nodeType where "Org = ''org''"
definition Team :: nodeType where "Team = ''team''"
definition App :: nodeType where "App = ''app''"

lemmas node_types = Org_def Team_def App_def

definition node_parent :: "nodeType \<Rightarrow> nodeType" where
  "node_parent t = (if t = Team then Org else if t = App then Team else [])"

record plimits =
  p_MaxUSDPerMin :: usd
  p_MaxTokensPerMin :: int
  p_MaxConcurrent :: int
  p_MaxUSDPerDay :: usd
  p_MaxUSDPerMonth :: usd
  p_MaxUSDPerRun :: usd

record node =
  n_Type :: nodeType
  n_ID :: gostring
  n_Name :: gostring
  n_ParentID :: gostring
  n_Limits :: plimits
  n_Killed :: bool

definition refFor :: "nodeType \<Rightarrow> gostring \<Rightarrow> gostring" where "refFor t nid = t @ '':'' @ nid"

definition node_scopeKey :: "node \<Rightarrow> gostring" where "node_scopeKey n = refFor (n_Type n) (n_ID n)"

definition id_char :: "char \<Rightarrow> bool" where
  "id_char r \<longleftrightarrow> (CHR ''a'' \<le> r \<and> r \<le> CHR ''z'') \<or> (CHR ''A'' \<le> r \<and> r \<le> CHR ''Z'')
     \<or> (CHR ''0'' \<le> r \<and> r \<le> CHR ''9'') \<or> r = CHR ''.'' \<or> r = CHR ''_'' \<or> r = CHR ''-''"

definition validID :: "gostring \<Rightarrow> bool" where
  "validID nid \<longleftrightarrow> \<not> (nid = [] \<or> length nid > 128) \<and> list_all id_char nid"

definition plimits_valid :: "plimits \<Rightarrow> bool" where
  "plimits_valid l \<longleftrightarrow> p_MaxUSDPerMin l \<ge> 0 \<and> p_MaxTokensPerMin l \<ge> 0 \<and> p_MaxConcurrent l \<ge> 0
     \<and> p_MaxUSDPerDay l \<ge> 0 \<and> p_MaxUSDPerMonth l \<ge> 0 \<and> p_MaxUSDPerRun l \<ge> 0"

record pscope =
  ps_Name :: gostring
  ps_Key :: gostring
  ps_Limits :: plimits

record chain =
  ch_Scopes :: "pscope list"
  ch_KilledBy :: gostring

datatype policy_error = ErrUnknownKey | ErrExists | ErrNotFound | ErrBadParent | ErrBadID | ErrBadLimits
  | ErrBadRunID | ErrBrokenChain

record policy_store =
  st_nodes :: "(gostring, node) gomap"
  st_keys :: "(gostring, gostring) gomap"

definition policy_New :: policy_store where "policy_New = \<lparr>st_nodes = [], st_keys = []\<rparr>"

text \<open>The mutating operations return the error, if any, and the store.\<close>

type_synonym policy_result = "policy_error option \<times> policy_store"

definition store_put :: "node \<Rightarrow> policy_store \<Rightarrow> policy_result" where
  "store_put n s =
     (if mget (st_nodes s) (node_scopeKey n) \<noteq> None then (Some ErrExists, s)
      else (None, s\<lparr>st_nodes := mput (node_scopeKey n) n (st_nodes s)\<rparr>))"

definition store_putChild :: "node \<Rightarrow> nodeType \<Rightarrow> gostring \<Rightarrow> policy_store \<Rightarrow> policy_result" where
  "store_putChild n parentType parentID s =
     (if mget (st_nodes s) (refFor parentType parentID) = None then (Some ErrBadParent, s)
      else if mget (st_nodes s) (node_scopeKey n) \<noteq> None then (Some ErrExists, s)
      else (None, s\<lparr>st_nodes := mput (node_scopeKey n) n (st_nodes s)\<rparr>))"

definition CreateOrg :: "gostring \<Rightarrow> gostring \<Rightarrow> plimits \<Rightarrow> policy_store \<Rightarrow> policy_result" where
  "CreateOrg nid name l s =
     (if \<not> validID nid then (Some ErrBadID, s)
      else if \<not> plimits_valid l then (Some ErrBadLimits, s)
      else store_put \<lparr>n_Type = Org, n_ID = nid, n_Name = name, n_ParentID = [], n_Limits = l, n_Killed = False\<rparr> s)"

definition CreateTeam :: "gostring \<Rightarrow> gostring \<Rightarrow> gostring \<Rightarrow> plimits \<Rightarrow> policy_store \<Rightarrow> policy_result" where
  "CreateTeam nid name orgID l s =
     (if \<not> validID nid then (Some ErrBadID, s)
      else if \<not> plimits_valid l then (Some ErrBadLimits, s)
      else store_putChild \<lparr>n_Type = Team, n_ID = nid, n_Name = name, n_ParentID = orgID, n_Limits = l,
             n_Killed = False\<rparr> Org orgID s)"

definition CreateApp :: "gostring \<Rightarrow> gostring \<Rightarrow> gostring \<Rightarrow> plimits \<Rightarrow> policy_store \<Rightarrow> policy_result" where
  "CreateApp nid name teamID l s =
     (if \<not> validID nid then (Some ErrBadID, s)
      else if \<not> plimits_valid l then (Some ErrBadLimits, s)
      else store_putChild \<lparr>n_Type = App, n_ID = nid, n_Name = name, n_ParentID = teamID, n_Limits = l,
             n_Killed = False\<rparr> Team teamID s)"

definition SetLimits :: "nodeType \<Rightarrow> gostring \<Rightarrow> plimits \<Rightarrow> policy_store \<Rightarrow> policy_result" where
  "SetLimits t nid l s =
     (if \<not> plimits_valid l then (Some ErrBadLimits, s)
      else case mget (st_nodes s) (refFor t nid) of
        None \<Rightarrow> (Some ErrNotFound, s)
      | Some n \<Rightarrow> (None, s\<lparr>st_nodes := mput (refFor t nid) (n\<lparr>n_Limits := l\<rparr>) (st_nodes s)\<rparr>))"

definition setKilled :: "nodeType \<Rightarrow> gostring \<Rightarrow> bool \<Rightarrow> policy_store \<Rightarrow> policy_result" where
  "setKilled t nid v s =
     (case mget (st_nodes s) (refFor t nid) of
        None \<Rightarrow> (Some ErrNotFound, s)
      | Some n \<Rightarrow> (None, s\<lparr>st_nodes := mput (refFor t nid) (n\<lparr>n_Killed := v\<rparr>) (st_nodes s)\<rparr>))"

definition node_Kill :: "nodeType \<Rightarrow> gostring \<Rightarrow> policy_store \<Rightarrow> policy_result" where
  "node_Kill t nid s = setKilled t nid True s"

definition node_Unkill :: "nodeType \<Rightarrow> gostring \<Rightarrow> policy_store \<Rightarrow> policy_result" where
  "node_Unkill t nid s = setKilled t nid False s"

definition IssueKey :: "gostring \<Rightarrow> nodeType \<Rightarrow> gostring \<Rightarrow> policy_store \<Rightarrow> policy_result" where
  "IssueKey keySHA256 t nid s =
     (if keySHA256 = [] then (Some ErrBadID, s)
      else if mget (st_nodes s) (refFor t nid) = None then (Some ErrNotFound, s)
      else (None, s\<lparr>st_keys := mput keySHA256 (refFor t nid) (st_keys s)\<rparr>))"

text \<open>\<open>tightest\<close>: the smaller of two caps, 0 meaning unconstrained.\<close>

definition tightest :: "usd \<Rightarrow> usd \<Rightarrow> usd" where
  "tightest a b = (if a = 0 then b else if b = 0 then a else if b < a then b else a)"

text \<open>The walk to the root. \<open>None\<close> is a walk that never ends.\<close>

partial_function (option) walk ::
  "(gostring, node) gomap \<Rightarrow> node \<Rightarrow> node list \<Rightarrow> (policy_error + node list) option" where
  "walk nodes n lineage =
     (if n_ParentID n = [] then Some (Inr (lineage @ [n]))
      else case mget nodes (refFor (node_parent (n_Type n)) (n_ParentID n)) of
        None \<Rightarrow> Some (Inl ErrBrokenChain)
      | Some parent \<Rightarrow> walk nodes parent (lineage @ [n]))"

text \<open>The loop that emits scopes from the root down, with the first killed node and the tightest run cap.\<close>

fun emit_scopes :: "node list \<Rightarrow> chain \<times> usd \<Rightarrow> chain \<times> usd" where
  "emit_scopes [] acc = acc"
| "emit_scopes (n # ns) (ch, runCap) =
     emit_scopes ns
       (ch\<lparr>ch_KilledBy := (if n_Killed n \<and> ch_KilledBy ch = [] then node_scopeKey n else ch_KilledBy ch),
           ch_Scopes := ch_Scopes ch @ [\<lparr>ps_Name = n_Type n, ps_Key = node_scopeKey n, ps_Limits = n_Limits n\<rparr>]\<rparr>,
        tightest runCap (p_MaxUSDPerRun (n_Limits n)))"

definition run_only_limits :: "usd \<Rightarrow> plimits" where
  "run_only_limits c = \<lparr>p_MaxUSDPerMin = 0, p_MaxTokensPerMin = 0, p_MaxConcurrent = 0, p_MaxUSDPerDay = 0,
     p_MaxUSDPerMonth = 0, p_MaxUSDPerRun = c\<rparr>"

definition run_scope_key :: "node \<Rightarrow> gostring \<Rightarrow> gostring \<Rightarrow> gostring" where
  "run_scope_key leaf keySHA256 runID =
     ''run:'' @ node_scopeKey leaf @ [NUL] @ keySHA256 @ [NUL] @ runID"

definition policy_Resolve :: "gostring \<Rightarrow> gostring \<Rightarrow> policy_store \<Rightarrow> (policy_error + chain) option" where
  "policy_Resolve keySHA256 runID s =
     (if runID \<noteq> [] \<and> \<not> validID runID then Some (Inl ErrBadRunID)
      else case mget (st_keys s) keySHA256 of
        None \<Rightarrow> Some (Inl ErrUnknownKey)
      | Some ref \<Rightarrow>
          (case mget (st_nodes s) ref of
             None \<Rightarrow> Some (Inl ErrBrokenChain)
           | Some leaf \<Rightarrow>
               (case walk (st_nodes s) leaf [] of
                  None \<Rightarrow> None
                | Some (Inl e) \<Rightarrow> Some (Inl e)
                | Some (Inr lineage) \<Rightarrow>
                    if n_Type (last lineage) \<noteq> Org then Some (Inl ErrBrokenChain)
                    else
                      (let (ch, runCap) = emit_scopes (rev lineage) (\<lparr>ch_Scopes = [], ch_KilledBy = []\<rparr>, 0)
                       in if runID = [] then Some (Inr ch)
                          else Some (Inr (ch\<lparr>ch_Scopes := ch_Scopes ch @
                            [\<lparr>ps_Name = ''run'', ps_Key = run_scope_key leaf keySHA256 runID,
                              ps_Limits = run_only_limits runCap\<rparr>]\<rparr>))))))"

text \<open>\<open>Snapshot\<close>: every node, ordered by type (root first) and nid. Nodes carry the fields of \<open>NodeView\<close>.\<close>

definition type_rank :: "nodeType \<Rightarrow> nat" where
  "type_rank t = (if t = Team then 1 else if t = App then 2 else 0)"

definition policy_Snapshot :: "policy_store \<Rightarrow> node list" where
  "policy_Snapshot s = sort_key (\<lambda>n. (type_rank (n_Type n), n_ID n)) (map snd (st_nodes s))"

text \<open>\<open>OverAllocations\<close>: the references of the over-allocated parents with what their children allocate.\<close>

definition child_sums :: "policy_store \<Rightarrow> (gostring, usd) gomap" where
  "child_sums s = foldl
     (\<lambda>m n. if n_ParentID n \<noteq> [] \<and> p_MaxUSDPerDay (n_Limits n) > 0
            then let r = refFor (node_parent (n_Type n)) (n_ParentID n)
                 in mput r ((case mget m r of None \<Rightarrow> 0 | Some x \<Rightarrow> x) + p_MaxUSDPerDay (n_Limits n)) m
            else m)
     [] (map snd (st_nodes s))"

definition OverAllocations :: "(usd \<Rightarrow> gostring) \<Rightarrow> policy_store \<Rightarrow> gostring list" where
  "OverAllocations ftoa s =
     concat (map (\<lambda>(ref, child).
       case mget (st_nodes s) ref of
         None \<Rightarrow> []
       | Some p \<Rightarrow>
           if p_MaxUSDPerDay (n_Limits p) > 0 \<and> child > p_MaxUSDPerDay (n_Limits p)
           then [ref @ '': children allocate $'' @ ftoa child @ ''/day vs the $''
                 @ ftoa (p_MaxUSDPerDay (n_Limits p)) @ ''/day cap (parent binds)'']
           else [])
       (child_sums s))"

end
