(* ===== verification/PolicyResolve.thy ===== *)
theory PolicyResolve
  imports Policy
begin

text \<open>
  Correctness of \<open>internal/policy/policy.go\<close>: the well-formedness of the store is kept by every management
  operation, and on a well-formed store \<open>Resolve\<close> terminates and returns exactly the ancestry of the key's
  node, root first, with the first killed node and the tightest per-run cap.
\<close>

section \<open>Keys\<close>

lemma type_no_sep: "t \<in> {Org, Team, App} \<Longrightarrow> CHR '':'' \<notin> set t"
  by (auto simp: node_types)

lemma refFor_inject:
  assumes "t \<in> {Org, Team, App}" "t' \<in> {Org, Team, App}" "refFor t i = refFor t' i'"
  shows "t = t' \<and> i = i'"
proof -
  have "t @ CHR '':'' # i = t' @ CHR '':'' # i'" using assms(3) by (simp add: refFor_def)
  then show ?thesis using append_sep_inject [OF type_no_sep [OF assms(1)] type_no_sep [OF assms(2)]] by blast
qed

lemma id_char_no_sep: "id_char c \<Longrightarrow> c \<noteq> CHR '':'' \<and> c \<noteq> NUL"
  by (auto simp: id_char_def less_eq_char_def)

lemma validID_chars: "validID i \<Longrightarrow> c \<in> set i \<Longrightarrow> c \<noteq> CHR '':'' \<and> c \<noteq> NUL"
  using id_char_no_sep by (auto simp: validID_def list_all_iff)

lemma validID_bounds: "validID i \<Longrightarrow> i \<noteq> [] \<and> length i \<le> 128"
  by (simp add: validID_def)

section \<open>The invariant\<close>

definition node_ok :: "(gostring, node) gomap \<Rightarrow> gostring \<Rightarrow> node \<Rightarrow> bool" where
  "node_ok m k n \<longleftrightarrow> k = node_scopeKey n \<and> n_Type n \<in> {Org, Team, App} \<and> validID (n_ID n)
     \<and> plimits_valid (n_Limits n)
     \<and> (if n_Type n = Org then n_ParentID n = []
        else n_ParentID n \<noteq> [] \<and> mget m (refFor (node_parent (n_Type n)) (n_ParentID n)) \<noteq> None)"

definition store_ok :: "policy_store \<Rightarrow> bool" where
  "store_ok s \<longleftrightarrow> mwf (st_nodes s) \<and> mwf (st_keys s)
     \<and> (\<forall>k n. mget (st_nodes s) k = Some n \<longrightarrow> node_ok (st_nodes s) k n)
     \<and> (\<forall>k r. mget (st_keys s) k = Some r \<longrightarrow> k \<noteq> [] \<and> mget (st_nodes s) r \<noteq> None)"

lemma store_ok_node: "store_ok s \<Longrightarrow> mget (st_nodes s) k = Some n \<Longrightarrow> node_ok (st_nodes s) k n"
  by (simp add: store_ok_def)

lemma policy_New_ok: "store_ok policy_New"
  by (simp add: store_ok_def policy_New_def)

lemma node_ok_mono: "node_ok m k n \<Longrightarrow> (\<And>x. mget m x \<noteq> None \<Longrightarrow> mget m' x \<noteq> None) \<Longrightarrow> node_ok m' k n"
  by (auto simp: node_ok_def)

lemma store_ok_put:
  assumes ok: "store_ok s" and n: "node_ok (mput k n (st_nodes s)) k n"
  shows "store_ok (s\<lparr>st_nodes := mput k n (st_nodes s)\<rparr>)"
proof -
  have "node_ok (mput k n (st_nodes s)) k' n'" if "mget (st_nodes s) k' = Some n'" for k' n'
    using store_ok_node [OF ok that] by (rule node_ok_mono) auto
  then show ?thesis using ok n by (auto simp: store_ok_def)
qed

lemma refFor_parent_nonempty:
  assumes "store_ok s" "mget (st_nodes s) (refFor t i) \<noteq> None" "t \<in> {Org, Team, App}"
  shows "i \<noteq> []"
proof -
  obtain n where n: "mget (st_nodes s) (refFor t i) = Some n" using assms(2) by auto
  note ok = store_ok_node [OF assms(1) n]
  then have key: "refFor t i = refFor (n_Type n) (n_ID n)" and ty: "n_Type n \<in> {Org, Team, App}"
    and "validID (n_ID n)"
    unfolding node_ok_def node_scopeKey_def by blast+
  with refFor_inject [OF assms(3) ty key] show ?thesis using validID_bounds by simp
qed

lemma putChild_ok:
  assumes "store_ok s" "validID (n_ID n)" "plimits_valid (n_Limits n)" "n_Type n \<in> {Team, App}"
    and "n_ParentID n = p" "pt = node_parent (n_Type n)"
  shows "store_ok (snd (store_putChild n pt p s))"
proof (cases "mget (st_nodes s) (refFor pt p) = None")
  case False
  have "pt \<in> {Org, Team, App}" using assms(4,6) by (auto simp: node_parent_def node_types)
  then have "p \<noteq> []" using refFor_parent_nonempty [OF assms(1) False] by simp
  then have "node_ok (mput (node_scopeKey n) n (st_nodes s)) (node_scopeKey n) n"
    using assms False by (auto simp: node_ok_def node_types)
  then show ?thesis using assms(1) by (simp add: store_putChild_def False store_ok_put)
qed (use assms(1) in \<open>simp add: store_putChild_def\<close>)

lemma CreateOrg_ok: "store_ok s \<Longrightarrow> store_ok (snd (CreateOrg i nm l s))"
  by (auto simp: CreateOrg_def store_put_def node_ok_def node_scopeKey_def intro!: store_ok_put)

lemma CreateTeam_ok: "store_ok s \<Longrightarrow> store_ok (snd (CreateTeam i nm p l s))"
  by (auto simp: CreateTeam_def node_parent_def node_types intro!: putChild_ok)

lemma CreateApp_ok: "store_ok s \<Longrightarrow> store_ok (snd (CreateApp i nm p l s))"
  by (auto simp: CreateApp_def node_parent_def node_types intro!: putChild_ok)

lemma update_node_ok:
  assumes "store_ok s" "mget (st_nodes s) k = Some n" "plimits_valid l"
  shows "store_ok (s\<lparr>st_nodes := mput k (n\<lparr>n_Limits := l, n_Killed := v\<rparr>) (st_nodes s)\<rparr>)"
  using store_ok_node [OF assms(1,2)] assms(1,3)
  by (intro store_ok_put) (auto simp: node_ok_def node_scopeKey_def split: if_splits)

lemma SetLimits_ok: "store_ok s \<Longrightarrow> store_ok (snd (SetLimits t i l s))"
proof (cases "mget (st_nodes s) (refFor t i)")
  case (Some n)
  assume "store_ok s"
  from update_node_ok [OF this Some, of l "n_Killed n"] \<open>store_ok s\<close> show ?thesis
    by (simp add: SetLimits_def Some)
qed (simp add: SetLimits_def)

lemma setKilled_ok:
  assumes "store_ok s"
  shows "store_ok (snd (setKilled t i v s))"
proof (cases "mget (st_nodes s) (refFor t i)")
  case (Some n)
  have "plimits_valid (n_Limits n)" using store_ok_node [OF assms Some] by (simp add: node_ok_def)
  then show ?thesis using update_node_ok [OF assms Some, of "n_Limits n" v] by (simp add: setKilled_def Some)
qed (use assms in \<open>simp add: setKilled_def\<close>)

lemma IssueKey_ok: "store_ok s \<Longrightarrow> store_ok (snd (IssueKey k t i s))"
  by (auto simp: IssueKey_def store_ok_def)

datatype policy_op = OpCreateOrg gostring gostring plimits | OpCreateTeam gostring gostring gostring plimits
  | OpCreateApp gostring gostring gostring plimits | OpSetLimits nodeType gostring plimits
  | OpKillNode nodeType gostring | OpUnkillNode nodeType gostring | OpIssueKey gostring nodeType gostring

fun policy_apply :: "policy_op \<Rightarrow> policy_store \<Rightarrow> policy_store" where
  "policy_apply (OpCreateOrg i nm l) s = snd (CreateOrg i nm l s)"
| "policy_apply (OpCreateTeam i nm p l) s = snd (CreateTeam i nm p l s)"
| "policy_apply (OpCreateApp i nm p l) s = snd (CreateApp i nm p l s)"
| "policy_apply (OpSetLimits t i l) s = snd (SetLimits t i l s)"
| "policy_apply (OpKillNode t i) s = snd (node_Kill t i s)"
| "policy_apply (OpUnkillNode t i) s = snd (node_Unkill t i s)"
| "policy_apply (OpIssueKey k t i) s = snd (IssueKey k t i s)"

lemma policy_apply_ok: "store_ok s \<Longrightarrow> store_ok (policy_apply op s)"
  by (cases op) (simp_all add: CreateOrg_ok CreateTeam_ok CreateApp_ok SetLimits_ok IssueKey_ok setKilled_ok
      node_Kill_def node_Unkill_def)

lemma policy_run_ok: "store_ok s \<Longrightarrow> store_ok (fold policy_apply ops s)"
  by (induction ops arbitrary: s) (simp_all add: policy_apply_ok)

section \<open>The ancestry of a node\<close>

text \<open>The specification of the walk: a node followed by the ancestry of its parent, up to a root.\<close>

inductive ancestry :: "(gostring, node) gomap \<Rightarrow> node \<Rightarrow> node list \<Rightarrow> bool" where
  ancestry_root: "n_ParentID n = [] \<Longrightarrow> ancestry m n [n]"
| ancestry_step: "n_ParentID n \<noteq> [] \<Longrightarrow> mget m (refFor (node_parent (n_Type n)) (n_ParentID n)) = Some p \<Longrightarrow>
    ancestry m p l \<Longrightarrow> ancestry m n (n # l)"

lemma walk_ancestry: "ancestry m n l \<Longrightarrow> walk m n acc = Some (Inr (acc @ l))"
  by (induction arbitrary: acc rule: ancestry.induct) (subst walk.simps, simp)+

lemma ancestry_last: "ancestry m n l \<Longrightarrow> l \<noteq> [] \<and> hd l = n \<and> n_ParentID (last l) = []"
  by (induction rule: ancestry.induct) auto

text \<open>The shapes a chain can have: organisation, organisation-team, organisation-team-app.\<close>

definition level :: "nodeType \<Rightarrow> nat" where
  "level t = (if t = Org then 1 else if t = Team then 2 else 3)"

lemma parent_node:
  assumes "store_ok s" "mget (st_nodes s) k = Some n" "n_Type n \<noteq> Org"
  obtains p where "mget (st_nodes s) (refFor (node_parent (n_Type n)) (n_ParentID n)) = Some p"
    "n_Type p = node_parent (n_Type n)" "n_ParentID n \<noteq> []" "level (n_Type n) = Suc (level (n_Type p))"
proof -
  note ok = store_ok_node [OF assms(1,2)]
  obtain p where p: "mget (st_nodes s) (refFor (node_parent (n_Type n)) (n_ParentID n)) = Some p"
    and ne: "n_ParentID n \<noteq> []" and ty: "n_Type n \<in> {Team, App}"
    using ok assms(3) by (auto simp: node_ok_def)
  note okp = store_ok_node [OF assms(1) p]
  have par: "node_parent (n_Type n) \<in> {Org, Team, App}" using ty by (auto simp: node_parent_def)
  have key: "refFor (node_parent (n_Type n)) (n_ParentID n) = refFor (n_Type p) (n_ID p)"
    and pty: "n_Type p \<in> {Org, Team, App}"
    using okp unfolding node_ok_def node_scopeKey_def by blast+
  have "n_Type p = node_parent (n_Type n)" using refFor_inject [OF par pty key] by simp
  with p ne ty show thesis by (intro that) (auto simp: level_def node_parent_def node_types)
qed

lemma ancestry_exists:
  assumes "store_ok s" "mget (st_nodes s) k = Some n"
  shows "\<exists>l. ancestry (st_nodes s) n l \<and> length l = level (n_Type n) \<and>
    map n_Type (rev l) = take (level (n_Type n)) [Org, Team, App] \<and>
    (\<forall>x\<in>set l. mget (st_nodes s) (node_scopeKey x) = Some x)"
  using assms(2)
proof (induction "level (n_Type n)" arbitrary: k n rule: less_induct)
  case less
  note ok = store_ok_node [OF assms(1) less.prems]
  then have k: "k = node_scopeKey n" by (simp add: node_ok_def)
  show ?case
  proof (cases "n_Type n = Org")
    case True
    then have "n_ParentID n = []" using ok by (simp add: node_ok_def)
    then have "ancestry (st_nodes s) n [n]" by (rule ancestry_root)
    then show ?thesis using True less.prems k by (intro exI [of _ "[n]"]) (simp add: level_def)
  next
    case False
    obtain p where p: "mget (st_nodes s) (refFor (node_parent (n_Type n)) (n_ParentID n)) = Some p"
      "n_Type p = node_parent (n_Type n)" "n_ParentID n \<noteq> []" "level (n_Type n) = Suc (level (n_Type p))"
      by (rule parent_node [OF assms(1) less.prems False])
    obtain l where l: "ancestry (st_nodes s) p l" "length l = level (n_Type p)"
      "map n_Type (rev l) = take (level (n_Type p)) [Org, Team, App]"
      "\<forall>x\<in>set l. mget (st_nodes s) (node_scopeKey x) = Some x"
      using less.hyps [OF _ p(1)] p(4) by auto
    have "n_Type n \<in> {Team, App}" using ok False by (auto simp: node_ok_def)
    then have "map n_Type (rev (n # l)) = take (level (n_Type n)) [Org, Team, App]"
      using l(3) p(2) by (auto simp: level_def node_parent_def node_types)
    moreover have "ancestry (st_nodes s) n (n # l)" by (rule ancestry_step [OF p(3,1) l(1)])
    ultimately show ?thesis using l(2,4) p(4) less.prems k by (intro exI [of _ "n # l"]) simp
  qed
qed

section \<open>The emitted chain\<close>

definition node_scope :: "node \<Rightarrow> pscope" where
  "node_scope n = \<lparr>ps_Name = n_Type n, ps_Key = node_scopeKey n, ps_Limits = n_Limits n\<rparr>"

definition first_killed :: "node list \<Rightarrow> gostring" where
  "first_killed ns = (case filter n_Killed ns of [] \<Rightarrow> [] | n # _ \<Rightarrow> node_scopeKey n)"

definition run_cap :: "node list \<Rightarrow> usd" where
  "run_cap ns = foldl tightest 0 (map (p_MaxUSDPerRun \<circ> n_Limits) ns)"

lemma scopeKey_nonempty: "node_scopeKey n \<noteq> []" by (simp add: node_scopeKey_def refFor_def)

lemma emit_scopes_acc:
  "emit_scopes ns (ch, c) =
     (ch\<lparr>ch_Scopes := ch_Scopes ch @ map node_scope ns,
         ch_KilledBy := (if ch_KilledBy ch = [] then first_killed ns else ch_KilledBy ch)\<rparr>,
      foldl tightest c (map (p_MaxUSDPerRun \<circ> n_Limits) ns))"
  by (induction ns arbitrary: ch c) (simp_all add: first_killed_def node_scope_def scopeKey_nonempty)

lemma emit_scopes_spec:
  "emit_scopes ns (\<lparr>ch_Scopes = [], ch_KilledBy = []\<rparr>, 0) =
     (\<lparr>ch_Scopes = map node_scope ns, ch_KilledBy = first_killed ns\<rparr>, run_cap ns)"
  by (simp add: emit_scopes_acc run_cap_def)

lemma tightest_fold:
  "0 \<le> c \<Longrightarrow> \<forall>x\<in>set xs. 0 \<le> x \<Longrightarrow>
   (foldl tightest c xs = 0 \<longleftrightarrow> c = 0 \<and> (\<forall>x\<in>set xs. x = 0)) \<and> 0 \<le> foldl tightest c xs \<and>
   (\<forall>x\<in>insert c (set xs). 0 < x \<longrightarrow> foldl tightest c xs \<le> x) \<and>
   (foldl tightest c xs \<in> insert c (set xs) \<or> foldl tightest c xs = 0)"
proof (induction xs arbitrary: c)
  case (Cons x xs)
  have t: "0 \<le> tightest c x" "tightest c x = 0 \<longleftrightarrow> c = 0 \<and> x = 0" "tightest c x \<in> {c, x}"
    "0 < c \<Longrightarrow> 0 < tightest c x \<and> tightest c x \<le> c" "0 < x \<Longrightarrow> 0 < tightest c x \<and> tightest c x \<le> x"
    using Cons.prems by (auto simp: tightest_def)
  have IH: "(foldl tightest (tightest c x) xs = 0 \<longleftrightarrow> tightest c x = 0 \<and> (\<forall>x\<in>set xs. x = 0)) \<and>
      0 \<le> foldl tightest (tightest c x) xs \<and>
      (\<forall>y\<in>insert (tightest c x) (set xs). 0 < y \<longrightarrow> foldl tightest (tightest c x) xs \<le> y) \<and>
      (foldl tightest (tightest c x) xs \<in> insert (tightest c x) (set xs) \<or> foldl tightest (tightest c x) xs = 0)"
    using Cons.prems t(1) by (intro Cons.IH) auto
  have "foldl tightest (tightest c x) xs \<le> y" if "y \<in> {c, x}" "0 < y" for y
    using IH t(4,5) that by fastforce
  then have "\<forall>y\<in>insert c (set (x # xs)). 0 < y \<longrightarrow> foldl tightest (tightest c x) xs \<le> y"
    using IH by (metis insert_iff list.simps(15) empty_iff)
  moreover have "foldl tightest (tightest c x) xs = 0 \<longleftrightarrow> c = 0 \<and> (\<forall>y\<in>set (x # xs). y = 0)"
    using IH t(2) by (metis insert_iff list.simps(15))
  moreover have "foldl tightest (tightest c x) xs \<in> insert c (set (x # xs)) \<or> foldl tightest (tightest c x) xs = 0"
    using IH t(3) by (metis insert_iff list.simps(15) empty_iff)
  ultimately show ?case using IH by (simp only: foldl_Cons)
qed simp

section \<open>Resolution\<close>

text \<open>The chain of a leaf with ancestry \<open>l\<close> (leaf first), for a key and a run id.\<close>

definition chain_of :: "gostring \<Rightarrow> gostring \<Rightarrow> node list \<Rightarrow> chain" where
  "chain_of key runID l =
     \<lparr>ch_Scopes = map node_scope (rev l) @
        (if runID = [] then [] else [\<lparr>ps_Name = ''run'', ps_Key = run_scope_key (hd l) key runID,
           ps_Limits = run_only_limits (run_cap (rev l))\<rparr>]),
      ch_KilledBy = first_killed (rev l)\<rparr>"

lemma resolve_ancestry:
  assumes "mget (st_keys s) key = Some r" "mget (st_nodes s) r = Some leaf" "ancestry (st_nodes s) leaf l"
    and "n_Type (last l) = Org" "runID = [] \<or> validID runID"
  shows "policy_Resolve key runID s = Some (Inr (chain_of key runID l))"
proof -
  have "hd l = leaf" using ancestry_last [OF assms(3)] by simp
  then show ?thesis using assms walk_ancestry [OF assms(3), of "[]"]
    by (auto simp: policy_Resolve_def emit_scopes_spec chain_of_def Let_def)
qed

lemma resolve_known:
  assumes ok: "store_ok s" and key: "mget (st_keys s) key = Some r" and run: "runID = [] \<or> validID runID"
  obtains leaf l where "mget (st_nodes s) r = Some leaf" "ancestry (st_nodes s) leaf l"
    "policy_Resolve key runID s = Some (Inr (chain_of key runID l))" "length l \<le> 3"
    "map n_Type (rev l) = take (length l) [Org, Team, App]"
    "\<forall>x\<in>set l. mget (st_nodes s) (node_scopeKey x) = Some x" "hd l = leaf" "l \<noteq> []"
proof -
  have "mget (st_nodes s) r \<noteq> None" using ok key unfolding store_ok_def by blast
  then obtain leaf where leaf: "mget (st_nodes s) r = Some leaf" by auto
  obtain l where l: "ancestry (st_nodes s) leaf l" "length l = level (n_Type leaf)"
    "map n_Type (rev l) = take (level (n_Type leaf)) [Org, Team, App]"
    "\<forall>x\<in>set l. mget (st_nodes s) (node_scopeKey x) = Some x"
    using ancestry_exists [OF ok leaf] by blast
  have ne: "l \<noteq> []" "hd l = leaf" using ancestry_last [OF l(1)] by simp_all
  have "n_Type (last l) = hd (map n_Type (rev l))" using ne by (simp add: hd_map hd_rev)
  also have "\<dots> = Org" using l(2,3) by (auto simp: level_def)
  finally have "policy_Resolve key runID s = Some (Inr (chain_of key runID l))"
    by (intro resolve_ancestry [OF key leaf l(1) _ run])
  then show thesis using that leaf l ne by (auto simp: level_def)
qed

section \<open>Properties\<close>

text \<open>
  C10. The policy store stays well formed. After any sequence of management operations, in any order and with
  any arguments, every node sits under its own key with a valid id and non-negative caps, every team and app
  has its parent in the store, and every issued key points to a node of the store.
\<close>
theorem policy_store_invariant: "store_ok (fold policy_apply ops policy_New)"
  by (rule policy_run_ok [OF policy_New_ok])

text \<open>
  C9. \<open>Resolve\<close> terminates and is exact. On a store built by the management operations the ancestry loop ends
  for every key and run id: an invalid run id and an unknown key are reported as such, \<open>ErrBrokenChain\<close> never
  occurs, and a known key resolves to the scopes of its node's ancestry from the organisation down, followed by
  the run scope when a run id is given, with the first killed node of the ancestry as \<open>KilledBy\<close>.
\<close>
theorem resolve_exact:
  assumes "s = fold policy_apply ops policy_New"
  shows "\<exists>res. policy_Resolve key runID s = Some res \<and>
    (res = Inl ErrBadRunID \<longleftrightarrow> runID \<noteq> [] \<and> \<not> validID runID) \<and>
    (res = Inl ErrUnknownKey \<longleftrightarrow> (runID = [] \<or> validID runID) \<and> mget (st_keys s) key = None) \<and>
    (\<forall>e. res = Inl e \<longrightarrow> e = ErrBadRunID \<or> e = ErrUnknownKey) \<and>
    (\<forall>ch. res = Inr ch \<longrightarrow> (\<exists>r leaf l. mget (st_keys s) key = Some r \<and> mget (st_nodes s) r = Some leaf \<and>
        ancestry (st_nodes s) leaf l \<and> length l \<le> 3 \<and> ch = chain_of key runID l))"
proof -
  have ok: "store_ok s" using assms by (simp add: policy_run_ok policy_New_ok)
  show ?thesis
  proof (cases "runID \<noteq> [] \<and> \<not> validID runID")
    case True
    then show ?thesis by (auto simp: policy_Resolve_def)
  next
    case run: False
    show ?thesis
    proof (cases "mget (st_keys s) key")
      case None
      then show ?thesis using run by (auto simp: policy_Resolve_def)
    next
      case (Some r)
      have "runID = [] \<or> validID runID" using run by simp
      from resolve_known [OF ok Some this] obtain leaf l where
        "mget (st_nodes s) r = Some leaf" "ancestry (st_nodes s) leaf l"
        "policy_Resolve key runID s = Some (Inr (chain_of key runID l))" "length l \<le> 3"
        by metis
      then show ?thesis using Some run by auto
    qed
  qed
qed

text \<open>A small organisation the witnesses run on.\<close>

definition ex_caps :: "usd \<Rightarrow> plimits" where
  "ex_caps c = \<lparr>p_MaxUSDPerMin = 10, p_MaxTokensPerMin = 0, p_MaxConcurrent = 0, p_MaxUSDPerDay = 0,
     p_MaxUSDPerMonth = 0, p_MaxUSDPerRun = c\<rparr>"

definition ex_ops :: "policy_op list" where
  "ex_ops = [OpCreateOrg ''a'' ''Acme'' (ex_caps 9), OpCreateTeam ''t'' ''Eng'' ''a'' (ex_caps 0),
     OpCreateApp ''b'' ''Bot'' ''t'' (ex_caps 5), OpIssueKey ''k1'' App ''b'', OpIssueKey ''k2'' App ''b'']"

lemma ex_valid [simp]: "validID ''a''" "validID ''t''" "validID ''b''" "validID ''r''"
  by (simp_all add: validID_def id_char_def less_eq_char_def)

lemma ex_caps_valid [simp]: "0 \<le> c \<Longrightarrow> plimits_valid (ex_caps c)"
  by (simp add: plimits_valid_def ex_caps_def)

lemma ex_store:
  "fold policy_apply ex_ops policy_New =
     \<lparr>st_nodes = [(''org:a'', \<lparr>n_Type = ''org'', n_ID = ''a'', n_Name = ''Acme'', n_ParentID = [], n_Limits = ex_caps 9, n_Killed = False\<rparr>),
        (''team:t'', \<lparr>n_Type = ''team'', n_ID = ''t'', n_Name = ''Eng'', n_ParentID = ''a'', n_Limits = ex_caps 0, n_Killed = False\<rparr>),
        (''app:b'', \<lparr>n_Type = ''app'', n_ID = ''b'', n_Name = ''Bot'', n_ParentID = ''t'', n_Limits = ex_caps 5, n_Killed = False\<rparr>)],
      st_keys = [(''k1'', ''app:b''), (''k2'', ''app:b'')]\<rparr>"
  by (simp add: ex_ops_def policy_New_def CreateOrg_def CreateTeam_def CreateApp_def IssueKey_def store_put_def
      store_putChild_def node_scopeKey_def refFor_def node_types gomap_defs)

theorem resolve_exact_witness:
  "\<exists>ch. policy_Resolve ''k1'' ''r'' (fold policy_apply ex_ops policy_New) = Some (Inr ch)"
proof -
  have "mget (st_keys (fold policy_apply ex_ops policy_New)) ''k1'' = Some ''app:b''"
    by (simp add: ex_store gomap_defs)
  then show ?thesis using resolve_exact [OF refl, of "''k1''" "''r''" ex_ops]
    by (metis ex_valid(4) not_None_eq option.distinct(1) sum.exhaust)
qed

lemma chain_scope_node:
  assumes "\<forall>x\<in>set l. mget m (node_scopeKey x) = Some x" "x \<in> set l" "node_scopeKey x = k" "mget m k = Some n"
  shows "x = n"
  using assms by auto

text \<open>A killed node in a chain shows up as the chain's killer.\<close>

lemma killed_chain:
  assumes "store_ok s" "node_Kill t i s = (None, s')"
    and "policy_Resolve key runID s' = Some (Inr ch)"
  shows "(refFor t i \<in> ps_Key ` {sc \<in> set (ch_Scopes ch). ps_Name sc \<noteq> ''run''} \<longrightarrow> ch_KilledBy ch \<noteq> []) \<and>
    (ch_KilledBy ch \<noteq> [] \<longrightarrow> (\<exists>n. mget (st_nodes s') (ch_KilledBy ch) = Some n \<and> n_Killed n))"
proof -
  have ok: "store_ok s'" using setKilled_ok [of s t i True] assms(1,2) by (simp add: node_Kill_def)
  have run: "runID = [] \<or> validID runID" and "mget (st_keys s') key \<noteq> None"
    using assms(3) by (auto simp: policy_Resolve_def split: if_splits option.splits)
  then obtain r where "mget (st_keys s') key = Some r" by auto
  from resolve_known [OF ok this run] obtain leaf l where
    l: "policy_Resolve key runID s' = Some (Inr (chain_of key runID l))"
      "\<forall>x\<in>set l. mget (st_nodes s') (node_scopeKey x) = Some x" by metis
  have ch: "ch = chain_of key runID l" using assms(3) l(1) by simp
  obtain n where n: "mget (st_nodes s') (refFor t i) = Some n" "n_Killed n"
    using assms(2) by (auto simp: node_Kill_def setKilled_def split: option.splits)
  have "ch_KilledBy ch \<noteq> []" if mem: "refFor t i \<in> ps_Key ` {sc \<in> set (ch_Scopes ch). ps_Name sc \<noteq> ''run''}"
  proof -
    from mem obtain x where x: "x \<in> set l" "node_scopeKey x = refFor t i"
      by (auto simp: ch chain_of_def node_scope_def split: if_splits)
    then have "x = n" using chain_scope_node [OF l(2) x n(1)] by simp
    then have "x \<in> set (filter n_Killed (rev l))" using x(1) n(2) by simp
    then have "filter n_Killed (rev l) \<noteq> []" by (metis empty_iff empty_set)
    then show ?thesis
      by (auto simp: ch chain_of_def first_killed_def scopeKey_nonempty split: list.split)
  qed
  moreover have "\<exists>n. mget (st_nodes s') (ch_KilledBy ch) = Some n \<and> n_Killed n" if kb: "ch_KilledBy ch \<noteq> []"
  proof -
    obtain x xs where f: "filter n_Killed (rev l) = x # xs" "ch_KilledBy ch = node_scopeKey x"
      using kb by (cases "filter n_Killed (rev l)") (auto simp: ch chain_of_def first_killed_def)
    then have "x \<in> set (filter n_Killed (rev l))" by simp
    then have "x \<in> set l \<and> n_Killed x" by simp
    with l(2) f(2) show ?thesis by auto
  qed
  ultimately show ?thesis by blast
qed

text \<open>
  Killing a node stops everything under it. After \<open>Kill\<close> of a node succeeds, every request whose chain
  carries the node's scope resolves with a non-empty \<open>KilledBy\<close>; conversely \<open>KilledBy\<close> is empty when no node of
  the ancestry is killed.
\<close>
theorem node_kill_blocks_chain:
  assumes "s = fold policy_apply ops policy_New" "node_Kill t i s = (None, s')"
    and "policy_Resolve key runID s' = Some (Inr ch)"
  shows "(refFor t i \<in> ps_Key ` {sc \<in> set (ch_Scopes ch). ps_Name sc \<noteq> ''run''} \<longrightarrow> ch_KilledBy ch \<noteq> []) \<and>
    (ch_KilledBy ch \<noteq> [] \<longrightarrow> (\<exists>n. mget (st_nodes s') (ch_KilledBy ch) = Some n \<and> n_Killed n))"
  by (rule killed_chain [OF _ assms(2,3)]) (simp add: assms(1) policy_run_ok policy_New_ok)

lemma ex_resolve:
  "policy_Resolve ''k1'' ''r'' (fold policy_apply ex_ops policy_New) =
     Some (Inr \<lparr>ch_Scopes =
       [\<lparr>ps_Name = ''org'', ps_Key = ''org:a'', ps_Limits = ex_caps 9\<rparr>,
        \<lparr>ps_Name = ''team'', ps_Key = ''team:t'', ps_Limits = ex_caps 0\<rparr>,
        \<lparr>ps_Name = ''app'', ps_Key = ''app:b'', ps_Limits = ex_caps 5\<rparr>,
        \<lparr>ps_Name = ''run'', ps_Key = ''run:app:b'' @ [NUL] @ ''k1'' @ [NUL] @ ''r'', ps_Limits = run_only_limits 5\<rparr>],
       ch_KilledBy = []\<rparr>)"
  by (simp add: ex_store policy_Resolve_def gomap_defs walk.simps node_types node_parent_def refFor_def
      node_scopeKey_def run_scope_key_def tightest_def ex_caps_def)

theorem node_kill_blocks_chain_witness:
  "\<exists>ch. policy_Resolve ''k1'' [] (snd (node_Kill Team ''t'' (fold policy_apply ex_ops policy_New))) = Some (Inr ch)
     \<and> ch_KilledBy ch \<noteq> []"
proof -
  let ?s = "fold policy_apply ex_ops policy_New"
  have k: "node_Kill Team ''t'' ?s = (None, snd (node_Kill Team ''t'' ?s))"
    by (simp add: ex_store node_Kill_def setKilled_def gomap_defs refFor_def node_types)
  obtain ch where ch: "policy_Resolve ''k1'' [] (snd (node_Kill Team ''t'' ?s)) = Some (Inr ch)"
    "\<lparr>ps_Name = ''team'', ps_Key = refFor Team ''t'', ps_Limits = ex_caps 0\<rparr> \<in> set (ch_Scopes ch)"
    by (simp add: ex_store node_Kill_def setKilled_def policy_Resolve_def gomap_defs walk.simps node_types
        node_parent_def refFor_def node_scopeKey_def)
  then have "refFor Team ''t'' \<in> ps_Key ` {sc \<in> set (ch_Scopes ch). ps_Name sc \<noteq> ''run''}"
    by (intro image_eqI [OF _ CollectI]) auto
  then show ?thesis using node_kill_blocks_chain [OF refl k ch(1)] ch(1) by blast
qed

text \<open>
  The run scope carries the tightest per-run cap. The run scope's \<open>MaxUSDPerRun\<close> is zero exactly when no
  node of the ancestry caps runs, and otherwise it is the cap of one of those nodes and no larger than any of
  them; it is the only cap of the run scope.
\<close>
theorem run_scope_tightest:
  assumes "s = fold policy_apply ops policy_New" "policy_Resolve key runID s = Some (Inr ch)" "runID \<noteq> []"
  shows "\<exists>scs k c. ch_Scopes ch = scs @ [\<lparr>ps_Name = ''run'', ps_Key = k, ps_Limits = run_only_limits c\<rparr>] \<and>
    (c = 0 \<longleftrightarrow> (\<forall>sc\<in>set scs. p_MaxUSDPerRun (ps_Limits sc) = 0)) \<and>
    (\<forall>sc\<in>set scs. 0 < p_MaxUSDPerRun (ps_Limits sc) \<longrightarrow> c \<le> p_MaxUSDPerRun (ps_Limits sc)) \<and>
    (c \<noteq> 0 \<longrightarrow> (\<exists>sc\<in>set scs. c = p_MaxUSDPerRun (ps_Limits sc)))"
proof -
  have ok: "store_ok s" using assms(1) by (simp add: policy_run_ok policy_New_ok)
  have run: "runID = [] \<or> validID runID" and "mget (st_keys s) key \<noteq> None"
    using assms(2) by (auto simp: policy_Resolve_def split: if_splits option.splits)
  then obtain r where "mget (st_keys s) key = Some r" by auto
  from resolve_known [OF ok this run] obtain l where
    l: "policy_Resolve key runID s = Some (Inr (chain_of key runID l))"
      "\<forall>x\<in>set l. mget (st_nodes s) (node_scopeKey x) = Some x" by metis
  have ch: "ch = chain_of key runID l" using assms(2) l(1) by simp
  let ?xs = "map (p_MaxUSDPerRun \<circ> n_Limits) (rev l)" and ?scs = "map node_scope (rev l)"
  have "0 \<le> p_MaxUSDPerRun (n_Limits x)" if "x \<in> set l" for x
    using store_ok_node [OF ok, of "node_scopeKey x" x] l(2) that by (simp add: node_ok_def plimits_valid_def)
  then have "\<forall>x\<in>set ?xs. 0 \<le> x" by auto
  note t = tightest_fold [OF order_refl this]
  show ?thesis
  proof (intro exI conjI)
    show "ch_Scopes ch = ?scs @ [\<lparr>ps_Name = ''run'', ps_Key = run_scope_key (hd l) key runID,
        ps_Limits = run_only_limits (run_cap (rev l))\<rparr>]"
      using assms(3) by (simp add: ch chain_of_def)
    show "run_cap (rev l) = 0 \<longleftrightarrow> (\<forall>sc\<in>set ?scs. p_MaxUSDPerRun (ps_Limits sc) = 0)"
      using t by (auto simp: run_cap_def node_scope_def)
    show "\<forall>sc\<in>set ?scs. 0 < p_MaxUSDPerRun (ps_Limits sc) \<longrightarrow> run_cap (rev l) \<le> p_MaxUSDPerRun (ps_Limits sc)"
      using t by (auto simp: run_cap_def node_scope_def)
    show "run_cap (rev l) \<noteq> 0 \<longrightarrow> (\<exists>sc\<in>set ?scs. run_cap (rev l) = p_MaxUSDPerRun (ps_Limits sc))"
      using t by (auto simp: run_cap_def node_scope_def)
  qed
qed

theorem run_scope_tightest_witness:
  "\<exists>scs k c. ch_Scopes (projr (the (policy_Resolve ''k1'' ''r'' (fold policy_apply ex_ops policy_New)))) =
     scs @ [\<lparr>ps_Name = ''run'', ps_Key = k, ps_Limits = run_only_limits c\<rparr>]"
  using run_scope_tightest [OF refl ex_resolve] unfolding ex_resolve by auto

text \<open>
  Runs are isolated by tenant and by key. Two requests that resolve with run ids get the same run scope only
  if they use the same API key and the same run id, even when both keys are bound to the same node: no caller
  can share, exhaust or kill another caller's run. (API keys are hex digests, so they hold no NUL byte.)
\<close>
theorem run_scopes_isolated:
  assumes "s = fold policy_apply ops policy_New"
    and "policy_Resolve k1 r1 s = Some (Inr ch1)" "policy_Resolve k2 r2 s = Some (Inr ch2)"
    and "r1 \<noteq> []" "r2 \<noteq> []" "NUL \<notin> set k1" "NUL \<notin> set k2"
    and "ps_Key (last (ch_Scopes ch1)) = ps_Key (last (ch_Scopes ch2))"
  shows "k1 = k2 \<and> r1 = r2"
proof -
  have ok: "store_ok s" using assms(1) by (simp add: policy_run_ok policy_New_ok)
  have leaf: "\<exists>n. ps_Key (last (ch_Scopes ch)) = run_scope_key n key runID \<and> NUL \<notin> set (node_scopeKey n) \<and> NUL \<notin> set runID"
    if res: "policy_Resolve key runID s = Some (Inr ch)" and ne: "runID \<noteq> []" for key runID ch
  proof -
    have run: "runID = [] \<or> validID runID" and "mget (st_keys s) key \<noteq> None"
      using res by (auto simp: policy_Resolve_def split: if_splits option.splits)
    then obtain r where "mget (st_keys s) key = Some r" by auto
    from resolve_known [OF ok this run] obtain n l where
      l: "policy_Resolve key runID s = Some (Inr (chain_of key runID l))" "mget (st_nodes s) r = Some n" "hd l = n"
      by metis
    have "n_Type n \<in> {Org, Team, App}" "validID (n_ID n)"
      using store_ok_node [OF ok l(2)] by (auto simp: node_ok_def)
    then have "NUL \<notin> set (node_scopeKey n)"
      using validID_chars [of "n_ID n" NUL] by (auto simp: node_scopeKey_def refFor_def node_types)
    moreover have "NUL \<notin> set runID" using run ne validID_chars [of runID NUL] by auto
    moreover have "ps_Key (last (ch_Scopes ch)) = run_scope_key n key runID"
      using res l ne by (auto simp: chain_of_def)
    ultimately show ?thesis by blast
  qed
  obtain n1 where n1: "ps_Key (last (ch_Scopes ch1)) = run_scope_key n1 k1 r1" "NUL \<notin> set (node_scopeKey n1)"
    using leaf [OF assms(2,4)] by blast
  obtain n2 where n2: "ps_Key (last (ch_Scopes ch2)) = run_scope_key n2 k2 r2" "NUL \<notin> set (node_scopeKey n2)"
    using leaf [OF assms(3,5)] by blast
  note n = n1 n2
  then have "node_scopeKey n1 @ NUL # (k1 @ NUL # r1) = node_scopeKey n2 @ NUL # (k2 @ NUL # r2)"
    using assms(8) by (simp add: run_scope_key_def)
  then have "k1 @ NUL # r1 = k2 @ NUL # r2" using append_sep_inject [OF n(2,4)] by blast
  then show ?thesis using append_sep_inject [OF assms(6,7)] by blast
qed

theorem run_scopes_isolated_witness:
  "\<exists>ch1 ch2. policy_Resolve ''k1'' ''r'' (fold policy_apply ex_ops policy_New) = Some (Inr ch1) \<and>
     policy_Resolve ''k2'' ''r'' (fold policy_apply ex_ops policy_New) = Some (Inr ch2) \<and>
     ps_Key (last (ch_Scopes ch1)) \<noteq> ps_Key (last (ch_Scopes ch2))"
proof -
  obtain ch2 where ch2: "policy_Resolve ''k2'' ''r'' (fold policy_apply ex_ops policy_New) = Some (Inr ch2)"
    by (simp add: ex_store policy_Resolve_def gomap_defs walk.simps node_types node_parent_def refFor_def
        node_scopeKey_def run_scope_key_def tightest_def ex_caps_def)
  show ?thesis using run_scopes_isolated [OF refl ex_resolve ch2] ex_resolve ch2 by auto
qed

end
