(* ===== verification/Enforcer.thy ===== *)
theory Enforcer
  imports PolicyResolve FirewallShared
begin

text \<open>
  The adapter of \<open>internal/enforcer/enforcer.go\<close> between the policy store and the firewall: \<open>Translate\<close>
  projects a resolved chain onto firewall scopes, \<open>Resolver.Resolve\<close> distinguishes an ungoverned key from a
  resolution failure. The interface \<open>ChainResolver\<close> of the server is the locale \<open>chain_resolver\<close>, interpreted
  here on the resolver over a policy store built by the management operations.
\<close>

section \<open>Model\<close>

definition Translate :: "chain \<Rightarrow> scope list" where
  "Translate ch = map (\<lambda>sc. \<lparr>sc_Name = ps_Name sc, sc_Key = ps_Key sc,
     sc_Limits = zero_limits\<lparr>MaxUSDPerMin := p_MaxUSDPerMin (ps_Limits sc),
       MaxTokensPerMin := p_MaxTokensPerMin (ps_Limits sc), MaxConcurrent := p_MaxConcurrent (ps_Limits sc),
       MaxUSDPerRun := p_MaxUSDPerRun (ps_Limits sc)\<rparr>\<rparr>) (ch_Scopes ch)"

text \<open>The result \<open>(scopes, killedBy, governed, err)\<close>; \<open>None\<close> is a resolution that does not return.\<close>

type_synonym resolution = "scope list \<times> gostring \<times> bool \<times> policy_error option"

definition resolver_Resolve :: "policy_store \<Rightarrow> gostring \<Rightarrow> gostring \<Rightarrow> resolution option" where
  "resolver_Resolve store keySHA256 runID =
     (case policy_Resolve keySHA256 runID store of
        None \<Rightarrow> None
      | Some (Inl rerr) \<Rightarrow>
          Some (if rerr = ErrUnknownKey then ([], [], False, None) else ([], [], False, Some rerr))
      | Some (Inr ch) \<Rightarrow> Some (Translate ch, ch_KilledBy ch, True, None))"

section \<open>Resolved chains\<close>

lemma Translate_keys: "map sc_Key (Translate ch) = map ps_Key (ch_Scopes ch)"
  "map sc_Name (Translate ch) = map ps_Name (ch_Scopes ch)"
  by (simp_all add: Translate_def)

lemma is_run_filter: "length (filter is_run scs) = count_list (map sc_Name scs) ''run''"
  by (induction scs) auto

lemma scopeKey_length: "store_ok s \<Longrightarrow> mget (st_nodes s) k = Some n \<Longrightarrow> length (node_scopeKey n) \<le> 133"
proof -
  assume "store_ok s" "mget (st_nodes s) k = Some n"
  then have "n_Type n \<in> {Org, Team, App}" "validID (n_ID n)" by (auto dest: store_ok_node simp: node_ok_def)
  then show "length (node_scopeKey n) \<le> 133"
    using validID_bounds [of "n_ID n"] by (auto simp: node_scopeKey_def refFor_def node_types)
qed

lemma chain_of_wellformed:
  assumes ok: "store_ok s" and l: "\<forall>x\<in>set l. mget (st_nodes s) (node_scopeKey x) = Some x" "l \<noteq> []" "length l \<le> 3"
    and types: "map n_Type (rev l) = take (length l) [Org, Team, App]"
    and run: "runID = [] \<or> validID runID" and key: "length keySHA \<le> 64"
  shows "\<not> malformed (Translate (chain_of keySHA runID l)) \<and>
    distinct (map sc_Key (Translate (chain_of keySHA runID l)))"
proof -
  let ?t = "Translate (chain_of keySHA runID l)"
  have node_len: "length (node_scopeKey x) \<le> 133" if "x \<in> set l" for x
    using scopeKey_length [OF ok] l(1) that by blast
  have hd: "hd l \<in> set l" using l(2) by simp
  have keys: "map sc_Key ?t = map node_scopeKey (rev l) @ (if runID = [] then [] else [run_scope_key (hd l) keySHA runID])"
    by (simp add: Translate_keys chain_of_def node_scope_def comp_def)
  have names: "map sc_Name ?t = map n_Type (rev l) @ (if runID = [] then [] else [''run''])"
    by (simp add: Translate_keys chain_of_def node_scope_def comp_def)
  have "length k \<le> 512 \<and> k \<noteq> []" if "k \<in> set (map sc_Key ?t)" for k
  proof -
    from that consider x where "x \<in> set l" "k = node_scopeKey x" | "runID \<noteq> []" "k = run_scope_key (hd l) keySHA runID"
      by (auto simp: keys split: if_splits)
    then show ?thesis
    proof cases
      case 1
      then show ?thesis using node_len [of x] scopeKey_nonempty [of x] by simp
    next
      case 2
      then show ?thesis using node_len [OF hd] validID_bounds [of runID] run key by (simp add: run_scope_key_def)
    qed
  qed
  then have good: "\<not> bad_key sc" if "sc \<in> set ?t" for sc
    using that unfolding bad_key_def maxScopeKeyLen_def
    by (metis image_eqI leD list.set_map)
  have "length l = 1 \<or> length l = 2 \<or> length l = 3"
    using l(2,3) by (cases l) (auto simp: le_Suc_eq numeral_eq_Suc)
  then have t3: "map n_Type (rev l) = [Org] \<or> map n_Type (rev l) = [Org, Team] \<or> map n_Type (rev l) = [Org, Team, App]"
    unfolding types by auto
  then have "count_list (map n_Type (rev l)) ''run'' = 0" by (auto simp: node_types)
  then have "length (filter is_run ?t) \<le> 1" by (simp add: is_run_filter names)
  then have "\<not> malformed ?t" using good by (auto simp: malformed_def)
  moreover have "distinct (map node_scopeKey (rev l))"
  proof -
    have "n_Type x = n_Type y" if "x \<in> set l" "y \<in> set l" "node_scopeKey x = node_scopeKey y" for x y
      using l(1) that by (metis option.inject)
    then have "inj_on node_scopeKey (set l)" using l(1) by (metis inj_onI option.inject)
    moreover have "distinct (map n_Type (rev l))" using t3 by (auto simp: node_types)
    then have "distinct (rev l)" by (simp add: distinct_map)
    ultimately show ?thesis by (simp add: distinct_map)
  qed
  moreover have "run_scope_key (hd l) keySHA runID \<notin> set (map node_scopeKey (rev l))"
  proof -
    have "hd (node_scopeKey x) \<noteq> CHR ''r''" if "x \<in> set l" for x
    proof -
      have "n_Type x \<in> set (map n_Type (rev l))" using that by simp
      then have "n_Type x \<in> {Org, Team, App}" using t3 by auto
      then show ?thesis by (auto simp: node_scopeKey_def refFor_def node_types)
    qed
    moreover have "hd (run_scope_key (hd l) keySHA runID) = CHR ''r''" by (simp add: run_scope_key_def)
    ultimately show ?thesis by (metis (no_types, lifting) image_iff list.set_map set_rev)
  qed
  ultimately show ?thesis by (auto simp: keys)
qed

section \<open>The interface the server relies on\<close>

text \<open>
  \<open>ChainResolver\<close>: a governed answer has a chain the firewall accepts and can enforce scope by scope; an
  error is never a governed answer.
\<close>

locale chain_resolver =
  fixes resolve :: "'s \<Rightarrow> gostring \<Rightarrow> gostring \<Rightarrow> resolution option"
    and inv :: "'s \<Rightarrow> bool"
  assumes resolve_returns: "inv s \<Longrightarrow> resolve s key run \<noteq> None"
    and governed_chain: "inv s \<Longrightarrow> length key \<le> 64 \<Longrightarrow> resolve s key run = Some (scs, killed, True, err) \<Longrightarrow>
      err = None \<and> \<not> malformed scs \<and> distinct (map sc_Key scs)"
begin

lemma governed_never_bad_chain:
  assumes "inv s" "length key \<le> 64" "resolve s key run = Some (scs, killed, True, err)" "fw_enabled f"
  shows "fw_EnterChain scs h u t hold now f w =
    enterChain scs (fst (chain_run scs)) h (snd (chain_run scs)) u t hold now f w"
  using governed_chain [OF assms(1-3)] assms(4) by (simp add: EnterChain_cases)

end

definition built_store :: "policy_store \<Rightarrow> bool" where
  "built_store s \<longleftrightarrow> (\<exists>ops. s = fold policy_apply ops policy_New)"

interpretation policy_resolver: chain_resolver resolver_Resolve built_store
proof
  fix s key run
  assume "built_store s"
  then have ok: "store_ok s" by (auto simp: built_store_def policy_run_ok policy_New_ok)
  show "resolver_Resolve s key run \<noteq> None"
  proof (cases "run \<noteq> [] \<and> \<not> validID run \<or> mget (st_keys s) key = None")
    case True
    then show ?thesis by (auto simp: resolver_Resolve_def policy_Resolve_def)
  next
    case False
    then obtain r where "mget (st_keys s) key = Some r" "run = [] \<or> validID run" by auto
    from resolve_known [OF ok this] obtain l where "policy_Resolve key run s = Some (Inr (chain_of key run l))"
      by metis
    then show ?thesis by (simp add: resolver_Resolve_def)
  qed
  fix scs killed err
  assume key: "length key \<le> 64" and res: "resolver_Resolve s key run = Some (scs, killed, True, err)"
  then obtain ch where ch: "policy_Resolve key run s = Some (Inr ch)" "scs = Translate ch" "err = None"
    by (auto simp: resolver_Resolve_def split: option.splits sum.splits if_splits)
  then have "run = [] \<or> validID run" "mget (st_keys s) key \<noteq> None"
    by (auto simp: policy_Resolve_def split: if_splits option.splits)
  then obtain r where r: "mget (st_keys s) key = Some r" "run = [] \<or> validID run" by auto
  from resolve_known [OF ok r] obtain l where l: "policy_Resolve key run s = Some (Inr (chain_of key run l))"
    "length l \<le> 3" "map n_Type (rev l) = take (length l) [Org, Team, App]"
    "\<forall>x\<in>set l. mget (st_nodes s) (node_scopeKey x) = Some x" "l \<noteq> []" by metis
  have "ch = chain_of key run l" using ch(1) l(1) by simp
  then show "err = None \<and> \<not> malformed scs \<and> distinct (map sc_Key scs)"
    using chain_of_wellformed [OF ok l(4,5,2,3) r(2) key] ch by simp
qed

section \<open>Properties\<close>

text \<open>
  C11. Every governed chain is enforceable. For a store built by the management operations and a hex key digest,
  the resolver always returns; it reports ``ungoverned'' only for a key without a node and denies on every
  failure; and a governed chain is one the firewall never rejects as malformed and whose scopes have distinct
  keys, so each node of the hierarchy is checked and charged once.
\<close>
theorem governed_chain_enforceable:
  assumes "s = fold policy_apply ops policy_New" "length key \<le> 64"
  shows "\<exists>scs killed governed err. resolver_Resolve s key runID = Some (scs, killed, governed, err) \<and>
    (\<not> governed \<and> err = None \<longleftrightarrow> (runID = [] \<or> validID runID) \<and> mget (st_keys s) key = None) \<and>
    (governed \<longrightarrow> err = None \<and> distinct (map sc_Key scs) \<and>
      fst (fw_EnterChain scs h u t hold now f w) \<noteq> Inl ErrBadChain)"
proof -
  have b: "built_store s" using assms(1) by (auto simp: built_store_def)
  then obtain scs killed governed err where r: "resolver_Resolve s key runID = Some (scs, killed, governed, err)"
    using policy_resolver.resolve_returns [OF b, of key runID] by auto
  have "\<not> governed \<and> err = None \<longleftrightarrow> policy_Resolve key runID s = Some (Inl ErrUnknownKey)"
    using r by (auto simp: resolver_Resolve_def split: option.splits sum.splits if_splits)
  also have "\<dots> \<longleftrightarrow> (runID = [] \<or> validID runID) \<and> mget (st_keys s) key = None"
  proof -
    have "policy_Resolve key runID s \<noteq> Some (Inl ErrUnknownKey)"
      if "mget (st_keys s) key = Some x" "runID = [] \<or> validID runID" for x
    proof -
      have "store_ok s" using assms(1) by (simp add: policy_run_ok policy_New_ok)
      from resolve_known [OF this that] obtain l where "policy_Resolve key runID s = Some (Inr (chain_of key runID l))"
        by metis
      then show ?thesis by simp
    qed
    then show ?thesis by (cases "mget (st_keys s) key") (auto simp: policy_Resolve_def)
  qed
  finally have "\<not> governed \<and> err = None \<longleftrightarrow> (runID = [] \<or> validID runID) \<and> mget (st_keys s) key = None" .
  moreover have "err = None \<and> distinct (map sc_Key scs) \<and> fst (fw_EnterChain scs h u t hold now f w) \<noteq> Inl ErrBadChain"
    if governed
    using policy_resolver.governed_chain [OF b assms(2), of runID scs killed err] r that
    by (simp add: EnterChain_cases never_bad_chain)
  ultimately show ?thesis using r by blast
qed

theorem governed_chain_enforceable_witness:
  "\<exists>scs killed err. resolver_Resolve (fold policy_apply ex_ops policy_New) ''k1'' ''r'' = Some (scs, killed, True, err)
     \<and> fst (fw_EnterChain scs ''p'' 4 100 [] ex_now ex_fw ()) \<noteq> Inl ErrBadChain"
  using governed_chain_enforceable [OF refl, of "''k1''" ex_ops "''r''" "''p''" 4 100 "[]" ex_now ex_fw "()"]
  by (auto simp: resolver_Resolve_def ex_resolve)

end
