(* ===== verification/Health.thy ===== *)
theory Health
  imports Prelude
begin

text \<open>
  The per-provider circuit breaker of \<open>internal/health/health.go\<close>, and its specification on the log of a
  provider's outcomes. The failure count is an unbounded integer (it grows by one per failed dispatch).
\<close>

section \<open>Model\<close>

record endpoint =
  ep_consecutiveFails :: int
  ep_openUntil :: instant

record tracker =
  ht_threshold :: int
  ht_cooldown :: duration
  ht_state :: "(gostring, endpoint) gomap"

definition health_New :: "int \<Rightarrow> duration \<Rightarrow> tracker" where
  "health_New threshold cooldown =
     \<lparr>ht_threshold = (if threshold < 1 then 1 else threshold),
      ht_cooldown = (if cooldown \<le> 0 then 30 * second else cooldown), ht_state = []\<rparr>"

definition Healthy :: "instant \<Rightarrow> gostring \<Rightarrow> tracker \<Rightarrow> bool" where
  "Healthy now provider t =
     (case mget (ht_state t) provider of None \<Rightarrow> True | Some ep \<Rightarrow> \<not> now < ep_openUntil ep)"

definition RecordSuccess :: "gostring \<Rightarrow> tracker \<Rightarrow> tracker" where
  "RecordSuccess provider t =
     (case mget (ht_state t) provider of
        None \<Rightarrow> t
      | Some ep \<Rightarrow> t\<lparr>ht_state := mput provider
          (ep\<lparr>ep_consecutiveFails := 0, ep_openUntil := zero_time\<rparr>) (ht_state t)\<rparr>)"

definition RecordFailure :: "instant \<Rightarrow> gostring \<Rightarrow> tracker \<Rightarrow> tracker" where
  "RecordFailure now provider t =
     (let ep = (case mget (ht_state t) provider of
                  None \<Rightarrow> \<lparr>ep_consecutiveFails = 0, ep_openUntil = zero_time\<rparr> | Some ep \<Rightarrow> ep);
          ep1 = ep\<lparr>ep_consecutiveFails := ep_consecutiveFails ep + 1\<rparr>;
          ep2 = (if ep_consecutiveFails ep1 \<ge> ht_threshold t
                 then ep1\<lparr>ep_openUntil := now + ht_cooldown t\<rparr> else ep1)
      in t\<lparr>ht_state := mput provider ep2 (ht_state t)\<rparr>)"

section \<open>The breaker as a function of the outcome log\<close>

text \<open>An outcome: when, of which provider, and whether it succeeded.\<close>

type_synonym outcome = "instant \<times> gostring \<times> bool"

fun health_run :: "outcome list \<Rightarrow> tracker \<Rightarrow> tracker" where
  "health_run [] t = t"
| "health_run ((now, p, ok) # es) t = health_run es (if ok then RecordSuccess p t else RecordFailure now p t)"

text \<open>The failures of a provider since its last success, newest first.\<close>

definition recent_fails :: "gostring \<Rightarrow> outcome list \<Rightarrow> outcome list" where
  "recent_fails p es = takeWhile (\<lambda>(_, _, ok). \<not> ok) (rev (filter (\<lambda>(_, q, _). q = p) es))"

lemma health_run_snoc:
  "health_run (es @ [(now, p, ok)]) t = (if ok then RecordSuccess p else RecordFailure now p) (health_run es t)"
  by (induction es t rule: health_run.induct) auto

lemma record_frame [frame_simps]:
  "ht_threshold (RecordSuccess p t) = ht_threshold t" "ht_cooldown (RecordSuccess p t) = ht_cooldown t"
  "ht_threshold (RecordFailure n p t) = ht_threshold t" "ht_cooldown (RecordFailure n p t) = ht_cooldown t"
  by (auto simp: RecordSuccess_def RecordFailure_def Let_def split: option.split)

lemma health_run_frame [frame_simps]:
  "ht_threshold (health_run es t) = ht_threshold t" "ht_cooldown (health_run es t) = ht_cooldown t"
  by (induction es t rule: health_run.induct) (auto simp: frame_simps)

lemma recent_fails_snoc:
  "recent_fails p (es @ [(now, q, ok)]) =
     (if q = p then (if ok then [] else (now, q, ok) # recent_fails p es) else recent_fails p es)"
  by (simp add: recent_fails_def)

text \<open>The endpoint of a provider after a log: its failure streak, open while the streak is long enough.\<close>

definition tracks :: "tracker \<Rightarrow> gostring \<Rightarrow> outcome list \<Rightarrow> bool" where
  "tracks t p fails \<longleftrightarrow> (case mget (ht_state t) p of
     None \<Rightarrow> fails = []
   | Some ep \<Rightarrow> ep_consecutiveFails ep = int (length fails) \<and>
       ep_openUntil ep = (if ht_threshold t \<le> int (length fails) then fst (hd fails) + ht_cooldown t else zero_time))"

lemma tracks_run:
  assumes "1 \<le> threshold"
  shows "tracks (health_run es (health_New threshold cooldown)) p (recent_fails p es)"
proof (induction es rule: rev_induct)
  case Nil
  then show ?case by (simp add: tracks_def health_New_def recent_fails_def)
next
  case (snoc e es)
  obtain now q ok where e: "e = (now, q, ok)" by (cases e)
  let ?t = "health_run es (health_New threshold cooldown)"
  have th: "1 \<le> ht_threshold ?t" using assms by (simp add: frame_simps) (simp add: health_New_def)
  show ?case
  proof (cases ok)
    case True
    with snoc th show ?thesis
      by (auto simp: e health_run_snoc recent_fails_snoc tracks_def RecordSuccess_def split: option.splits)
  next
    case False
    have step: "tracks (RecordFailure now q ?t) p
        (if q = p then (now, q, False) # recent_fails p es else recent_fails p es)"
      using snoc th by (auto simp: tracks_def RecordFailure_def Let_def split: option.splits)
    with False show ?thesis by (cases "q = p") (simp_all add: e health_run_snoc recent_fails_snoc)
  qed
qed

text \<open>
  C15. The circuit breaker is exact. After any interleaved log of successes and failures, a provider is skipped
  at time \<open>now\<close> exactly when it has failed at least \<open>threshold\<close> times since its last success and the newest of
  those failures is younger than the cooldown; other providers' outcomes do not matter.
\<close>
theorem breaker_exact:
  assumes "1 \<le> threshold" "0 < cooldown" "zero_time \<le> now"
  shows "Healthy now p (health_run es (health_New threshold cooldown)) \<longleftrightarrow>
    \<not> (threshold \<le> int (length (recent_fails p es)) \<and> now < fst (hd (recent_fails p es)) + cooldown)"
proof -
  let ?t = "health_run es (health_New threshold cooldown)"
  have "ht_threshold ?t = threshold" "ht_cooldown ?t = cooldown"
    using assms by (simp_all add: frame_simps) (simp_all add: health_New_def)
  then show ?thesis using tracks_run [OF assms(1), of es cooldown p] assms
    by (auto simp: tracks_def Healthy_def split: option.splits if_splits)
qed

theorem breaker_exact_witness:
  "\<not> Healthy 25 ''openai'' (health_run [(10, ''openai'', False), (15, ''groq'', True), (20, ''openai'', False)] (health_New 2 10)) \<and>
   Healthy 30 ''openai'' (health_run [(10, ''openai'', False), (15, ''groq'', True), (20, ''openai'', False)] (health_New 2 10))"
  using breaker_exact [of 2 10 25 "''openai''" "[(10, ''openai'', False), (15, ''groq'', True), (20, ''openai'', False)]"]
    breaker_exact [of 2 10 30 "''openai''" "[(10, ''openai'', False), (15, ''groq'', True), (20, ''openai'', False)]"]
  by (simp add: recent_fails_def zero_time_def second_def)

end
