(* ===== verification/Router.thy ===== *)
theory Router
  imports Prelude
begin

text \<open>
  The static router of \<open>internal/router/router.go\<close>: aliases to decisions, and the failover chain of an alias.
\<close>

section \<open>Model\<close>

record price =
  InputPerMTok :: usd
  OutputPerMTok :: usd

record decision =
  d_Provider :: gostring
  d_Upstream :: gostring
  d_Alias :: gostring
  d_Price :: price
  d_MaxOutputTokens :: int
  d_AcceptsSampling :: bool

record modelConfig =
  mc_Alias :: gostring
  mc_Provider :: gostring
  mc_Upstream :: gostring
  mc_Price :: price
  mc_MaxOutputTokens :: int
  mc_AcceptsSampling :: bool
  mc_Fallbacks :: "gostring list"

record router =
  rt_models :: "(gostring, modelConfig) gomap"
  rt_defaultAlias :: gostring

definition router_New :: "modelConfig list \<Rightarrow> gostring \<Rightarrow> router" where
  "router_New models defaultAlias =
     \<lparr>rt_models = foldl (\<lambda>m mc. mput (mc_Alias mc) mc m) [] models, rt_defaultAlias = defaultAlias\<rparr>"

definition decisionFor :: "modelConfig \<Rightarrow> decision" where
  "decisionFor mc = \<lparr>d_Provider = mc_Provider mc, d_Upstream = mc_Upstream mc, d_Alias = mc_Alias mc,
     d_Price = mc_Price mc, d_MaxOutputTokens = mc_MaxOutputTokens mc, d_AcceptsSampling = mc_AcceptsSampling mc\<rparr>"

text \<open>An unknown alias is the error \<open>Inl alias\<close> (the message quotes it).\<close>

definition Route :: "gostring \<Rightarrow> router \<Rightarrow> gostring + decision" where
  "Route alias0 r =
     (let alias = (if alias0 = [] then rt_defaultAlias r else alias0)
      in case mget (rt_models r) alias of None \<Rightarrow> Inl alias | Some mc \<Rightarrow> Inr (decisionFor mc))"

fun chase_fallbacks :: "(gostring, modelConfig) gomap \<Rightarrow> gostring list \<Rightarrow> gostring list \<Rightarrow> decision list" where
  "chase_fallbacks models [] seen = []"
| "chase_fallbacks models (fb # fbs) seen =
     (if fb \<in> set seen then chase_fallbacks models fbs seen
      else case mget models fb of
        None \<Rightarrow> chase_fallbacks models fbs seen
      | Some fmc \<Rightarrow> decisionFor fmc # chase_fallbacks models fbs (fb # seen))"

definition Candidates :: "gostring \<Rightarrow> router \<Rightarrow> gostring + decision list" where
  "Candidates alias0 r =
     (let alias = (if alias0 = [] then rt_defaultAlias r else alias0)
      in case mget (rt_models r) alias of
           None \<Rightarrow> Inl alias
         | Some mc \<Rightarrow> Inr (decisionFor mc # chase_fallbacks (rt_models r) (mc_Fallbacks mc) [mc_Alias mc]))"

section \<open>The failover chain\<close>

definition models_ok :: "(gostring, modelConfig) gomap \<Rightarrow> bool" where
  "models_ok m \<longleftrightarrow> (\<forall>a mc. mget m a = Some mc \<longrightarrow> mc_Alias mc = a)"

lemma models_ok_put: "models_ok m \<Longrightarrow> models_ok (mput (mc_Alias mc) mc m)"
  by (simp add: models_ok_def)

lemma models_ok_fold: "models_ok m \<Longrightarrow> models_ok (foldl (\<lambda>m mc. mput (mc_Alias mc) mc m) m models)"
  by (induction models arbitrary: m) (simp_all add: models_ok_put)

lemma router_New_ok: "models_ok (rt_models (router_New models d))"
  using models_ok_fold [of "[]" models] by (simp add: router_New_def models_ok_def)

lemma models_ok_alias: "models_ok m \<Longrightarrow> mget m a = Some mc \<Longrightarrow> d_Alias (decisionFor mc) = a"
  by (simp add: models_ok_def decisionFor_def)

lemma chase_aliases:
  assumes "models_ok m"
  shows "set (map d_Alias (chase_fallbacks m fbs seen)) = {fb \<in> set fbs. mget m fb \<noteq> None} - set seen \<and>
    distinct (map d_Alias (chase_fallbacks m fbs seen))"
  using assms
proof (induction m fbs seen rule: chase_fallbacks.induct)
  case (2 m fb fbs seen)
  show ?case
  proof (cases "fb \<in> set seen \<or> mget m fb = None")
    case True
    then show ?thesis
    proof
      assume "fb \<in> set seen"
      with "2.IH"(1) "2.prems" show ?thesis by auto
    next
      assume none: "mget m fb = None"
      show ?thesis
      proof (cases "fb \<in> set seen")
        case False
        then have "chase_fallbacks m (fb # fbs) seen = chase_fallbacks m fbs seen" using none by simp
        with "2.IH"(2) [OF False none "2.prems"] none show ?thesis by auto
      qed (use "2.IH"(1) "2.prems" in auto)
    qed
  next
    case False
    then obtain mc where mc: "mget m fb = Some mc" by auto
    have "d_Alias (decisionFor mc) = fb" by (rule models_ok_alias [OF "2.prems" mc])
    then show ?thesis using "2.IH"(3) [OF _ mc "2.prems"] False mc by auto
  qed
qed simp

lemma chase_decisions:
  "d \<in> set (chase_fallbacks m fbs seen) \<Longrightarrow> \<exists>fb mc. fb \<in> set fbs \<and> mget m fb = Some mc \<and> d = decisionFor mc"
  by (induction m fbs seen rule: chase_fallbacks.induct) (auto split: if_splits option.splits)

lemma candidates_of_model:
  assumes "mget (rt_models (router_New models dflt)) (if alias = [] then dflt else alias) = Some mc"
  shows "Candidates alias (router_New models dflt) =
      Inr (decisionFor mc # chase_fallbacks (rt_models (router_New models dflt)) (mc_Fallbacks mc) [d_Alias (decisionFor mc)])"
    and "Route alias (router_New models dflt) = Inr (decisionFor mc)"
    and "d_Alias (decisionFor mc) = (if alias = [] then dflt else alias)"
proof -
  let ?r = "router_New models dflt"
  show al: "d_Alias (decisionFor mc) = (if alias = [] then dflt else alias)"
    by (rule models_ok_alias [OF router_New_ok assms])
  have dflt: "rt_defaultAlias ?r = dflt" by (simp add: router_New_def)
  have "mc_Alias mc = d_Alias (decisionFor mc)" by (simp add: decisionFor_def)
  then show "Candidates alias ?r = Inr (decisionFor mc # chase_fallbacks (rt_models ?r) (mc_Fallbacks mc) [d_Alias (decisionFor mc)])"
    "Route alias ?r = Inr (decisionFor mc)"
    using assms by (simp_all add: Candidates_def Route_def dflt Let_def split: if_splits)
qed

lemma candidates_nonempty: "Candidates alias r = Inr ds \<Longrightarrow> ds \<noteq> []"
  by (auto simp: Candidates_def Let_def split: option.splits)

lemma candidate_aliases:
  assumes "Candidates alias (router_New models dflt) = Inr ds"
  shows "\<exists>mc. mget (rt_models (router_New models dflt)) (if alias = [] then dflt else alias) = Some mc \<and>
    hd ds = decisionFor mc \<and> Route alias (router_New models dflt) = Inr (hd ds) \<and> distinct (map d_Alias ds) \<and>
    set (map d_Alias (tl ds)) =
      {fb \<in> set (mc_Fallbacks mc). mget (rt_models (router_New models dflt)) fb \<noteq> None \<and> fb \<noteq> d_Alias (hd ds)}"
proof -
  let ?r = "router_New models dflt"
  have "rt_defaultAlias ?r = dflt" by (simp add: router_New_def)
  then obtain mc where mc: "mget (rt_models ?r) (if alias = [] then dflt else alias) = Some mc"
    using assms by (auto simp: Candidates_def Let_def split: option.splits if_splits)
  have ds: "ds = decisionFor mc # chase_fallbacks (rt_models ?r) (mc_Fallbacks mc) [d_Alias (decisionFor mc)]"
    using candidates_of_model(1) [OF mc] assms by simp
  show ?thesis
    using mc candidates_of_model(2) [OF mc] chase_aliases [OF router_New_ok, of models dflt "mc_Fallbacks mc" "[d_Alias (decisionFor mc)]"]
    unfolding ds by auto
qed


definition ex_models :: "modelConfig list" where
  "ex_models = [\<lparr>mc_Alias = ''a'', mc_Provider = ''p'', mc_Upstream = ''u'', mc_Price = \<lparr>InputPerMTok = 1, OutputPerMTok = 2\<rparr>,
      mc_MaxOutputTokens = 100, mc_AcceptsSampling = True, mc_Fallbacks = [''a'', ''b'', ''x'', ''b'']\<rparr>,
     \<lparr>mc_Alias = ''b'', mc_Provider = ''q'', mc_Upstream = ''v'', mc_Price = \<lparr>InputPerMTok = 3, OutputPerMTok = 4\<rparr>,
      mc_MaxOutputTokens = 100, mc_AcceptsSampling = False, mc_Fallbacks = []\<rparr>]"


end
