(* ===== verification/Ledger.thy ===== *)
theory Ledger
  imports Prelude "HOL-Library.List_Lexorder" "HOL-Library.Char_ord" "HOL-Library.Product_Lexorder"
begin

text \<open>
  The spend ledger of \<open>internal/ledger/ledger.go\<close>: grand totals, spend by client and by run in bounded maps,
  a ring of recent events, and the price function. The lemmas show that the client map always reconciles with
  the totals, that both maps stay bounded, and that the ring is the newest part of the event log.

  Token counts are 64-bit with wrap-around; the event counters (\<open>Requests\<close>, \<open>recentN\<close>) count calls and are
  unbounded. The log line and the durable sink are outputs: \<open>Record\<close> hands the record to both.
\<close>

section \<open>Model\<close>

definition cacheReadMultiplier :: real where "cacheReadMultiplier = 1 / 10"
definition cacheWriteMultiplier :: real where "cacheWriteMultiplier = 5 / 4"
definition maxTracked :: nat where "maxTracked = 20000"
definition recentRing :: nat where "recentRing = 200"
definition overflowKey :: gostring where "overflowKey = NUL # ''(other)''"
definition anonymousKey :: gostring where "anonymousKey = NUL # ''(anonymous)''"

record lrecord =
  lr_RequestID :: gostring
  lr_Alias :: gostring
  lr_Provider :: gostring
  lr_Upstream :: gostring
  lr_User :: gostring
  lr_RunID :: gostring
  lr_InputTokens :: int
  lr_OutputTokens :: int
  lr_CacheReadTokens :: int
  lr_CacheWriteTokens :: int
  lr_CostUSD :: usd
  lr_LatencyMS :: int
  lr_Status :: gostring

record stat =
  s_Requests :: int
  s_Tokens :: int
  s_CostUSD :: usd

record event =
  ev_RequestID :: gostring
  ev_Alias :: gostring
  ev_Provider :: gostring
  ev_User :: gostring
  ev_RunID :: gostring
  ev_Tokens :: int
  ev_CostUSD :: usd
  ev_LatencyMS :: int
  ev_Status :: gostring

record namedStat =
  ns_Name :: gostring
  ns_Stat :: stat

record snapshot =
  sn_Total :: stat
  sn_TopUsers :: "namedStat list"
  sn_TopRuns :: "namedStat list"
  sn_Recent :: "event list"

record ledger =
  lg_total :: stat
  lg_byUser :: "(gostring, stat) gomap"
  lg_byRun :: "(gostring, stat) gomap"
  lg_recent :: "event list"
  lg_recentN :: nat

definition zero_stat :: stat where "zero_stat = \<lparr>s_Requests = 0, s_Tokens = 0, s_CostUSD = 0\<rparr>"

definition zero_event :: event where
  "zero_event = \<lparr>ev_RequestID = [], ev_Alias = [], ev_Provider = [], ev_User = [], ev_RunID = [], ev_Tokens = 0,
     ev_CostUSD = 0, ev_LatencyMS = 0, ev_Status = []\<rparr>"

definition stat_add :: "int \<Rightarrow> usd \<Rightarrow> stat \<Rightarrow> stat" where
  "stat_add tokens cost s = \<lparr>s_Requests = s_Requests s + 1, s_Tokens = wrap64 (s_Tokens s + tokens),
     s_CostUSD = s_CostUSD s + cost\<rparr>"

definition ledger_New :: ledger where
  "ledger_New = \<lparr>lg_total = zero_stat, lg_byUser = [], lg_byRun = [],
     lg_recent = replicate recentRing zero_event, lg_recentN = 0\<rparr>"

definition keyOr :: "gostring \<Rightarrow> gostring \<Rightarrow> gostring" where
  "keyOr s fallback = (if s = [] then fallback else s)"

definition trackLocked ::
  "gostring \<Rightarrow> int \<Rightarrow> usd \<Rightarrow> (gostring, stat) gomap \<Rightarrow> (gostring, stat) gomap" where
  "trackLocked key0 tokens cost m =
     (let key = (if mget m key0 = None \<and> mlen m \<ge> maxTracked then overflowKey else key0);
          st = (case mget m key of None \<Rightarrow> zero_stat | Some st \<Rightarrow> st)
      in mput key (stat_add tokens cost st) m)"

definition record_tokens :: "lrecord \<Rightarrow> int" where
  "record_tokens r = wrap64 (wrap64 (wrap64 (lr_InputTokens r + lr_OutputTokens r) + lr_CacheReadTokens r)
     + lr_CacheWriteTokens r)"

definition event_of :: "lrecord \<Rightarrow> event" where
  "event_of r = \<lparr>ev_RequestID = lr_RequestID r, ev_Alias = lr_Alias r, ev_Provider = lr_Provider r,
     ev_User = lr_User r, ev_RunID = lr_RunID r, ev_Tokens = record_tokens r, ev_CostUSD = lr_CostUSD r,
     ev_LatencyMS = lr_LatencyMS r, ev_Status = lr_Status r\<rparr>"

definition ledger_Record :: "lrecord \<Rightarrow> ledger \<Rightarrow> ledger" where
  "ledger_Record r l =
     (let tokens = record_tokens r
      in l\<lparr>lg_total := stat_add tokens (lr_CostUSD r) (lg_total l),
           lg_byUser := trackLocked (keyOr (lr_User r) anonymousKey) tokens (lr_CostUSD r) (lg_byUser l),
           lg_byRun := (if lr_RunID r \<noteq> [] then trackLocked (lr_RunID r) tokens (lr_CostUSD r) (lg_byRun l)
                        else lg_byRun l),
           lg_recent := (lg_recent l)[lg_recentN l mod recentRing := event_of r],
           lg_recentN := Suc (lg_recentN l)\<rparr>)"

definition ledger_Totals :: "ledger \<Rightarrow> int \<times> int \<times> usd" where
  "ledger_Totals l = (s_Requests (lg_total l), s_Tokens (lg_total l), s_CostUSD (lg_total l))"

definition displayName :: "gostring \<Rightarrow> gostring" where
  "displayName k = (case k of [] \<Rightarrow> k | c # cs \<Rightarrow> if c = NUL then cs else k)"

definition collectLocked :: "(gostring, stat) gomap \<Rightarrow> namedStat list" where
  "collectLocked m = map (\<lambda>(k, st). \<lparr>ns_Name = displayName k, ns_Stat = st\<rparr>) m"

definition topN :: "namedStat list \<Rightarrow> int \<Rightarrow> namedStat list" where
  "topN all n =
     (let sorted = sort_key (\<lambda>s :: namedStat. (- s_CostUSD (ns_Stat s), ns_Name s)) all
      in if n > 0 \<and> int (length sorted) > n then take (nat n) sorted else sorted)"

definition recentLocked :: "ledger \<Rightarrow> event list" where
  "recentLocked l =
     (let n = min (lg_recentN l) recentRing
      in map (\<lambda>i. lg_recent l ! ((lg_recentN l - 1 - i) mod recentRing)) [0..<n])"

definition ledger_Snapshot :: "int \<Rightarrow> ledger \<Rightarrow> snapshot" where
  "ledger_Snapshot n l = \<lparr>sn_Total = lg_total l, sn_TopUsers = topN (collectLocked (lg_byUser l)) n,
     sn_TopRuns = topN (collectLocked (lg_byRun l)) n, sn_Recent = recentLocked l\<rparr>"

definition Cost :: "int \<Rightarrow> int \<Rightarrow> int \<Rightarrow> int \<Rightarrow> usd \<Rightarrow> usd \<Rightarrow> usd" where
  "Cost inputTokens outputTokens cacheReadTokens cacheWriteTokens inputPerMTok outputPerMTok =
     real_of_int inputTokens / 1000000 * inputPerMTok
     + real_of_int outputTokens / 1000000 * outputPerMTok
     + real_of_int cacheReadTokens / 1000000 * inputPerMTok * cacheReadMultiplier
     + real_of_int cacheWriteTokens / 1000000 * inputPerMTok * cacheWriteMultiplier"

section \<open>Reconciliation\<close>

text \<open>The column sums of a map of stats; token sums are compared modulo the 64-bit wrap-around.\<close>

definition sum_stats :: "(gostring, stat) gomap \<Rightarrow> stat" where
  "sum_stats m = \<lparr>s_Requests = sum_list (map (s_Requests \<circ> snd) m),
     s_Tokens = wrap64 (sum_list (map (s_Tokens \<circ> snd) m)), s_CostUSD = sum_list (map (s_CostUSD \<circ> snd) m)\<rparr>"

lemma sum_mput:
  fixes g :: "stat \<Rightarrow> 'b::ab_group_add"
  assumes "mwf m"
  shows "sum_list (map (g \<circ> snd) (mput k v m)) =
    sum_list (map (g \<circ> snd) m) + g v - (case mget m k of None \<Rightarrow> 0 | Some w \<Rightarrow> g w)"
  using assms
proof (induction m)
  case (Cons p m)
  obtain a b where p: "p = (a, b)" by (cases p)
  then have "mwf m" "a = k \<Longrightarrow> map_of m k = None"
    using Cons.prems by (auto simp: gomap_defs map_of_eq_None_iff)
  with Cons.IH show ?case by (auto simp: p gomap_defs split: option.splits)
qed (simp add: gomap_defs)

lemma sum_stats_track:
  assumes "mwf m"
  shows "sum_stats (trackLocked k t c m) = stat_add t c (sum_stats m)"
proof -
  define key where "key = (if mget m k = None \<and> mlen m \<ge> maxTracked then overflowKey else k)"
  define st where "st = (case mget m key of None \<Rightarrow> zero_stat | Some st \<Rightarrow> st)"
  have track: "trackLocked k t c m = mput key (stat_add t c st) m"
    by (simp add: trackLocked_def key_def st_def Let_def)
  have old: "(case mget m key of None \<Rightarrow> 0 | Some w \<Rightarrow> g w) = g st" if "g zero_stat = 0" for g :: "stat \<Rightarrow> int"
    using that by (simp add: st_def split: option.split)
  have old': "(case mget m key of None \<Rightarrow> 0 | Some w \<Rightarrow> g w) = g st" if "g zero_stat = 0" for g :: "stat \<Rightarrow> real"
    using that by (simp add: st_def split: option.split)
  let ?T = "sum_list (map (s_Tokens \<circ> snd) m)"
  have "wrap64 (?T + wrap64 (s_Tokens st + t) - s_Tokens st) = wrap64 (wrap64 ?T + t)"
    using wrap64_add_left [of "s_Tokens st + t" "?T - s_Tokens st"] wrap64_add_left [of ?T t]
    by (simp add: algebra_simps)
  then show ?thesis
    by (simp add: sum_stats_def track sum_mput [OF assms] old old' zero_stat_def stat_add_def)
qed

lemma track_wf: "mwf m \<Longrightarrow> mwf (trackLocked k t c m)"
  by (simp add: trackLocked_def Let_def)

lemma track_len:
  assumes "mwf m" "mlen m \<le> Suc maxTracked" "mget m overflowKey = None \<Longrightarrow> mlen m \<le> maxTracked"
  shows "mlen (trackLocked k t c m) \<le> Suc maxTracked"
    and "mget (trackLocked k t c m) overflowKey = None \<Longrightarrow> mlen (trackLocked k t c m) \<le> maxTracked"
proof -
  define key where "key = (if mget m k = None \<and> mlen m \<ge> maxTracked then overflowKey else k)"
  obtain v where v: "trackLocked k t c m = mput key v m" by (auto simp: trackLocked_def key_def Let_def)
  show "mlen (trackLocked k t c m) \<le> Suc maxTracked"
    "mget (trackLocked k t c m) overflowKey = None \<Longrightarrow> mlen (trackLocked k t c m) \<le> maxTracked"
    using assms unfolding v
    by (cases "mget m key"; auto simp: gm.len_put_new gm.len_put_old key_def split: if_splits)+
qed

definition ledger_ok :: "ledger \<Rightarrow> bool" where
  "ledger_ok l \<longleftrightarrow> mwf (lg_byUser l) \<and> mwf (lg_byRun l)
     \<and> mlen (lg_byUser l) \<le> Suc maxTracked \<and> (mget (lg_byUser l) overflowKey = None \<longrightarrow> mlen (lg_byUser l) \<le> maxTracked)
     \<and> mlen (lg_byRun l) \<le> Suc maxTracked \<and> (mget (lg_byRun l) overflowKey = None \<longrightarrow> mlen (lg_byRun l) \<le> maxTracked)
     \<and> length (lg_recent l) = recentRing"

lemma ledger_New_ok: "ledger_ok ledger_New"
  by (simp add: ledger_ok_def ledger_New_def)

lemma ledger_Record_ok: "ledger_ok l \<Longrightarrow> ledger_ok (ledger_Record r l)"
  by (simp add: ledger_ok_def ledger_Record_def Let_def track_wf track_len)

lemma ledger_run_ok: "ledger_ok l \<Longrightarrow> ledger_ok (fold ledger_Record rs l)"
  by (induction rs arbitrary: l) (simp_all add: ledger_Record_ok)

lemma ledger_run_stats:
  assumes "ledger_ok l"
  shows "lg_total (fold ledger_Record rs l) = fold (\<lambda>r. stat_add (record_tokens r) (lr_CostUSD r)) rs (lg_total l)"
    and "sum_stats (lg_byUser (fold ledger_Record rs l)) =
      fold (\<lambda>r. stat_add (record_tokens r) (lr_CostUSD r)) rs (sum_stats (lg_byUser l))"
    and "sum_stats (lg_byRun (fold ledger_Record rs l)) =
      fold (\<lambda>r. stat_add (record_tokens r) (lr_CostUSD r)) (filter (\<lambda>r. lr_RunID r \<noteq> []) rs) (sum_stats (lg_byRun l))"
  using assms
proof (induction rs arbitrary: l)
  case (Cons r rs)
  have wf: "mwf (lg_byUser l)" "mwf (lg_byRun l)" if "ledger_ok l" for l using that by (simp_all add: ledger_ok_def)
  {
    case 1
    with Cons.IH(1) [OF ledger_Record_ok] show ?case by (simp add: ledger_Record_def Let_def)
  next
    case 2
    with Cons.IH(2) [OF ledger_Record_ok] wf show ?case by (simp add: sum_stats_track ledger_Record_def Let_def)
  next
    case 3
    with Cons.IH(3) [OF ledger_Record_ok] wf show ?case by (simp add: sum_stats_track ledger_Record_def Let_def)
  }
qed simp_all

lemma fold_stat_add:
  "s_Requests (fold (\<lambda>r. stat_add (f r) (g r)) rs s) = s_Requests s + int (length rs)"
  "s_CostUSD (fold (\<lambda>r. stat_add (f r) (g r)) rs s) = s_CostUSD s + sum_list (map g rs)"
  by (induction rs arbitrary: s) (simp_all add: stat_add_def)

text \<open>
  C22. Spend is always attributed. After any sequence of records, the totals count every record once and sum its
  cost, the by-client map sums to the totals in every column (requests, tokens modulo 64-bit wrap-around, dollars)
  although clients past the cap fold into the overflow bucket, the by-run map sums to the records that carry a
  run, and neither map holds more than \<open>maxTracked + 1\<close> keys.
\<close>
theorem ledger_reconciles:
  "let l = fold ledger_Record rs ledger_New in
     s_Requests (lg_total l) = int (length rs) \<and> s_CostUSD (lg_total l) = sum_list (map lr_CostUSD rs) \<and>
     sum_stats (lg_byUser l) = lg_total l \<and>
     s_Requests (sum_stats (lg_byRun l)) = int (length (filter (\<lambda>r. lr_RunID r \<noteq> []) rs)) \<and>
     s_CostUSD (sum_stats (lg_byRun l)) = sum_list (map lr_CostUSD (filter (\<lambda>r. lr_RunID r \<noteq> []) rs)) \<and>
     mlen (lg_byUser l) \<le> 20001 \<and> mlen (lg_byRun l) \<le> 20001"
proof -
  have zero: "sum_stats [] = zero_stat" by (simp add: sum_stats_def zero_stat_def wrap64_def)
  have "mlen (lg_byUser (fold ledger_Record rs ledger_New)) \<le> 20001"
    "mlen (lg_byRun (fold ledger_Record rs ledger_New)) \<le> 20001"
    using ledger_run_ok [OF ledger_New_ok, of rs] by (simp_all add: ledger_ok_def maxTracked_def)
  then show ?thesis
    by (simp add: ledger_run_stats [OF ledger_New_ok] fold_stat_add Let_def)
      (simp add: ledger_New_def zero zero_stat_def)
qed

section \<open>Recent events\<close>

definition ring_holds :: "lrecord list \<Rightarrow> ledger \<Rightarrow> bool" where
  "ring_holds rs l \<longleftrightarrow> lg_recentN l = length rs \<and> length (lg_recent l) = recentRing \<and>
     (\<forall>i < min (length rs) recentRing. lg_recent l ! ((length rs - 1 - i) mod recentRing) = event_of (rev rs ! i))"

lemma mod_recent_inj:
  fixes n i :: nat
  assumes "0 < i" "i < k" "i \<le> n"
  shows "(n - i) mod k \<noteq> n mod k"
proof
  assume "(n - i) mod k = n mod k"
  then have "k dvd n - (n - i)" using mod_eq_dvd_iff_nat [of "n - i" n k] by (metis diff_le_self)
  then show False using assms by (simp add: nat_dvd_not_less)
qed

lemma ring_holds_Record:
  assumes "ring_holds rs l"
  shows "ring_holds (rs @ [r]) (ledger_Record r l)"
proof -
  have N: "lg_recentN l = length rs" "length (lg_recent l) = recentRing" and pos: "0 < recentRing"
    using assms by (simp_all add: ring_holds_def recentRing_def)
  have "lg_recent (ledger_Record r l) ! ((length (rs @ [r]) - 1 - i) mod recentRing) = event_of (rev (rs @ [r]) ! i)"
    if i: "i < min (length (rs @ [r])) recentRing" for i
  proof (cases i)
    case 0
    then show ?thesis using pos by (simp add: ledger_Record_def Let_def N)
  next
    case (Suc j)
    then have "(length rs - Suc j) mod recentRing \<noteq> length rs mod recentRing"
      using i by (intro mod_recent_inj) auto
    moreover have "lg_recent l ! ((length rs - 1 - j) mod recentRing) = event_of (rev rs ! j)"
      using assms i Suc by (simp add: ring_holds_def)
    ultimately show ?thesis using Suc by (simp add: ledger_Record_def Let_def N)
  qed
  then show ?thesis by (simp add: ring_holds_def ledger_Record_def Let_def N)
qed

lemma ring_holds_run: "ring_holds rs (fold ledger_Record rs ledger_New)"
proof (induction rs rule: rev_induct)
  case Nil
  then show ?case by (simp add: ring_holds_def ledger_New_def)
next
  case (snoc r rs)
  then show ?case using ring_holds_Record by simp
qed

text \<open>
  The dashboard shows the newest events. After any sequence of records the snapshot's recent list is exactly
  the last two hundred of them, newest first, whatever was overwritten in the ring before.
\<close>
theorem recent_is_log_suffix:
  "sn_Recent (ledger_Snapshot n (fold ledger_Record rs ledger_New)) = take 200 (map event_of (rev rs))"
proof -
  let ?l = "fold ledger_Record rs ledger_New"
  have h: "ring_holds rs ?l" by (rule ring_holds_run)
  show ?thesis
  proof (rule nth_equalityI)
    show "length (sn_Recent (ledger_Snapshot n ?l)) = length (take 200 (map event_of (rev rs)))"
      using h by (simp add: ledger_Snapshot_def recentLocked_def ring_holds_def recentRing_def min.commute)
    fix i
    assume "i < length (sn_Recent (ledger_Snapshot n ?l))"
    then show "sn_Recent (ledger_Snapshot n ?l) ! i = take 200 (map event_of (rev rs)) ! i"
      using h by (simp add: ledger_Snapshot_def recentLocked_def ring_holds_def Let_def) (simp add: recentRing_def)
  qed
qed

text \<open>The top list is the head of the sorted list: nobody omitted spends more than anybody shown.\<close>

lemma topN_head:
  assumes "x \<in> set (topN all n)" "y \<in> set all" "y \<notin> set (topN all n)"
  shows "s_CostUSD (ns_Stat y) \<le> s_CostUSD (ns_Stat x)"
proof -
  let ?s = "sort_key (\<lambda>s :: namedStat. (- s_CostUSD (ns_Stat s), ns_Name s)) all"
  have top: "topN all n = take (nat n) ?s" "0 < n"
    using assms(2,3) by (auto simp: topN_def Let_def split: if_splits)
  define f where "f = (\<lambda>s :: namedStat. (- s_CostUSD (ns_Stat s), ns_Name s))"
  have y: "y \<in> set (drop (nat n) ?s)"
  proof -
    have "set ?s = set (take (nat n) ?s) \<union> set (drop (nat n) ?s)"
      by (simp only: set_append [symmetric] append_take_drop_id)
    moreover have "y \<in> set ?s" using assms(2) by (simp only: set_sort)
    ultimately show ?thesis using assms(3) unfolding top(1) by blast
  qed
  have "sorted (map f (take (nat n) ?s @ drop (nat n) ?s))"
    unfolding append_take_drop_id f_def by (rule sorted_sort_key)
  then have "\<forall>a\<in>set (map f (take (nat n) ?s)). \<forall>b\<in>set (map f (drop (nat n) ?s)). a \<le> b"
    unfolding map_append sorted_append by (elim conjE)
  moreover have "f x \<in> set (map f (take (nat n) ?s))" using assms(1) unfolding top(1) set_map by (rule imageI)
  moreover have "f y \<in> set (map f (drop (nat n) ?s))" using y unfolding set_map by (rule imageI)
  ultimately have "f x \<le> f y" by blast
  then have "fst (f x) \<le> fst (f y)" unfolding less_eq_prod_def by linarith
  then show ?thesis by (simp add: f_def)
qed

end
