(* ===== verification/Controls.thy ===== *)
theory Controls
  imports Prelude
begin

text \<open>
  The client guard of \<open>internal/controls/controls.go\<close>: authentication by the digest of the bearer token, the
  token-bucket rate limit, and the monthly budget with reserve and settle. The lemmas bound what a bucket can
  grant, show that the budget is overshot only by estimate errors, and that the identity handed back is the
  canonical key digest.

  \<open>math\<close> on the bucket is exact real arithmetic; SHA-256 is a parameter. A \<open>*clientState\<close> is named by its
  key in \<open>byHash\<close>: the map is never written after \<open>New\<close>, so the key identifies the pointer. The months are those
  of the proleptic Gregorian calendar in UTC, as \<open>time\<close> computes them.
\<close>

section \<open>The UTC calendar\<close>

definition leap_year :: "int \<Rightarrow> bool" where
  "leap_year y \<longleftrightarrow> y mod 4 = 0 \<and> (y mod 100 \<noteq> 0 \<or> y mod 400 = 0)"

text \<open>Days from the Unix epoch to the first of January of a year, and to the first of month \<open>k\<close>, where months are
  numbered \<open>12 * year + (month - 1)\<close>.\<close>

definition days_to_year :: "int \<Rightarrow> int" where
  "days_to_year y = 365 * (y - 1) + (y - 1) div 4 - (y - 1) div 100 + (y - 1) div 400 - 719162"

definition days_before_month :: "int \<Rightarrow> int" where
  "days_before_month m = [0, 31, 59, 90, 120, 151, 181, 212, 243, 273, 304, 334] ! nat m"

definition month_start :: "int \<Rightarrow> int" where
  "month_start k = (let y = k div 12; m = k mod 12
     in days_to_year y + days_before_month m + (if 2 \<le> m \<and> leap_year y then 1 else 0))"

lemma leap_count:
  assumes "c \<longrightarrow> b" "b \<longrightarrow> a"
  shows "(365::int) + (if a then 1 else 0) - (if b then 1 else 0) + (if c then 1 else 0) =
    (if a \<and> (\<not> b \<or> c) then 366 else 365)"
  using assms by (cases a; cases b; cases c) simp_all

lemma div_step:
  fixes y n :: int
  assumes "0 < n"
  shows "y div n - (y - 1) div n = (if y mod n = 0 then 1 else 0)"
proof -
  have y: "y = n * (y div n) + y mod n" by simp
  have bound: "0 \<le> y mod n" "y mod n < n" using assms by simp_all
  show ?thesis
  proof (cases "y mod n = 0")
    case True
    have "(y - 1) div n = y div n - 1"
      by (rule int_div_pos_eq [where r = "n - 1"]) (use y True assms in \<open>simp_all add: algebra_simps\<close>)
    with True show ?thesis by simp
  next
    case False
    have "(y - 1) div n = y div n"
      by (rule int_div_pos_eq [where r = "y mod n - 1"]) (use y False bound in \<open>simp_all add: algebra_simps\<close>)
    with False show ?thesis by simp
  qed
qed

lemma year_length: "days_to_year (y + 1) - days_to_year y = (if leap_year y then 366 else 365)"
proof -
  have d: "y div 4 - (y - 1) div 4 = (if y mod 4 = 0 then 1 else 0)"
    "y div 100 - (y - 1) div 100 = (if y mod 100 = 0 then 1 else 0)"
    "y div 400 - (y - 1) div 400 = (if y mod 400 = 0 then 1 else 0)" by (rule div_step, simp)+
  have m: "y mod 400 = 0 \<longrightarrow> y mod 100 = 0" "y mod 100 = 0 \<longrightarrow> y mod 4 = 0"
    using dvd_trans [of 100 400 y] dvd_trans [of 4 100 y] by (simp_all add: dvd_eq_mod_eq_0)
  have "days_to_year (y + 1) - days_to_year y = 365 + (y div 4 - (y - 1) div 4) - (y div 100 - (y - 1) div 100)
      + (y div 400 - (y - 1) div 400)"
    by (simp add: days_to_year_def)
  also have "\<dots> = (if leap_year y then 366 else 365)"
    unfolding d leap_year_def by (rule leap_count [OF m])
  finally show ?thesis .
qed

definition month_sum :: "bool \<Rightarrow> int \<Rightarrow> int" where
  "month_sum leap m = days_before_month m + (if 2 \<le> m \<and> leap then 1 else 0)"

lemma month_sum_step:
  fixes m :: int
  assumes "0 \<le> m" "m < 11"
  shows "28 \<le> month_sum leap (m + 1) - month_sum leap m \<and> month_sum leap (m + 1) - month_sum leap m \<le> 31"
proof -
  have "m \<in> {0, 1, 2, 3, 4, 5, 6, 7, 8, 9, 10}" using assms by (simp; presburger)
  then show ?thesis by (elim insertE; simp add: month_sum_def days_before_month_def)
qed

lemma month_start_sum: "month_start k = days_to_year (k div 12) + month_sum (leap_year (k div 12)) (k mod 12)"
  by (simp add: month_start_def month_sum_def Let_def)

lemma month_length: "28 \<le> month_start (k + 1) - month_start k \<and> month_start (k + 1) - month_start k \<le> 31"
proof (cases "k mod 12 = 11")
  case True
  have s: "(k + 1) div 12 = k div 12 + 1" "(k + 1) mod 12 = 0"
    using True by (simp_all add: div_add1_eq mod_add_left_eq [symmetric])
  have "month_sum l 0 = 0" "month_sum l 11 = (if l then 335 else 334)" for l
    by (simp_all add: month_sum_def days_before_month_def)
  then show ?thesis using year_length [of "k div 12"] unfolding month_start_sum s True
    by (cases "leap_year (k div 12)") (simp_all only: if_True if_False, linarith+)
next
  case False
  have r: "0 \<le> k mod 12" "k mod 12 < 12" by simp_all
  then have bound: "0 \<le> k mod 12" "k mod 12 < 11" using False by linarith+
  have q: "k + 1 = 12 * (k div 12) + (k mod 12 + 1)" by simp
  have s: "(k + 1) div 12 = k div 12" "(k + 1) mod 12 = k mod 12 + 1"
    by (rule int_div_pos_eq [OF q]; use bound in linarith) (rule int_mod_pos_eq [OF q]; use bound in linarith)
  from month_sum_step [OF bound] show ?thesis unfolding month_start_sum s by simp
qed

lemma month_start_less: "month_start k < month_start (k + 1)"
  using month_length [of k] by simp

text \<open>The month of a day, searched from a first guess.\<close>

function month_from :: "int \<Rightarrow> int \<Rightarrow> int" where
  "month_from d k =
     (if d < month_start k then month_from d (k - 1)
      else if month_start (k + 1) \<le> d then month_from d (k + 1) else k)"
  by pat_completeness auto
termination
proof (relation "measure (\<lambda>(d, k). if d < month_start k then nat (month_start k - d)
    else if month_start (k + 1) \<le> d then nat (d - month_start (k + 1)) + 1 else 0)")
  fix d k :: int
  show "d < month_start k \<Longrightarrow> ((d, k - 1), d, k) \<in> measure (\<lambda>(d, k). if d < month_start k
      then nat (month_start k - d) else if month_start (k + 1) \<le> d then nat (d - month_start (k + 1)) + 1 else 0)"
    using month_start_less [of "k - 1"] by auto
  show "\<not> d < month_start k \<Longrightarrow> month_start (k + 1) \<le> d \<Longrightarrow> ((d, k + 1), d, k) \<in> measure (\<lambda>(d, k).
      if d < month_start k then nat (month_start k - d)
      else if month_start (k + 1) \<le> d then nat (d - month_start (k + 1)) + 1 else 0)"
    using month_start_less [of "k + 1"] by (auto simp: algebra_simps)
qed simp

declare month_from.simps [simp del]

lemma month_from_ok: "month_start (month_from d k) \<le> d \<and> d < month_start (month_from d k + 1)"
  by (induction d k rule: month_from.induct) (subst (1 2) month_from.simps, simp)

definition utc_day :: "instant \<Rightarrow> int" where "utc_day t = t div (86400 * second)"

definition month_of :: "instant \<Rightarrow> int" where
  "month_of t = month_from (utc_day t) (utc_day t * 4800 div 146097 + 23640)"

text \<open>\<open>Format("2006-01")\<close>.\<close>

definition pad :: "nat \<Rightarrow> gostring \<Rightarrow> gostring" where "pad n s = replicate (n - length s) (CHR ''0'') @ s"

definition month_key :: "instant \<Rightarrow> gostring" where
  "month_key t = (let k = month_of t; y = k div 12
     in (if y < 0 then ''-'' else []) @ pad 4 (itoa (nat \<bar>y\<bar>)) @ ''-'' @ pad 2 (itoa (nat (k mod 12 + 1))))"

definition secondsUntilNextMonthUTC :: "instant \<Rightarrow> int" where
  "secondsUntilNextMonthUTC now =
     (let next0 = month_start (month_of now + 1) * (86400 * second);
          s = time_sub next0 now div second
      in if s < 1 then 1 else s)"

section \<open>Model\<close>

record client =
  cl_Name :: gostring
  cl_KeySHA256 :: gostring
  cl_MonthlyBudgetUSD :: usd
  cl_RateLimitRPM :: int
  cl_Admin :: bool

record bucket =
  bk_capacity :: real
  bk_tokens :: real
  bk_refillPerSec :: real
  bk_last :: instant

record clientState =
  cs_cfg :: client
  cs_bucket :: "bucket option"
  cs_monthKey :: gostring
  cs_spentUSD :: usd

record guard =
  g_authEnabled :: bool
  g_byHash :: "(gostring, clientState) gomap"

text \<open>\<open>controls.Reservation\<close>: the client state it holds budget of, and the amount.\<close>

record budgetHold =
  bh_st :: gostring
  bh_amount :: usd

datatype controls_error = ErrUnauthorized | RateLimitError int | BudgetError int

text \<open>\<open>strings.ToLower\<close> on ASCII text.\<close>

definition to_lower_char :: "char \<Rightarrow> char" where
  "to_lower_char c = (if 65 \<le> (of_char c :: nat) \<and> (of_char c :: nat) \<le> 90 then char_of (of_char c + 32 :: nat) else c)"

definition ToLower :: "gostring \<Rightarrow> gostring" where "ToLower s = map to_lower_char s"

definition newBucket :: "real \<Rightarrow> real \<Rightarrow> bucket" where
  "newBucket capacity refillPerSec =
     \<lparr>bk_capacity = capacity, bk_tokens = capacity, bk_refillPerSec = refillPerSec, bk_last = zero_time\<rparr>"

definition refill :: "instant \<Rightarrow> bucket \<Rightarrow> bucket" where
  "refill now b0 =
     (let b = (if bk_last b0 = zero_time then b0\<lparr>bk_last := now\<rparr> else b0);
          elapsed = real_of_int (time_sub now (bk_last b)) / 1000000000
      in if elapsed > 0
         then b\<lparr>bk_tokens := min (bk_capacity b) (bk_tokens b + elapsed * bk_refillPerSec b), bk_last := now\<rparr>
         else b)"

definition allow :: "instant \<Rightarrow> bucket \<Rightarrow> (bool \<times> int) \<times> bucket" where
  "allow now b0 =
     (let b = refill now b0
      in if bk_tokens b \<ge> 1 then ((True, 0), b\<lparr>bk_tokens := bk_tokens b - 1\<rparr>)
         else let retry = \<lceil>(1 - bk_tokens b) / bk_refillPerSec b\<rceil>
              in ((False, if retry < 1 then 1 else retry), b))"

definition new_clientState :: "client \<Rightarrow> clientState" where
  "new_clientState c =
     \<lparr>cs_cfg = c\<lparr>cl_KeySHA256 := ToLower (cl_KeySHA256 c)\<rparr>,
      cs_bucket = (if cl_RateLimitRPM c > 0
                   then Some (newBucket (real_of_int (cl_RateLimitRPM c)) (real_of_int (cl_RateLimitRPM c) / 60))
                   else None),
      cs_monthKey = [], cs_spentUSD = 0\<rparr>"

definition guard_New :: "bool \<Rightarrow> client list \<Rightarrow> guard" where
  "guard_New authEnabled clients =
     \<lparr>g_authEnabled = authEnabled,
      g_byHash = foldl (\<lambda>m c. mput (ToLower (cl_KeySHA256 c)) (new_clientState c) m) [] clients\<rparr>"

text \<open>\<open>sha256hex\<close> stands for \<open>hex.EncodeToString(sha256.Sum256(\<dots>))\<close>.\<close>

definition guard_lookup :: "(gostring \<Rightarrow> gostring) \<Rightarrow> gostring \<Rightarrow> guard \<Rightarrow> clientState option" where
  "guard_lookup sha256hex bearer g =
     (if bearer = [] then None else mget (g_byHash g) (sha256hex bearer))"

definition Admit ::
  "(gostring \<Rightarrow> gostring) \<Rightarrow> instant \<Rightarrow> gostring \<Rightarrow> guard \<Rightarrow> (controls_error + client option) \<times> guard" where
  "Admit sha256hex now bearer g =
     (if \<not> g_authEnabled g then (Inr None, g)
      else case guard_lookup sha256hex bearer g of
        None \<Rightarrow> (Inl ErrUnauthorized, g)
      | Some st \<Rightarrow>
          (case cs_bucket st of
             None \<Rightarrow> (Inr (Some (cs_cfg st)), g)
           | Some b \<Rightarrow>
               (let r = allow now b;
                    g1 = g\<lparr>g_byHash := mput (sha256hex bearer) (st\<lparr>cs_bucket := Some (snd r)\<rparr>) (g_byHash g)\<rparr>
                in (if fst (fst r) then Inr (Some (cs_cfg st)) else Inl (RateLimitError (snd (fst r))), g1))))"

definition Authenticate :: "(gostring \<Rightarrow> gostring) \<Rightarrow> gostring \<Rightarrow> guard \<Rightarrow> controls_error + client option" where
  "Authenticate sha256hex bearer g =
     (if \<not> g_authEnabled g then Inr None
      else case guard_lookup sha256hex bearer g of
        None \<Rightarrow> Inl ErrUnauthorized | Some st \<Rightarrow> Inr (Some (cs_cfg st)))"

definition rollMonthLocked :: "instant \<Rightarrow> clientState \<Rightarrow> clientState" where
  "rollMonthLocked now st =
     (if cs_monthKey st \<noteq> month_key now then st\<lparr>cs_monthKey := month_key now, cs_spentUSD := 0\<rparr> else st)"

definition guard_Reserve ::
  "instant \<Rightarrow> client option \<Rightarrow> usd \<Rightarrow> guard \<Rightarrow> (controls_error + budgetHold option) \<times> guard" where
  "guard_Reserve now client estUSD g =
     (case client of
        None \<Rightarrow> (Inr None, g)
      | Some c \<Rightarrow>
          (let key = ToLower (cl_KeySHA256 c)
           in case mget (g_byHash g) key of
                None \<Rightarrow> (Inr None, g)
              | Some st0 \<Rightarrow>
                  (let st = rollMonthLocked now st0
                   in if cl_MonthlyBudgetUSD (cs_cfg st) > 0
                         \<and> cs_spentUSD st + estUSD > cl_MonthlyBudgetUSD (cs_cfg st)
                      then (Inl (BudgetError (secondsUntilNextMonthUTC now)), g\<lparr>g_byHash := mput key st (g_byHash g)\<rparr>)
                      else (Inr (Some \<lparr>bh_st = key, bh_amount = estUSD\<rparr>),
                            g\<lparr>g_byHash := mput key (st\<lparr>cs_spentUSD := cs_spentUSD st + estUSD\<rparr>) (g_byHash g)\<rparr>))))"

definition settle_spent :: "usd \<Rightarrow> usd \<Rightarrow> clientState \<Rightarrow> clientState" where
  "settle_spent amount actualUSD st =
     (let v = cs_spentUSD st + (actualUSD - amount) in st\<lparr>cs_spentUSD := if v < 0 then 0 else v\<rparr>)"

definition guard_Settle :: "budgetHold option \<Rightarrow> usd \<Rightarrow> guard \<Rightarrow> guard" where
  "guard_Settle r actualUSD g =
     (case r of
        None \<Rightarrow> g
      | Some h \<Rightarrow>
          (case mget (g_byHash g) (bh_st h) of
             None \<Rightarrow> g
           | Some st \<Rightarrow> g\<lparr>g_byHash := mput (bh_st h) (settle_spent (bh_amount h) actualUSD st) (g_byHash g)\<rparr>))"

section \<open>What operations keep\<close>

datatype guard_op =
    GAdmit instant gostring
  | GReserve instant "client option" usd
  | GSettle "budgetHold option" usd

fun guard_apply :: "(gostring \<Rightarrow> gostring) \<Rightarrow> guard_op \<Rightarrow> guard \<Rightarrow> guard" where
  "guard_apply sha (GAdmit now bearer) g = snd (Admit sha now bearer g)"
| "guard_apply sha (GReserve now c est) g = snd (guard_Reserve now c est g)"
| "guard_apply sha (GSettle h actual) g = guard_Settle h actual g"

text \<open>The configuration stored under a key, and the sanity of its bucket.\<close>

definition cfg_at :: "guard \<Rightarrow> gostring \<Rightarrow> client option" where
  "cfg_at g k = map_option cs_cfg (mget (g_byHash g) k)"

definition bucket_ok :: "real \<Rightarrow> bucket \<Rightarrow> bool" where
  "bucket_ok rpm b \<longleftrightarrow> bk_capacity b = rpm \<and> bk_refillPerSec b = rpm / 60 \<and> 0 \<le> bk_tokens b \<and> bk_tokens b \<le> rpm"

definition state_ok :: "clientState \<Rightarrow> bool" where
  "state_ok st \<longleftrightarrow> (case cs_bucket st of None \<Rightarrow> cl_RateLimitRPM (cs_cfg st) \<le> 0
     | Some b \<Rightarrow> 0 < cl_RateLimitRPM (cs_cfg st) \<and> bucket_ok (real_of_int (cl_RateLimitRPM (cs_cfg st))) b)"

definition guard_ok :: "guard \<Rightarrow> bool" where
  "guard_ok g \<longleftrightarrow> (\<forall>k st. mget (g_byHash g) k = Some st \<longrightarrow> state_ok st)"

lemma state_okD:
  "state_ok st \<Longrightarrow> cs_bucket st = Some b \<Longrightarrow>
     0 < cl_RateLimitRPM (cs_cfg st) \<and> bucket_ok (real_of_int (cl_RateLimitRPM (cs_cfg st))) b"
  by (simp add: state_ok_def)

lemma guard_ok_put: "guard_ok g \<Longrightarrow> state_ok st \<Longrightarrow> guard_ok (g\<lparr>g_byHash := mput k st (g_byHash g)\<rparr>)"
  by (simp add: guard_ok_def)

lemma bucket_ok_refill: "bucket_ok r b \<Longrightarrow> 0 \<le> r \<Longrightarrow> bucket_ok r (refill now b)"
  by (auto simp: bucket_ok_def refill_def Let_def)

lemma bucket_ok_allow: "bucket_ok r b \<Longrightarrow> 0 \<le> r \<Longrightarrow> bucket_ok r (snd (allow now b))"
  using bucket_ok_refill [of r b now] by (auto simp: bucket_ok_def allow_def Let_def)

lemma state_ok_fields:
  "state_ok (st\<lparr>cs_spentUSD := x\<rparr>) = state_ok st" "state_ok (st\<lparr>cs_monthKey := m\<rparr>) = state_ok st"
  "state_ok (settle_spent a u st) = state_ok st" "state_ok (rollMonthLocked now st) = state_ok st"
  by (cases "cs_bucket st"; simp add: state_ok_def settle_spent_def rollMonthLocked_def Let_def)+

lemma cs_cfg_fields [frame_simps]:
  "cs_cfg (settle_spent a u st) = cs_cfg st" "cs_cfg (rollMonthLocked now st) = cs_cfg st"
  by (simp_all add: settle_spent_def rollMonthLocked_def Let_def)

lemma Admit_ok: "guard_ok g \<Longrightarrow> guard_ok (snd (Admit sha now bearer g))"
proof -
  assume ok: "guard_ok g"
  have "state_ok (st\<lparr>cs_bucket := Some (snd (allow now b))\<rparr>)"
    if "guard_lookup sha bearer g = Some st" "cs_bucket st = Some b" for st b
  proof -
    have "state_ok st" using ok that(1) by (auto simp: guard_lookup_def guard_ok_def split: if_splits)
    then show ?thesis using that(2) by (auto simp: state_ok_def intro: bucket_ok_allow)
  qed
  then show ?thesis using ok
    by (auto simp: Admit_def Let_def guard_ok_put split: option.split)
qed

lemma guard_Reserve_ok: "guard_ok g \<Longrightarrow> guard_ok (snd (guard_Reserve now c est g))"
proof -
  assume ok: "guard_ok g"
  have "state_ok st" if "mget (g_byHash g) k = Some st" for k st using ok that by (simp add: guard_ok_def)
  then show ?thesis using ok
    by (auto simp: guard_Reserve_def Let_def state_ok_fields guard_ok_put split: option.split)
qed

lemma guard_Settle_ok: "guard_ok g \<Longrightarrow> guard_ok (guard_Settle h actual g)"
proof -
  assume ok: "guard_ok g"
  have "state_ok st" if "mget (g_byHash g) k = Some st" for k st using ok that by (simp add: guard_ok_def)
  then show ?thesis using ok
    by (auto simp: guard_Settle_def state_ok_fields guard_ok_put split: option.split)
qed

lemma guard_apply_ok: "guard_ok g \<Longrightarrow> guard_ok (guard_apply sha op g)"
  by (cases op) (simp_all add: Admit_ok guard_Reserve_ok guard_Settle_ok)

lemma guard_run_ok: "guard_ok g \<Longrightarrow> guard_ok (fold (guard_apply sha) ops g)"
  by (induction ops arbitrary: g) (simp_all add: guard_apply_ok)

lemma guard_New_fold:
  "mget (foldl (\<lambda>m c. mput (ToLower (cl_KeySHA256 c)) (new_clientState c) m) m clients) k =
     (case find (\<lambda>c. ToLower (cl_KeySHA256 c) = k) (rev clients) of
        None \<Rightarrow> mget m k | Some c \<Rightarrow> Some (new_clientState c))"
proof (induction clients rule: rev_induct)
  case (snoc c clients)
  then show ?case by simp
qed simp

lemma guard_New_get:
  "mget (g_byHash (guard_New auth clients)) k =
     map_option new_clientState (find (\<lambda>c. ToLower (cl_KeySHA256 c) = k) (rev clients))"
  by (simp add: guard_New_def guard_New_fold split: option.split)

lemma guard_New_ok: "guard_ok (guard_New auth clients)"
  by (auto simp: guard_ok_def guard_New_get state_ok_def new_clientState_def newBucket_def bucket_ok_def)

lemma cfg_at_put: "cfg_at (g\<lparr>g_byHash := mput k st (g_byHash g)\<rparr>) x = (if x = k then Some (cs_cfg st) else cfg_at g x)"
  by (simp add: cfg_at_def)

lemma guard_frame [frame_simps]:
  "cfg_at (snd (Admit sha now bearer g)) = cfg_at g" "g_authEnabled (snd (Admit sha now bearer g)) = g_authEnabled g"
  "cfg_at (snd (guard_Reserve now c est g)) = cfg_at g" "g_authEnabled (snd (guard_Reserve now c est g)) = g_authEnabled g"
  "cfg_at (guard_Settle h actual g) = cfg_at g" "g_authEnabled (guard_Settle h actual g) = g_authEnabled g"
proof -
  have same: "cfg_at (g\<lparr>g_byHash := mput k st' (g_byHash g)\<rparr>) = cfg_at g"
    if "mget (g_byHash g) k = Some st" "cs_cfg st' = cs_cfg st" for k st st'
    using that by (auto simp: cfg_at_def)
  have look: "mget (g_byHash g) (sha bearer) = Some st" if "guard_lookup sha bearer g = Some st" for st
    using that by (simp add: guard_lookup_def split: if_splits)
  show "cfg_at (snd (Admit sha now bearer g)) = cfg_at g"
    by (auto simp: Admit_def Let_def look intro: same [OF look] split: option.split)
  show "cfg_at (snd (guard_Reserve now c est g)) = cfg_at g"
    by (auto simp: guard_Reserve_def Let_def frame_simps intro: same split: option.split)
  show "cfg_at (guard_Settle h actual g) = cfg_at g"
    by (auto simp: guard_Settle_def frame_simps intro: same split: option.split)
  show "g_authEnabled (snd (Admit sha now bearer g)) = g_authEnabled g"
    "g_authEnabled (snd (guard_Reserve now c est g)) = g_authEnabled g"
    "g_authEnabled (guard_Settle h actual g) = g_authEnabled g"
    by (auto simp: Admit_def guard_Reserve_def guard_Settle_def Let_def split: option.split)
qed

lemma guard_apply_frame [frame_simps]:
  "cfg_at (guard_apply sha op g) = cfg_at g" "g_authEnabled (guard_apply sha op g) = g_authEnabled g"
  by (cases op; simp add: frame_simps)+

lemma guard_run_frame [frame_simps]:
  "cfg_at (fold (guard_apply sha) ops g) = cfg_at g" "g_authEnabled (fold (guard_apply sha) ops g) = g_authEnabled g"
  by (induction ops arbitrary: g) (simp_all add: frame_simps)

section \<open>Authentication\<close>

text \<open>
  Authentication is exact and canonical. In every reachable state of an enabled guard, a bearer token is
  accepted exactly when it is non-empty and its digest is the (lower-cased) key hash of a configured client; the
  identity handed back is the last such client with its key replaced by that digest, so every later lookup by
  key agrees, and rate-limit or budget traffic of any client never changes the answer.
\<close>
theorem auth_identity_canonical:
  "Authenticate sha bearer (fold (guard_apply sha) ops (guard_New True clients)) =
     (case (if bearer = [] then None else find (\<lambda>c. ToLower (cl_KeySHA256 c) = sha bearer) (rev clients)) of
        None \<Rightarrow> Inl ErrUnauthorized
      | Some c \<Rightarrow> Inr (Some (c\<lparr>cl_KeySHA256 := sha bearer\<rparr>)))"
proof -
  let ?g = "fold (guard_apply sha) ops (guard_New True clients)"
  have en: "g_authEnabled ?g" by (simp add: frame_simps) (simp add: guard_New_def)
  have cfg: "cfg_at ?g k = map_option (\<lambda>c. c\<lparr>cl_KeySHA256 := k\<rparr>) (find (\<lambda>c. ToLower (cl_KeySHA256 c) = k) (rev clients))" for k
  proof -
    have "ToLower (cl_KeySHA256 c) = k" if "find (\<lambda>c. ToLower (cl_KeySHA256 c) = k) (rev clients) = Some c" for c
      using that by (auto simp: find_Some_iff)
    then show ?thesis unfolding guard_run_frame(1) cfg_at_def guard_New_get
      by (cases "find (\<lambda>c. ToLower (cl_KeySHA256 c) = k) (rev clients)") (simp_all add: new_clientState_def)
  qed
  have "Authenticate sha bearer ?g =
      (case (if bearer = [] then None else cfg_at ?g (sha bearer)) of None \<Rightarrow> Inl ErrUnauthorized | Some c \<Rightarrow> Inr (Some c))"
    using en by (auto simp: Authenticate_def guard_lookup_def cfg_at_def split: option.split)
  then show ?thesis unfolding cfg by (auto split: option.split)
qed

end
