(* ===== verification/ControlsLimits.thy ===== *)
theory ControlsLimits
  imports Controls
begin

text \<open>
  What the limits of the client guard promise: the token bucket's rate bound and retry hint, by a potential
  function on the bucket, and the accounting of the monthly budget over sequences of reservations and settlements.
\<close>

section \<open>The rate limit\<close>

text \<open>How many requests whose token has digest \<open>k\<close> a sequence of requests gets admitted.\<close>

fun granted :: "(gostring \<Rightarrow> gostring) \<Rightarrow> gostring \<Rightarrow> (instant \<times> gostring) list \<Rightarrow> guard \<Rightarrow> nat" where
  "granted sha k [] g = 0"
| "granted sha k ((now, bearer) # reqs) g =
     (let r = Admit sha now bearer g
      in (if bearer \<noteq> [] \<and> sha bearer = k \<and> (\<exists>c. fst r = Inr c) then 1 else 0) + granted sha k reqs (snd r))"

text \<open>What a bucket can still grant to calls between \<open>a\<close> and \<open>e\<close>.\<close>

definition potential :: "instant \<Rightarrow> instant \<Rightarrow> real \<Rightarrow> bucket \<Rightarrow> real" where
  "potential a e r b =
     (if bk_last b < a then r + r / 60 * (real_of_int (e - a) / 1000000000)
      else bk_tokens b + r / 60 * (real_of_int (max 0 (e - bk_last b)) / 1000000000))"

lemma potential_refill:
  assumes "bucket_ok r b" "0 \<le> r" "zero_time < a" "a \<le> now" "now \<le> e"
  shows "potential a e r (refill now b) \<le> potential a e r b \<and> a \<le> bk_last (refill now b)"
proof (cases "bk_last b < a")
  case True
  have last: "bk_last (refill now b) = now" and tok: "bk_tokens (refill now b) \<le> r"
    using True assms by (auto simp: refill_def time_sub_def bucket_ok_def Let_def)
  have "r / 60 * (real_of_int (e - now) / 1000000000) \<le> r / 60 * (real_of_int (e - a) / 1000000000)"
    using assms by (intro mult_left_mono) simp_all
  then show ?thesis using True last tok assms by (simp add: potential_def)
next
  case False
  show ?thesis
  proof (cases "time_sub now (bk_last b) > 0")
    case True
    then have "bk_last b < now" by (simp add: time_sub_def)
    have "real_of_int (time_sub now (bk_last b)) \<le> real_of_int (now - bk_last b)"
      using True by (simp add: time_sub_def)
    then have "real_of_int (time_sub now (bk_last b)) / 1000000000 * (r / 60) \<le>
        real_of_int (now - bk_last b) / 1000000000 * (r / 60)"
      using assms by (intro mult_right_mono divide_right_mono) simp_all
    moreover have "r / 60 * (real_of_int (e - bk_last b) / 1000000000) =
        r / 60 * (real_of_int (e - now) / 1000000000) + real_of_int (now - bk_last b) / 1000000000 * (r / 60)"
      by (simp add: field_simps)
    moreover have "bk_last (refill now b) = now"
      and tok: "bk_tokens (refill now b) =
        min (bk_capacity b) (bk_tokens b + real_of_int (time_sub now (bk_last b)) / 1000000000 * bk_refillPerSec b)"
      using True False assms by (auto simp: refill_def Let_def)
    moreover have "bk_refillPerSec b = r / 60" using assms(1) by (simp only: bucket_ok_def)
    then have "bk_tokens (refill now b) \<le> bk_tokens b + real_of_int (time_sub now (bk_last b)) / 1000000000 * (r / 60)"
      unfolding tok by (simp only: min.cobounded2)
    moreover have "potential a e r (refill now b) =
        bk_tokens (refill now b) + r / 60 * (real_of_int (e - now) / 1000000000)"
      using calculation(3) assms by (simp add: potential_def)
    moreover have "potential a e r b = bk_tokens b + r / 60 * (real_of_int (e - bk_last b) / 1000000000)"
      using False \<open>bk_last b < now\<close> assms by (simp add: potential_def)
    ultimately show ?thesis using assms(4) by linarith
  next
    case stale: False
    then show ?thesis using False assms by (simp add: refill_def Let_def)
  qed
qed

lemma potential_allow:
  assumes "bucket_ok r b" "0 \<le> r" "zero_time < a" "a \<le> now" "now \<le> e"
  shows "(if fst (fst (allow now b)) then 1 else 0) + potential a e r (snd (allow now b)) \<le> potential a e r b"
  using potential_refill [OF assms] by (auto simp: allow_def Let_def potential_def)

lemma potential_le:
  assumes "bucket_ok r b" "0 \<le> r" "a \<le> e"
  shows "potential a e r b \<le> r + r / 60 * (real_of_int (e - a) / 1000000000)"
proof (cases "bk_last b < a")
  case False
  have "r / 60 * (real_of_int (max 0 (e - bk_last b)) / 1000000000) \<le> r / 60 * (real_of_int (e - a) / 1000000000)"
    using False assms by (intro mult_left_mono divide_right_mono) simp_all
  then show ?thesis using False assms by (simp add: potential_def bucket_ok_def)
qed (simp add: potential_def)

lemma potential_nonneg: "bucket_ok r b \<Longrightarrow> 0 \<le> r \<Longrightarrow> a \<le> e \<Longrightarrow> 0 \<le> potential a e r b"
  by (simp add: potential_def bucket_ok_def)

lemma granted_potential:
  assumes "guard_ok g" "g_authEnabled g" "mget (g_byHash g) k = Some st" "cs_bucket st = Some b"
    and "\<forall>(now, bearer)\<in>set reqs. a \<le> now \<and> now \<le> e" "zero_time < a" "a \<le> e"
  shows "real (granted sha k reqs g) \<le> potential a e (real_of_int (cl_RateLimitRPM (cs_cfg st))) b"
  using assms
proof (induction reqs arbitrary: g st b)
  case Nil
  then have "state_ok st" by (simp add: guard_ok_def)
  then show ?case using Nil state_okD [of st b] by (simp add: potential_nonneg)
next
  case (Cons req reqs)
  obtain now bearer where req: "req = (now, bearer)" by (cases req)
  let ?r = "real_of_int (cl_RateLimitRPM (cs_cfg st))"
  let ?g = "snd (Admit sha now bearer g)"
  have ok: "guard_ok ?g" "g_authEnabled ?g" using Cons.prems(1,2) by (simp_all add: Admit_ok frame_simps)
  have "state_ok st" using Cons.prems(1,3) by (simp add: guard_ok_def)
  then have b: "bucket_ok ?r b" "0 \<le> ?r" using state_okD [of st b] Cons.prems(4) by simp_all
  have now: "a \<le> now" "now \<le> e" using Cons.prems(5) by (auto simp: req)
  have rest: "\<forall>(now, bearer)\<in>set reqs. a \<le> now \<and> now \<le> e" using Cons.prems(5) by simp
  show ?case
  proof (cases "bearer \<noteq> [] \<and> sha bearer = k")
    case True
    then have A: "Admit sha now bearer g =
        (if fst (fst (allow now b)) then Inr (Some (cs_cfg st)) else Inl (RateLimitError (snd (fst (allow now b)))),
         g\<lparr>g_byHash := mput k (st\<lparr>cs_bucket := Some (snd (allow now b))\<rparr>) (g_byHash g)\<rparr>)"
      using Cons.prems by (simp add: Admit_def guard_lookup_def Let_def)
    have "real (granted sha k reqs ?g) \<le> potential a e ?r (snd (allow now b))"
      using Cons.IH [OF ok _ _ rest Cons.prems(6,7), of "st\<lparr>cs_bucket := Some (snd (allow now b))\<rparr>"]
      by (simp add: A)
    then show ?thesis
      using potential_allow [OF b Cons.prems(6) now] True
      by (cases "fst (fst (allow now b))") (simp_all add: req A Let_def)
  next
    case False
    have "mget (g_byHash ?g) k = Some st"
      using False Cons.prems(3)
      by (auto simp: Admit_def guard_lookup_def Let_def split: option.split)
    from Cons.IH [OF ok this Cons.prems(4) rest Cons.prems(6,7)] show ?thesis
      using False by (auto simp: req Let_def)
  qed
qed

text \<open>
  C21. The rate limit bounds every interval. Whatever admissions, reservations and settlements of all clients came
  before, and however the requests of other clients interleave, the requests of one client admitted between two
  instants are at most its RPM (the burst) plus RPM per minute of the interval, even when the clock runs backwards.
\<close>
theorem rate_limit_bound:
  assumes "g = fold (guard_apply sha) ops (guard_New True clients)"
    and "mget (g_byHash g) k = Some st" "0 < cl_RateLimitRPM (cs_cfg st)"
    and "\<forall>(now, bearer)\<in>set reqs. a \<le> now \<and> now \<le> e" "zero_time < a" "a \<le> e"
  shows "real (granted sha k reqs g) \<le>
    real_of_int (cl_RateLimitRPM (cs_cfg st)) * (1 + real_of_int (e - a) / (60 * 1000000000))"
proof -
  let ?r = "real_of_int (cl_RateLimitRPM (cs_cfg st))"
  have ok: "guard_ok g" "g_authEnabled g"
    using assms(1) by (simp_all add: guard_run_ok guard_New_ok frame_simps) (simp add: guard_New_def)
  then have st: "state_ok st" using assms(2) by (simp add: guard_ok_def)
  then obtain b where b: "cs_bucket st = Some b" "bucket_ok ?r b"
    using assms(3) by (auto simp: state_ok_def split: option.splits)
  have "real (granted sha k reqs g) \<le> potential a e ?r b"
    by (rule granted_potential [OF ok assms(2) b(1) assms(4-6)])
  also have "\<dots> \<le> ?r + ?r / 60 * (real_of_int (e - a) / 1000000000)"
    using potential_le [OF b(2) _ assms(6)] assms(3) by simp
  finally show ?thesis by (simp add: algebra_simps)
qed

definition ex_client :: client where
  "ex_client = \<lparr>cl_Name = ''acme'', cl_KeySHA256 = ''AB'', cl_MonthlyBudgetUSD = 10, cl_RateLimitRPM = 2, cl_Admin = False\<rparr>"

lemma ex_client_state:
  "mget (g_byHash (guard_New True [ex_client])) ''ab'' = Some (new_clientState ex_client)"
  "cs_cfg (new_clientState ex_client) = ex_client\<lparr>cl_KeySHA256 := ''ab''\<rparr>"
proof -
  have "ToLower ''AB'' = ''ab''" by code_simp
  then show "mget (g_byHash (guard_New True [ex_client])) ''ab'' = Some (new_clientState ex_client)"
    "cs_cfg (new_clientState ex_client) = ex_client\<lparr>cl_KeySHA256 := ''ab''\<rparr>"
    by (simp_all add: guard_New_get new_clientState_def ex_client_def)
qed

theorem rate_limit_bound_witness:
  "real (granted (\<lambda>_. ''ab'') ''ab'' [(5, ''t''), (6, ''t''), (7, ''t'')] (guard_New True [ex_client]))
     \<le> 2 * (1 + real_of_int (9 - 5) / (60 * 1000000000))"
  using rate_limit_bound [of "guard_New True [ex_client]" "\<lambda>_. ''ab''" "[]" "[ex_client]" "''ab''" "new_clientState ex_client"
      "[(5, ''t''), (6, ''t''), (7, ''t'')]" 5 9]
  by (simp add: ex_client_state) (simp add: ex_client_def zero_time_def second_def)

text \<open>
  The retry hint is sufficient and small. A request the bucket of a client with limit \<open>r\<close> refuses gets a hint
  of at least one second and at most \<open>\<lceil>60 / r\<rceil>\<close>; a next request that waits at least that long is admitted.
\<close>
theorem retry_hint_sufficient:
  assumes "bucket_ok (real_of_int r) b" "0 < r" "bk_last b \<le> now" "zero_time < now"
    and "allow now b = ((False, wait), b')"
  shows "1 \<le> wait \<and> wait \<le> \<lceil>60 / real_of_int r\<rceil> \<and>
    (\<forall>later. now + wait * second \<le> later \<longrightarrow> fst (fst (allow later b')))"
proof -
  let ?r = "real_of_int r"
  have r: "0 \<le> ?r" "1 \<le> ?r" using assms(2) by simp_all
  have b': "b' = refill now b" "bk_tokens b' < 1"
    and wait0: "wait = max 1 \<lceil>(1 - bk_tokens b') / bk_refillPerSec b'\<rceil>"
    using assms(5) by (auto simp: allow_def Let_def split: if_splits)
  have ok: "bucket_ok ?r b'" using bucket_ok_refill [OF assms(1) r(1)] b'(1) by simp
  then have "bk_refillPerSec b' = ?r / 60" by (simp only: bucket_ok_def)
  then have wait: "wait = max 1 \<lceil>(1 - bk_tokens b') / (?r / 60)\<rceil>" using wait0 by (simp only:)
  have last: "bk_last b' = now"
    using assms(3) unfolding b'(1) by (auto simp: refill_def Let_def time_sub_def)
  have need: "(1 - bk_tokens b') / (?r / 60) \<le> real_of_int wait" unfolding wait by linarith
  have "(1 - bk_tokens b') / (?r / 60) \<le> 60 / ?r" using ok r by (simp add: bucket_ok_def field_simps)
  moreover have "1 \<le> \<lceil>60 / ?r\<rceil>" using r by (simp add: assms(2))
  ultimately have "wait \<le> \<lceil>60 / ?r\<rceil>" unfolding wait by (simp add: ceiling_mono)
  moreover have "fst (fst (allow later b'))" if later: "now + wait * second \<le> later" for later
  proof -
    have w: "1 \<le> wait" by (simp add: wait)
    have "min (wait * second) max_int64 \<le> time_sub later now"
      using later w by (auto simp: time_sub_def second_def)
    moreover have "wait \<le> 60"
    proof -
      have "60 / ?r \<le> 60" using r by (simp add: field_simps)
      then show ?thesis using \<open>wait \<le> \<lceil>60 / ?r\<rceil>\<close> by linarith
    qed
    ultimately have d: "wait * second \<le> time_sub later now" by (simp add: second_def)
    then have d1: "real_of_int wait \<le> real_of_int (time_sub later now) / 1000000000"
      by (simp add: second_def field_simps del: of_int_mult)
    then have "real_of_int wait * (?r / 60) \<le> real_of_int (time_sub later now) / 1000000000 * (?r / 60)"
      using r by (intro mult_right_mono) simp_all
    moreover have "1 - bk_tokens b' \<le> real_of_int wait * (?r / 60)" using need r by (simp add: field_simps)
    ultimately have "1 \<le> bk_tokens b' + real_of_int (time_sub later now) / 1000000000 * (?r / 60)" by linarith
    then have "1 \<le> min ?r (bk_tokens b' + real_of_int (time_sub later now) / 1000000000 * (?r / 60))"
      using r by simp
    moreover have "0 < real_of_int (time_sub later now) / 1000000000" using d1 w by linarith
    moreover have "bk_capacity b' = ?r" "bk_refillPerSec b' = ?r / 60" using ok by (simp_all only: bucket_ok_def)
    ultimately have "1 \<le> min (bk_capacity b')
        (bk_tokens b' + real_of_int (time_sub later now) / 1000000000 * bk_refillPerSec b')"
      and "0 < real_of_int (time_sub later now) / 1000000000" by (simp_all only:)
    then have "bk_tokens (refill later b') \<ge> 1" using last assms(4) by (simp add: refill_def Let_def)
    then show ?thesis by (simp add: allow_def Let_def)
  qed
  ultimately show ?thesis by (simp add: wait)
qed

definition ex_bucket :: bucket where
  "ex_bucket = \<lparr>bk_capacity = 1, bk_tokens = 0, bk_refillPerSec = 1 / 60, bk_last = 100\<rparr>"

theorem retry_hint_sufficient_witness:
  "allow 100 ex_bucket = ((False, 60), ex_bucket) \<and> fst (fst (allow (100 + 60 * second) ex_bucket))"
proof -
  have refuse: "allow 100 ex_bucket = ((False, 60), ex_bucket)"
    by (simp add: allow_def refill_def ex_bucket_def time_sub_def zero_time_def second_def Let_def)
  then show ?thesis using retry_hint_sufficient [of 1 ex_bucket 100 60 ex_bucket]
    by (simp add: ex_bucket_def bucket_ok_def zero_time_def second_def)
qed

section \<open>The monthly budget\<close>

text \<open>
  A run of the budget: reservations by any client, and settlements of an open hold. The state carries the guard,
  the open holds and the settled ones with their actual cost.
\<close>

datatype budget_event = BReserve instant "client option" usd | BSettle nat usd

type_synonym budget_state = "guard \<times> budgetHold list \<times> (budgetHold \<times> usd) list"

fun budget_step :: "budget_event \<Rightarrow> budget_state \<Rightarrow> budget_state" where
  "budget_step (BReserve now c est) (g, held, done0) =
     (case guard_Reserve now c est g of
        (Inr (Some h), g') \<Rightarrow> (g', h # held, done0)
      | (_, g') \<Rightarrow> (g', held, done0))"
| "budget_step (BSettle i actual) (g, held, done0) =
     (if i < length held
      then (guard_Settle (Some (held ! i)) actual g, take i held @ drop (Suc i) held, (held ! i, actual) # done0)
      else (g, held, done0))"

definition held_of :: "gostring \<Rightarrow> budgetHold list \<Rightarrow> usd" where
  "held_of k held = (\<Sum>h\<leftarrow>filter (\<lambda>h. bh_st h = k) held. bh_amount h)"

definition paid_of :: "gostring \<Rightarrow> (budgetHold \<times> usd) list \<Rightarrow> usd" where
  "paid_of k done0 = (\<Sum>(h, u)\<leftarrow>filter (\<lambda>(h, _). bh_st h = k) done0. u)"

definition over_of :: "gostring \<Rightarrow> (budgetHold \<times> usd) list \<Rightarrow> usd" where
  "over_of k done0 = (\<Sum>(h, u)\<leftarrow>filter (\<lambda>(h, _). bh_st h = k) done0. max 0 (u - bh_amount h))"

fun in_month :: "gostring \<Rightarrow> budget_event \<Rightarrow> bool" where
  "in_month m (BReserve now c est) \<longleftrightarrow> month_key now = m \<and> 0 \<le> est"
| "in_month m (BSettle i actual) \<longleftrightarrow> 0 \<le> actual"

lemma remove_nth_split:
  fixes f :: "'a \<Rightarrow> 'b::ab_group_add"
  assumes "i < length xs"
  shows "(\<Sum>x\<leftarrow>filter P (take i xs @ drop (Suc i) xs). f x) =
    (\<Sum>x\<leftarrow>filter P xs. f x) - (if P (xs ! i) then f (xs ! i) else 0)"
proof -
  have "filter P xs = filter P (take i xs @ xs ! i # drop (Suc i) xs)"
    using id_take_nth_drop [OF assms] by simp
  then show ?thesis by simp
qed

text \<open>The invariant of a run inside one month, for the client with key \<open>k\<close>.\<close>

definition budget_inv :: "gostring \<Rightarrow> gostring \<Rightarrow> budget_state \<Rightarrow> bool" where
  "budget_inv m k s = (case s of (g, held, done0) \<Rightarrow>
     (\<forall>h\<in>set held. 0 \<le> bh_amount h) \<and> (\<forall>(h, u)\<in>set done0. 0 \<le> u) \<and>
     (case mget (g_byHash g) k of
        None \<Rightarrow> False
      | Some st \<Rightarrow> cs_spentUSD st = held_of k held + paid_of k done0
          \<and> (cs_monthKey st = m \<or> cs_spentUSD st = 0 \<and> (\<forall>h\<in>set held. bh_st h \<noteq> k))
          \<and> (0 < cl_MonthlyBudgetUSD (cs_cfg st) \<longrightarrow>
              cs_spentUSD st \<le> cl_MonthlyBudgetUSD (cs_cfg st) + over_of k done0)))"

lemma held_nonneg: "\<forall>h\<in>set held. 0 \<le> bh_amount h \<Longrightarrow> 0 \<le> held_of k held"
  by (auto simp: held_of_def intro!: sum_list_nonneg)

lemma paid_nonneg: "\<forall>(h, u)\<in>set done0. 0 \<le> u \<Longrightarrow> 0 \<le> paid_of k done0"
  by (auto simp: paid_of_def intro!: sum_list_nonneg)

lemma over_nonneg: "0 \<le> over_of k done0"
  by (auto simp: over_of_def intro!: sum_list_nonneg)

lemma budget_inv_reserve:
  assumes "budget_inv m k (g, held, done0)" "month_key now = m" "0 \<le> est"
  shows "budget_inv m k (budget_step (BReserve now c est) (g, held, done0))"
proof (cases c)
  case None
  then show ?thesis using assms by (simp add: guard_Reserve_def)
next
  case (Some cl)
  define key where "key = ToLower (cl_KeySHA256 cl)"
  show ?thesis
  proof (cases "mget (g_byHash g) key")
    case None
    then show ?thesis using assms Some by (simp add: guard_Reserve_def key_def)
  next
    case (Some st0)
    define st where "st = rollMonthLocked now st0"
    have cfg: "cs_cfg st = cs_cfg st0" "cs_monthKey st = m" and sp: "cs_monthKey st0 \<noteq> m \<Longrightarrow> cs_spentUSD st = 0"
      "cs_monthKey st0 = m \<Longrightarrow> cs_spentUSD st = cs_spentUSD st0"
      using assms(2) by (auto simp: st_def rollMonthLocked_def)
    have inv: "\<forall>h\<in>set held. 0 \<le> bh_amount h" "\<forall>(h, u)\<in>set done0. 0 \<le> u"
      and here: "k = key \<Longrightarrow> cs_spentUSD st0 = held_of k held + paid_of k done0 \<and>
          (cs_monthKey st0 = m \<or> cs_spentUSD st0 = 0 \<and> (\<forall>h\<in>set held. bh_st h \<noteq> k)) \<and>
          (0 < cl_MonthlyBudgetUSD (cs_cfg st0) \<longrightarrow> cs_spentUSD st0 \<le> cl_MonthlyBudgetUSD (cs_cfg st0) + over_of k done0)"
      using assms(1) Some by (auto simp: budget_inv_def)
    have spent: "k = key \<Longrightarrow> cs_spentUSD st = cs_spentUSD st0" using here sp by (cases "cs_monthKey st0 = m") auto
    have cons: "held_of k (\<lparr>bh_st = key, bh_amount = est\<rparr> # held) = held_of k held + (if k = key then est else 0)"
      by (auto simp: held_of_def)
    show ?thesis
    proof (cases "cl_MonthlyBudgetUSD (cs_cfg st) > 0 \<and> cs_spentUSD st + est > cl_MonthlyBudgetUSD (cs_cfg st)")
      case True
      then have step: "budget_step (BReserve now c est) (g, held, done0) = (g\<lparr>g_byHash := mput key st (g_byHash g)\<rparr>, held, done0)"
        using \<open>c = Some cl\<close> Some by (simp add: guard_Reserve_def key_def [symmetric] st_def [symmetric] Let_def)
      show ?thesis
      proof (cases "k = key")
        case True
        then show ?thesis using inv here spent cfg unfolding step by (auto simp: budget_inv_def)
      next
        case other: False
        then show ?thesis using assms(1) unfolding step by (simp add: budget_inv_def)
      qed
    next
      case False
      then have step: "budget_step (BReserve now c est) (g, held, done0) =
          (g\<lparr>g_byHash := mput key (st\<lparr>cs_spentUSD := cs_spentUSD st + est\<rparr>) (g_byHash g)\<rparr>,
           \<lparr>bh_st = key, bh_amount = est\<rparr> # held, done0)"
        using \<open>c = Some cl\<close> Some by (simp add: guard_Reserve_def key_def [symmetric] st_def [symmetric] Let_def)
      show ?thesis
      proof (cases "k = key")
        case True
        then show ?thesis using inv here spent cfg cons False assms(3) over_nonneg [of k done0]
          unfolding step by (auto simp: budget_inv_def)
      next
        case other: False
        then show ?thesis using assms(1,3) cons unfolding step by (auto simp: budget_inv_def split: option.splits)
      qed
    qed
  qed
qed

lemma budget_inv_settle:
  assumes "budget_inv m k (g, held, done0)" "0 \<le> actual"
  shows "budget_inv m k (budget_step (BSettle i actual) (g, held, done0))"
proof (cases "i < length held")
  case True
  define h where "h = held ! i"
  let ?held = "take i held @ drop (Suc i) held"
  have inv: "\<forall>h\<in>set held. 0 \<le> bh_amount h" "\<forall>(h, u)\<in>set done0. 0 \<le> u" using assms(1) by (auto simp: budget_inv_def)
  have inv': "\<forall>h\<in>set ?held. 0 \<le> bh_amount h" using inv(1) by (auto dest: in_set_takeD in_set_dropD)
  have held: "held_of k ?held = held_of k held - (if bh_st h = k then bh_amount h else 0)"
    unfolding held_of_def h_def by (rule remove_nth_split [OF True])
  have paid: "paid_of k ((h, actual) # done0) = paid_of k done0 + (if bh_st h = k then actual else 0)"
    and over: "over_of k ((h, actual) # done0) = over_of k done0 + (if bh_st h = k then max 0 (actual - bh_amount h) else 0)"
    by (simp_all add: paid_of_def over_of_def)
  have step: "budget_step (BSettle i actual) (g, held, done0) = (guard_Settle (Some h) actual g, ?held, (h, actual) # done0)"
    using True by (simp add: h_def)
  obtain st where st: "mget (g_byHash g) k = Some st" "cs_spentUSD st = held_of k held + paid_of k done0"
    "cs_monthKey st = m \<or> cs_spentUSD st = 0 \<and> (\<forall>h\<in>set held. bh_st h \<noteq> k)"
    "0 < cl_MonthlyBudgetUSD (cs_cfg st) \<Longrightarrow> cs_spentUSD st \<le> cl_MonthlyBudgetUSD (cs_cfg st) + over_of k done0"
    using assms(1) by (auto simp: budget_inv_def split: option.splits)
  have done': "\<forall>(h, u)\<in>set ((h, actual) # done0). 0 \<le> u" using inv(2) assms(2) by simp
  show ?thesis
  proof (cases "bh_st h = k")
    case False
    then have "mget (g_byHash (guard_Settle (Some h) actual g)) k = Some st"
      using st(1) by (auto simp: guard_Settle_def split: option.split)
    moreover have "cs_monthKey st = m \<or> cs_spentUSD st = 0 \<and> (\<forall>h\<in>set ?held. bh_st h \<noteq> k)"
      using st(3) by (auto dest: in_set_takeD in_set_dropD)
    ultimately show ?thesis using st False inv' done' held paid over unfolding step by (simp add: budget_inv_def)
  next
    case True
    have v: "held_of k ?held + paid_of k ((h, actual) # done0) = cs_spentUSD st + (actual - bh_amount h)"
      using True held paid st(2) by simp
    have "0 \<le> cs_spentUSD st + (actual - bh_amount h)"
      using held_nonneg [OF inv', of k] paid_nonneg [OF done', of k] unfolding v [symmetric] by simp
    then have spent: "cs_spentUSD (settle_spent (bh_amount h) actual st) = cs_spentUSD st + (actual - bh_amount h)"
      and frame: "cs_monthKey (settle_spent (bh_amount h) actual st) = cs_monthKey st"
        "cs_cfg (settle_spent (bh_amount h) actual st) = cs_cfg st"
      by (simp_all add: settle_spent_def Let_def)
    have get: "mget (g_byHash (guard_Settle (Some h) actual g)) k = Some (settle_spent (bh_amount h) actual st)"
      using True st(1) by (simp add: guard_Settle_def)
    have month: "cs_monthKey st = m" using st(3) True \<open>i < length held\<close> by (auto simp: h_def)
    show ?thesis unfolding step using inv' done' get spent frame v month st(4) over True
      by (auto simp: budget_inv_def)
  qed
qed (use assms in simp)

lemma budget_inv_run:
  "budget_inv m k s \<Longrightarrow> \<forall>e\<in>set es. in_month m e \<Longrightarrow> budget_inv m k (fold budget_step es s)"
proof (induction es arbitrary: s)
  case (Cons e es)
  obtain g held done0 where s: "s = (g, held, done0)" by (cases s)
  have "budget_inv m k (budget_step e s)"
    using Cons.prems budget_inv_reserve budget_inv_settle unfolding s by (cases e) auto
  then show ?case using Cons by simp
qed simp

lemma cfg_at_step [frame_simps]: "cfg_at (fst (budget_step e s)) = cfg_at (fst s)"
proof (cases e)
  case (BReserve now c est)
  then show ?thesis using guard_frame(3) [of now c est "fst s"]
    by (cases s) (auto split: prod.splits sum.splits option.splits)
qed (cases s, simp add: frame_simps)

lemma cfg_at_budget_run [frame_simps]: "cfg_at (fst (fold budget_step es s)) = cfg_at (fst s)"
  by (induction es arbitrary: s) (simp_all add: frame_simps)

text \<open>
  C20. The monthly budget is overshot only by estimate errors. Start from a fresh guard and run any interleaving of
  reservations and settlements of any clients within one month. Then the spend recorded for a configured client
  is exactly its open estimates plus the actual costs of its settled requests, and for a client with a budget that
  sum stays within the budget plus the amounts by which settled requests exceeded their own estimates.
\<close>
theorem budget_overshoot_bounded:
  assumes "find (\<lambda>c. ToLower (cl_KeySHA256 c) = k) (rev clients) = Some c"
    and "\<forall>e\<in>set es. in_month m e"
    and "fold budget_step es (guard_New auth clients, [], []) = (g, held, done0)"
  shows "\<exists>st. mget (g_byHash g) k = Some st \<and> cs_spentUSD st = held_of k held + paid_of k done0 \<and>
    (0 < cl_MonthlyBudgetUSD c \<longrightarrow>
      held_of k held + paid_of k done0 \<le> cl_MonthlyBudgetUSD c + over_of k done0)"
proof -
  have "budget_inv m k (guard_New auth clients, [], [])"
    using assms(1) by (simp add: budget_inv_def guard_New_get new_clientState_def held_of_def paid_of_def over_of_def)
  from budget_inv_run [OF this assms(2)] obtain st where st: "mget (g_byHash g) k = Some st"
    "cs_spentUSD st = held_of k held + paid_of k done0"
    "0 < cl_MonthlyBudgetUSD (cs_cfg st) \<Longrightarrow> cs_spentUSD st \<le> cl_MonthlyBudgetUSD (cs_cfg st) + over_of k done0"
    unfolding assms(3) by (auto simp: budget_inv_def split: option.splits)
  have "cfg_at g = cfg_at (guard_New auth clients)"
    using cfg_at_budget_run [of es "(guard_New auth clients, [], [])"] assms(3) by simp
  then have "cfg_at g k = Some (c\<lparr>cl_KeySHA256 := ToLower (cl_KeySHA256 c)\<rparr>)"
    using assms(1) by (simp add: cfg_at_def guard_New_get new_clientState_def)
  then have "cl_MonthlyBudgetUSD (cs_cfg st) = cl_MonthlyBudgetUSD c" using st(1) by (simp add: cfg_at_def)
  with st show ?thesis by simp
qed

text \<open>The last day of January 2026 and the first of February.\<close>

definition ex_jan :: instant where "ex_jan = 20484 * (86400 * second)"
definition ex_feb :: instant where "ex_feb = 20485 * (86400 * second)"

lemma ex_month: "month_of ex_jan = 24312" "month_of ex_feb = 24313"
proof -
  have "utc_day ex_jan = 20484" "utc_day ex_feb = 20485" by (simp_all add: utc_day_def ex_jan_def ex_feb_def second_def)
  then show "month_of ex_jan = 24312" "month_of ex_feb = 24313"
    by (simp_all add: month_of_def) (simp_all add: month_from.simps month_start_def days_to_year_def days_before_month_def)
qed

lemma ex_month_key: "month_key ex_jan = ''2026-01''" "month_key ex_feb = ''2026-02''"
  unfolding month_key_def ex_month by code_simp+

theorem budget_overshoot_bounded_witness:
  "\<exists>g held done0. fold budget_step [BReserve ex_jan (Some ex_client) 6, BReserve ex_jan (Some ex_client) 5, BSettle 0 7]
     (guard_New True [ex_client], [], []) = (g, held, done0) \<and> held_of ''ab'' held + paid_of ''ab'' done0 \<le> 10 + over_of ''ab'' done0"
proof -
  let ?es = "[BReserve ex_jan (Some ex_client) 6, BReserve ex_jan (Some ex_client) 5, BSettle 0 7]"
  obtain g held done0 where run: "fold budget_step ?es (guard_New True [ex_client], [], []) = (g, held, done0)"
    by (metis prod_cases3)
  have low: "ToLower (cl_KeySHA256 ex_client) = ''ab''" unfolding ex_client_def by code_simp
  have month: "\<forall>e\<in>set ?es. in_month ''2026-01'' e" by (simp add: ex_month_key)
  have ten: "cl_MonthlyBudgetUSD ex_client = 10" by (simp add: ex_client_def)
  have "held_of ''ab'' held + paid_of ''ab'' done0 \<le> 10 + over_of ''ab'' done0"
    using budget_overshoot_bounded [OF _ month run, of "''ab''" ex_client] by (auto simp: low ten)
  with run show ?thesis by blast
qed

text \<open>
  A hold taken in one month and settled after the rollover is subtracted from the new month's spend, which never
  contained it: here an estimate of 8 dollars held on 31 January is released at no cost on 1 February and erases
  the 8 dollars held in February, so a client with a budget of 10 dollars a month holds 18.
\<close>

lemma settle_across_month_erases_spend:
  "\<exists>g. fold budget_step [BReserve ex_jan (Some ex_client) 8, BReserve ex_feb (Some ex_client) 8, BSettle 1 0,
        BReserve ex_feb (Some ex_client) 10] (guard_New True [ex_client], [], []) =
      (g, [\<lparr>bh_st = ''ab'', bh_amount = 10\<rparr>, \<lparr>bh_st = ''ab'', bh_amount = 8\<rparr>], [(\<lparr>bh_st = ''ab'', bh_amount = 8\<rparr>, 0)])"
proof -
  have low: "ToLower (cl_KeySHA256 ex_client) = ''ab''" unfolding ex_client_def by code_simp
  have new: "g_byHash (guard_New True [ex_client]) = [(''ab'', new_clientState ex_client)]"
    by (simp add: guard_New_def low gomap_eval)
  show ?thesis
    by (simp add: guard_Reserve_def guard_Settle_def new low rollMonthLocked_def new_clientState_def settle_spent_def
        ex_month_key gomap_eval Let_def)
      (simp add: ex_client_def)
qed

end
