(* ===== verification/ScopeStore.thy ===== *)
theory ScopeStore
  imports Firewall
begin

text \<open>
  The Redis-backed shared store of \<open>internal/redisstore\<close>: run kills, reconcile claims, and the cross-replica
  velocity and concurrency store with its three Lua scripts. The Redis server is a parameter: \<open>'w\<close> is the world
  that holds its data (and everything else outside the process), the record \<open>redis\<close> its commands, and the locale
  \<open>redis_server\<close> states their documented effect. The lemmas show that the reserve script refines an abstract
  check-then-reserve on rolling-minute sums and live holds.

  Hash fields and scores are the numbers whose decimal text Redis stores, values are exact reals, and a command
  inside a script does not fail (keys hold their own type, counters stay in range). A script may be lost before it
  runs, or run while its reply is lost; other clients may act until it is delivered.
\<close>

section \<open>The server\<close>

datatype delivery = Delivered | Undelivered | ReplyLost

record 'w redis =
  rd_deliver :: "'w \<Rightarrow> delivery \<times> 'w"
  rd_hgetall :: "gostring \<Rightarrow> 'w \<Rightarrow> (int \<times> real) list"
  rd_hdel :: "gostring \<Rightarrow> int \<Rightarrow> 'w \<Rightarrow> 'w"
  rd_hincrby :: "gostring \<Rightarrow> int \<Rightarrow> real \<Rightarrow> 'w \<Rightarrow> real \<times> 'w" \<comment> \<open>\<open>HINCRBY\<close> and \<open>HINCRBYFLOAT\<close>\<close>
  rd_hset :: "gostring \<Rightarrow> int \<Rightarrow> real \<Rightarrow> 'w \<Rightarrow> 'w"
  rd_expire :: "gostring \<Rightarrow> int \<Rightarrow> 'w \<Rightarrow> 'w"
  rd_zremrangebyscore :: "gostring \<Rightarrow> int \<Rightarrow> 'w \<Rightarrow> 'w" \<comment> \<open>from \<open>-inf\<close>\<close>
  rd_zcard :: "gostring \<Rightarrow> 'w \<Rightarrow> nat"
  rd_zadd :: "gostring \<Rightarrow> int \<Rightarrow> gostring \<Rightarrow> 'w \<Rightarrow> 'w"
  rd_zrem :: "gostring \<Rightarrow> gostring \<Rightarrow> 'w \<Rightarrow> 'w"
  rd_set :: "gostring \<Rightarrow> duration \<Rightarrow> 'w \<Rightarrow> bool \<times> 'w" \<comment> \<open>\<open>SET\<close> with expiry: whether it succeeded\<close>
  rd_exists :: "gostring \<Rightarrow> 'w \<Rightarrow> nat option \<times> 'w"
  rd_setnx :: "gostring \<Rightarrow> duration \<Rightarrow> 'w \<Rightarrow> bool option \<times> 'w"

text \<open>
  The documented effect of the commands, on the hashes \<open>H\<close> and sorted sets \<open>Z\<close> of the data set. \<open>EXPIRE\<close> with a
  positive time changes neither.
\<close>

locale redis_server =
  fixes rd :: "'w redis"
    and H :: "'w \<Rightarrow> gostring \<Rightarrow> int \<rightharpoonup> real"
    and Z :: "'w \<Rightarrow> gostring \<Rightarrow> gostring \<rightharpoonup> int"
  assumes hgetall: "distinct (map fst (rd_hgetall rd k w))" "map_of (rd_hgetall rd k w) = H w k"
    and hdel: "H (rd_hdel rd k f w) = (H w)(k := (H w k)(f := None))" "Z (rd_hdel rd k f w) = Z w"
    and hincrby: "fst (rd_hincrby rd k f d w) = (case H w k f of None \<Rightarrow> 0 | Some v \<Rightarrow> v) + d"
      "H (snd (rd_hincrby rd k f d w)) = (H w)(k := (H w k)(f \<mapsto> (case H w k f of None \<Rightarrow> 0 | Some v \<Rightarrow> v) + d))"
      "Z (snd (rd_hincrby rd k f d w)) = Z w"
    and hset: "H (rd_hset rd k f v w) = (H w)(k := (H w k)(f \<mapsto> v))" "Z (rd_hset rd k f v w) = Z w"
    and expire: "0 < s \<Longrightarrow> H (rd_expire rd k s w) = H w" "0 < s \<Longrightarrow> Z (rd_expire rd k s w) = Z w"
    and zremrange: "Z (rd_zremrangebyscore rd k mx w) =
        (Z w)(k := (\<lambda>m. case Z w k m of None \<Rightarrow> None | Some s \<Rightarrow> if s \<le> mx then None else Some s))"
      "H (rd_zremrangebyscore rd k mx w) = H w"
    and zcard: "rd_zcard rd k w = card (dom (Z w k))" "finite (dom (Z w k))"
    and zadd: "Z (rd_zadd rd k s m w) = (Z w)(k := (Z w k)(m \<mapsto> s))" "H (rd_zadd rd k s m w) = H w"
    and zrem: "Z (rd_zrem rd k m w) = (Z w)(k := (Z w k)(m := None))" "H (rd_zrem rd k m w) = H w"

text \<open>
  String keys with an expiry: \<open>K\<close> is the instant each key expires on the server's clock \<open>T\<close>. \<open>SET\<close> with an expiry
  and \<open>SET NX\<close> take effect at the clock of the world they return; an expired key counts as absent.
\<close>

locale redis_keys =
  fixes rd :: "'w redis"
    and K :: "'w \<Rightarrow> gostring \<rightharpoonup> instant"
    and T :: "'w \<Rightarrow> instant"
  assumes set_ok: "rd_set rd k d w = (True, w') \<Longrightarrow> K w' = (K w)(k \<mapsto> T w' + d)"
    and exists: "rd_exists rd k w = (Some n, w') \<Longrightarrow> T w \<le> T w' \<and> (0 < n \<longleftrightarrow> (\<exists>e. K w k = Some e \<and> T w' < e))"
    and setnx_new: "rd_setnx rd k d w = (Some True, w') \<Longrightarrow>
      T w \<le> T w' \<and> \<not> (\<exists>e. K w k = Some e \<and> T w' < e) \<and> K w' = (K w)(k \<mapsto> T w' + d)"
    and setnx_old: "rd_setnx rd k d w = (Some False, w') \<Longrightarrow> K w' = K w"

text \<open>What other clients and time leave of the keys: an unexpired key stays.\<close>

definition keeps_keys :: "('w \<Rightarrow> gostring \<rightharpoonup> instant) \<Rightarrow> ('w \<Rightarrow> instant) \<Rightarrow> 'w \<Rightarrow> 'w \<Rightarrow> bool" where
  "keeps_keys K T w w' \<longleftrightarrow> (\<forall>k e. K w k = Some e \<longrightarrow> T w' < e \<longrightarrow> K w' k = Some e)"

section \<open>The store\<close>

definition windowSecs :: int where "windowSecs = 60"
definition holdTTLSecs :: int where "holdTTLSecs = 300"
definition fallbackTTL :: duration where "fallbackTTL = 24 * 3600 * second"

text \<open>The clock of the store is a reading of the world.\<close>

record 'w redisStore =
  rs_rdb :: "'w redis"
  rs_ttl :: duration
  rs_holdTTL :: int
  rs_now :: "'w \<Rightarrow> int"

definition NewClient :: "'w redis \<Rightarrow> duration \<Rightarrow> ('w \<Rightarrow> int) \<Rightarrow> 'w redisStore" where
  "NewClient rdb ttl clock =
     \<lparr>rs_rdb = rdb, rs_ttl = (if ttl \<le> 0 then fallbackTTL else ttl), rs_holdTTL = holdTTLSecs, rs_now = clock\<rparr>"

definition SetHoldTTL :: "int \<Rightarrow> 'w redisStore \<Rightarrow> 'w redisStore" where
  "SetHoldTTL seconds s = (if seconds > holdTTLSecs then s\<lparr>rs_holdTTL := seconds\<rparr> else s)"

definition killKey :: "gostring \<Rightarrow> gostring" where "killKey runKey = ''heave:kill:'' @ runKey"

definition rs_Kill :: "'w redisStore \<Rightarrow> gostring \<Rightarrow> 'w \<Rightarrow> kill_error option \<times> 'w" where
  "rs_Kill s runKey w =
     (let (ok, w1) = rd_set (rs_rdb s) (killKey runKey) (rs_ttl s) w
      in (if ok then None else Some (KillWriteError (''redis set kill '' @ runKey)), w1))"

definition rs_Killed :: "'w redisStore \<Rightarrow> gostring \<Rightarrow> 'w \<Rightarrow> bool \<times> 'w" where
  "rs_Killed s runKey w =
     (let (n, w1) = rd_exists (rs_rdb s) (killKey runKey) w
      in (case n of None \<Rightarrow> False | Some c \<Rightarrow> c > 0, w1))"

definition ClaimReconcile :: "'w redisStore \<Rightarrow> gostring \<Rightarrow> int \<Rightarrow> 'w \<Rightarrow> (gostring + bool) \<times> 'w" where
  "ClaimReconcile s nonce ttlSec w =
     (let (ok, w1) = rd_setnx (rs_rdb s) (''heave:rcl:'' @ nonce) (wrap64 (ttlSec * second)) w
      in (case ok of None \<Rightarrow> Inl ''redis claim reconcile'' | Some b \<Rightarrow> Inr b, w1))"

context redis_keys
begin

text \<open>A recorded kill is seen by every replica until it expires; a claim is granted once until it expires.\<close>

lemma shared_kill_seen:
  assumes "rs_rdb s = rd" "rs_rdb s' = rd" "rs_Kill s runKey w = (None, w1)" "keeps_keys K T w1 w2"
    and "rd_exists rd (killKey runKey) w2 = (Some n, w3)" "T w3 < T w1 + rs_ttl s"
  shows "fst (rs_Killed s' runKey w2)"
proof -
  obtain ok where "rd_set rd (killKey runKey) (rs_ttl s) w = (ok, w1)" "ok"
    using assms(1,3) by (auto simp: rs_Kill_def case_prod_unfold Let_def prod_eq_iff split: if_splits)
  then have k: "K w1 (killKey runKey) = Some (T w1 + rs_ttl s)" using set_ok by auto
  have "T w2 \<le> T w3" using exists [OF assms(5)] by simp
  then have "K w2 (killKey runKey) = Some (T w1 + rs_ttl s)" using k assms(4,6) by (auto simp: keeps_keys_def)
  then have "0 < n" using exists [OF assms(5)] assms(6) by auto
  then show ?thesis using assms(2,5) by (simp add: rs_Killed_def)
qed

lemma claim_once:
  assumes "rs_rdb s = rd" "rs_rdb s' = rd" "ClaimReconcile s nonce ttl w = (Inr True, w1)" "keeps_keys K T w1 w2"
    and "ClaimReconcile s' nonce ttl' w2 = (Inr b, w3)" "T w3 < T w1 + wrap64 (ttl * second)"
  shows "\<not> b"
proof
  assume b
  let ?k = "''heave:rcl:'' @ nonce"
  have "rd_setnx rd ?k (wrap64 (ttl * second)) w = (Some True, w1)"
    using assms(1,3) by (auto simp: ClaimReconcile_def case_prod_unfold Let_def prod_eq_iff split: option.splits)
  then have k: "K w1 ?k = Some (T w1 + wrap64 (ttl * second))" using setnx_new by auto
  have "rd_setnx rd ?k (wrap64 (ttl' * second)) w2 = (Some True, w3)"
    using assms(2,5) \<open>b\<close> by (auto simp: ClaimReconcile_def case_prod_unfold Let_def prod_eq_iff split: option.splits)
  from setnx_new [OF this] k assms(4,6) show False by (auto simp: keeps_keys_def)
qed

end

section \<open>The Lua scripts\<close>

definition velUsdKey :: "gostring \<Rightarrow> gostring" where "velUsdKey sk = ''heave:vel:usd:'' @ sk"
definition velTokKey :: "gostring \<Rightarrow> gostring" where "velTokKey sk = ''heave:vel:tok:'' @ sk"
definition concKey :: "gostring \<Rightarrow> gostring" where "concKey sk = ''heave:conc:'' @ sk"

text \<open>The arguments of one scope.\<close>

record scopeArg =
  sa_Key :: gostring
  sa_Name :: gostring
  sa_MaxUSD :: usd
  sa_MaxTok :: int
  sa_MaxConc :: int

fun scan_window :: "'w redis \<Rightarrow> gostring \<Rightarrow> int \<Rightarrow> int \<Rightarrow> (int \<times> real) list \<Rightarrow> real \<Rightarrow> 'w \<Rightarrow> real \<times> 'w" where
  "scan_window rd key now win [] tot w = (tot, w)"
| "scan_window rd key now win ((sec, v) # rest) tot w =
     (if now - sec < win then scan_window rd key now win rest (tot + v) w
      else scan_window rd key now win rest tot (rd_hdel rd key sec w))"

definition velocity_breach :: "'w redis \<Rightarrow> gostring \<Rightarrow> int \<Rightarrow> int \<Rightarrow> real \<Rightarrow> real \<Rightarrow> 'w \<Rightarrow> bool \<times> 'w" where
  "velocity_breach rd key now win est cap w =
     (if cap > 0 then
        let (tot, w1) = scan_window rd key now win (rd_hgetall rd key w) 0 w in (tot + est > cap, w1)
      else (False, w))"

definition check_scope :: "'w redis \<Rightarrow> int \<Rightarrow> int \<Rightarrow> usd \<Rightarrow> int \<Rightarrow> scopeArg \<Rightarrow> 'w \<Rightarrow> gostring option \<times> 'w" where
  "check_scope rd now win estU estT sa w =
     (case velocity_breach rd (velUsdKey (sa_Key sa)) now win estU (sa_MaxUSD sa) w of
        (True, w1) \<Rightarrow> (Some ''velocity'', w1)
      | (False, w1) \<Rightarrow>
          (case velocity_breach rd (velTokKey (sa_Key sa)) now win (real_of_int estT) (real_of_int (sa_MaxTok sa)) w1 of
             (True, w2) \<Rightarrow> (Some ''velocity'', w2)
           | (False, w2) \<Rightarrow>
               if sa_MaxConc sa > 0 then
                 let w3 = rd_zremrangebyscore rd (concKey (sa_Key sa)) now w2
                 in (if int (rd_zcard rd (concKey (sa_Key sa)) w3) \<ge> sa_MaxConc sa then Some ''concurrency'' else None, w3)
               else (None, w2)))"

fun check_scopes ::
  "'w redis \<Rightarrow> int \<Rightarrow> int \<Rightarrow> usd \<Rightarrow> int \<Rightarrow> scopeArg list \<Rightarrow> 'w \<Rightarrow> (gostring \<times> gostring) option \<times> 'w" where
  "check_scopes rd now win estU estT [] w = (None, w)"
| "check_scopes rd now win estU estT (sa # sas) w =
     (case check_scope rd now win estU estT sa w of
        (Some kind, w1) \<Rightarrow> (Some (sa_Name sa, kind), w1)
      | (None, w1) \<Rightarrow> check_scopes rd now win estU estT sas w1)"

definition reserve_scope ::
  "'w redis \<Rightarrow> int \<Rightarrow> int \<Rightarrow> int \<Rightarrow> usd \<Rightarrow> int \<Rightarrow> gostring \<Rightarrow> scopeArg \<Rightarrow> 'w \<Rightarrow> 'w" where
  "reserve_scope rd now win httl estU estT hold sa w =
     (let ku = velUsdKey (sa_Key sa); kt = velTokKey (sa_Key sa); kc = concKey (sa_Key sa);
          w1 = (if sa_MaxUSD sa > 0 then rd_expire rd ku (win + 1) (snd (rd_hincrby rd ku now estU w)) else w);
          w2 = (if sa_MaxTok sa > 0
                then rd_expire rd kt (win + 1) (snd (rd_hincrby rd kt now (real_of_int estT) w1)) else w1)
      in if sa_MaxConc sa > 0 then rd_expire rd kc (httl + 1) (rd_zadd rd kc (now + httl) hold w2) else w2)"

definition reserve_script ::
  "'w redis \<Rightarrow> int \<Rightarrow> int \<Rightarrow> int \<Rightarrow> usd \<Rightarrow> int \<Rightarrow> gostring \<Rightarrow> scopeArg list \<Rightarrow> 'w \<Rightarrow> (bool \<times> gostring \<times> gostring) \<times> 'w" where
  "reserve_script rd now win httl estU estT hold sas w =
     (case check_scopes rd now win estU estT sas w of
        (Some (name, kind), w1) \<Rightarrow> ((False, name, kind), w1)
      | (None, w1) \<Rightarrow> ((True, [], []), fold (reserve_scope rd now win httl estU estT hold) sas w1))"

definition adjust_dim :: "'w redis \<Rightarrow> gostring \<Rightarrow> int \<Rightarrow> int \<Rightarrow> real \<Rightarrow> 'w \<Rightarrow> 'w" where
  "adjust_dim rd key now win d w =
     (if d \<noteq> 0 then
        let (v, w1) = rd_hincrby rd key now d w
        in rd_expire rd key (win + 1) (if v < 0 then rd_hset rd key now 0 w1 else w1)
      else w)"

definition adjust_script :: "'w redis \<Rightarrow> int \<Rightarrow> int \<Rightarrow> usd \<Rightarrow> int \<Rightarrow> gostring list \<Rightarrow> 'w \<Rightarrow> 'w" where
  "adjust_script rd now win dU dT keys w =
     fold (\<lambda>sk w. adjust_dim rd (velTokKey sk) now win (real_of_int dT) (adjust_dim rd (velUsdKey sk) now win dU w)) keys w"

definition releaseConc_script :: "'w redis \<Rightarrow> gostring \<Rightarrow> gostring list \<Rightarrow> 'w \<Rightarrow> 'w" where
  "releaseConc_script rd hold keys w = fold (\<lambda>sk w. rd_zrem rd (concKey sk) hold w) keys w"

section \<open>Reserve, settle, release\<close>

text \<open>Running a script: its result, or nothing when the reply did not arrive.\<close>

definition run_script :: "'w redis \<Rightarrow> ('w \<Rightarrow> 'a \<times> 'w) \<Rightarrow> 'w \<Rightarrow> 'a option \<times> 'w" where
  "run_script rd body w =
     (case rd_deliver rd w of
        (Delivered, w1) \<Rightarrow> (let (r, w2) = body w1 in (Some r, w2))
      | (ReplyLost, w1) \<Rightarrow> (None, snd (body w1))
      | (Undelivered, w1) \<Rightarrow> (None, w1))"

fun scope_args :: "gostring list \<Rightarrow> gostring list \<Rightarrow> usd list \<Rightarrow> int list \<Rightarrow> int list \<Rightarrow> scopeArg list" where
  "scope_args (k # ks) (n # ns) (u # us) (t # ts) (c # cs) =
     \<lparr>sa_Key = k, sa_Name = n, sa_MaxUSD = u, sa_MaxTok = t, sa_MaxConc = c\<rparr> # scope_args ks ns us ts cs"
| "scope_args _ _ _ _ _ = []"

definition rs_Reserve ::
  "'w redisStore \<Rightarrow> gostring list \<Rightarrow> gostring list \<Rightarrow> usd list \<Rightarrow> int list \<Rightarrow> int list \<Rightarrow> usd \<Rightarrow> int \<Rightarrow> gostring \<Rightarrow>
   'w \<Rightarrow> (bool \<times> gostring \<times> gostring \<times> gostring option) \<times> 'w" where
  "rs_Reserve s keys names maxUSD maxTokens maxInflight estUSD estTokens holdID w =
     (case run_script (rs_rdb s) (reserve_script (rs_rdb s) (rs_now s w) windowSecs (rs_holdTTL s) estUSD estTokens holdID
             (scope_args keys names maxUSD maxTokens maxInflight)) w of
        (None, w1) \<Rightarrow> ((True, [], [], Some ''redis scope reserve''), w1)
      | (Some (admitted, name, kind), w1) \<Rightarrow>
          (if admitted then (True, [], [], None) else (False, name, kind, None), w1))"

definition rs_adjust :: "'w redisStore \<Rightarrow> gostring list \<Rightarrow> usd \<Rightarrow> int \<Rightarrow> 'w \<Rightarrow> gostring option \<times> 'w" where
  "rs_adjust s keys deltaUSD deltaTokens w =
     (if deltaUSD = 0 \<and> deltaTokens = 0 then (None, w)
      else case run_script (rs_rdb s)
             (\<lambda>w1. ((), adjust_script (rs_rdb s) (rs_now s w) windowSecs deltaUSD deltaTokens keys w1)) w of
        (None, w1) \<Rightarrow> (Some ''redis scope adjust'', w1)
      | (Some _, w1) \<Rightarrow> (None, w1))"

definition rs_Settle :: "'w redisStore \<Rightarrow> gostring list \<Rightarrow> usd \<Rightarrow> int \<Rightarrow> 'w \<Rightarrow> gostring option \<times> 'w" where
  "rs_Settle s keys deltaUSD deltaTokens w = rs_adjust s keys deltaUSD deltaTokens w"

definition rs_Release ::
  "'w redisStore \<Rightarrow> gostring list \<Rightarrow> gostring \<Rightarrow> usd \<Rightarrow> int \<Rightarrow> bool \<Rightarrow> 'w \<Rightarrow> gostring option \<times> 'w" where
  "rs_Release s keys holdID estUSD estTokens settled w =
     (case run_script (rs_rdb s) (\<lambda>w. ((), releaseConc_script (rs_rdb s) holdID keys w)) w of
        (None, w1) \<Rightarrow> (Some ''redis scope release (conc)'', w1)
      | (Some _, w1) \<Rightarrow>
          (if settled then (None, w1) else rs_adjust s keys (- estUSD) (wrap64 (- estTokens)) w1))"

text \<open>The store as the interfaces \<open>ScopeStore\<close> and \<open>KillStore\<close> of the firewall.\<close>

definition redis_scope_store :: "'w redisStore \<Rightarrow> 'w ScopeStoreI" where
  "redis_scope_store s = \<lparr>ss_Reserve = rs_Reserve s, ss_Settle = rs_Settle s, ss_Release = rs_Release s\<rparr>"

definition redis_kill_store :: "'w redisStore \<Rightarrow> 'w KillStoreI" where
  "redis_kill_store s = \<lparr>ksi_Kill = rs_Kill s, ksi_Killed = rs_Killed s\<rparr>"

section \<open>The abstract store\<close>

text \<open>The rolling sum of a hash and the unexpired members of a sorted set.\<close>

definition live_sum :: "('w \<Rightarrow> gostring \<Rightarrow> int \<rightharpoonup> real) \<Rightarrow> int \<Rightarrow> 'w \<Rightarrow> gostring \<Rightarrow> real" where
  "live_sum H now w key = (\<Sum>f\<in>{f \<in> dom (H w key). now - f < windowSecs}. the (H w key f))"

definition live_usd :: "('w \<Rightarrow> gostring \<Rightarrow> int \<rightharpoonup> real) \<Rightarrow> int \<Rightarrow> 'w \<Rightarrow> gostring \<Rightarrow> usd" where
  "live_usd H now w sk = live_sum H now w (velUsdKey sk)"

definition live_tok :: "('w \<Rightarrow> gostring \<Rightarrow> int \<rightharpoonup> real) \<Rightarrow> int \<Rightarrow> 'w \<Rightarrow> gostring \<Rightarrow> real" where
  "live_tok H now w sk = live_sum H now w (velTokKey sk)"

definition live_holds :: "('w \<Rightarrow> gostring \<Rightarrow> gostring \<rightharpoonup> int) \<Rightarrow> int \<Rightarrow> 'w \<Rightarrow> gostring \<Rightarrow> gostring set" where
  "live_holds Z now w sk = {m. \<exists>s. Z w (concKey sk) m = Some s \<and> now < s}"

lemma store_keys [simp]:
  "velUsdKey a = velUsdKey b \<longleftrightarrow> a = b" "velTokKey a = velTokKey b \<longleftrightarrow> a = b" "concKey a = concKey b \<longleftrightarrow> a = b"
  "velUsdKey a \<noteq> velTokKey b" "velTokKey b \<noteq> velUsdKey a"
  by (simp_all add: velUsdKey_def velTokKey_def concKey_def)

text \<open>What the scopes ask of the abstract store, and the first of them it cannot satisfy.\<close>

record abs_store =
  ab_usd :: "gostring \<Rightarrow> usd"
  ab_tok :: "gostring \<Rightarrow> real"
  ab_holds :: "gostring \<Rightarrow> gostring set"

definition abs_at ::
  "('w \<Rightarrow> gostring \<Rightarrow> int \<rightharpoonup> real) \<Rightarrow> ('w \<Rightarrow> gostring \<Rightarrow> gostring \<rightharpoonup> int) \<Rightarrow> int \<Rightarrow> 'w \<Rightarrow> abs_store" where
  "abs_at H Z now w = \<lparr>ab_usd = live_usd H now w, ab_tok = live_tok H now w, ab_holds = live_holds Z now w\<rparr>"

definition spec_breach :: "usd \<Rightarrow> int \<Rightarrow> abs_store \<Rightarrow> scopeArg \<Rightarrow> gostring option" where
  "spec_breach u t a sa =
     (if sa_MaxUSD sa > 0 \<and> ab_usd a (sa_Key sa) + u > sa_MaxUSD sa
         \<or> sa_MaxTok sa > 0 \<and> ab_tok a (sa_Key sa) + real_of_int t > real_of_int (sa_MaxTok sa) then Some ''velocity''
      else if sa_MaxConc sa > 0 \<and> int (card (ab_holds a (sa_Key sa))) \<ge> sa_MaxConc sa then Some ''concurrency''
      else None)"

definition spec_hold :: "usd \<Rightarrow> int \<Rightarrow> gostring \<Rightarrow> scopeArg \<Rightarrow> abs_store \<Rightarrow> abs_store" where
  "spec_hold u t hold sa a = (let k = sa_Key sa in
     \<lparr>ab_usd = (if sa_MaxUSD sa > 0 then (ab_usd a)(k := ab_usd a k + u) else ab_usd a),
      ab_tok = (if sa_MaxTok sa > 0 then (ab_tok a)(k := ab_tok a k + real_of_int t) else ab_tok a),
      ab_holds = (if sa_MaxConc sa > 0 then (ab_holds a)(k := insert hold (ab_holds a k)) else ab_holds a)\<rparr>)"

definition spec_reserve ::
  "usd \<Rightarrow> int \<Rightarrow> gostring \<Rightarrow> scopeArg list \<Rightarrow> abs_store \<Rightarrow> (bool \<times> gostring \<times> gostring) \<times> abs_store" where
  "spec_reserve u t hold sas a =
     (case filter (\<lambda>sa. spec_breach u t a sa \<noteq> None) sas of
        sa # _ \<Rightarrow> ((False, sa_Name sa, the (spec_breach u t a sa)), a)
      | [] \<Rightarrow> ((True, [], []), fold (spec_hold u t hold) sas a))"

section \<open>Refinement\<close>

context redis_server begin

lemma finite_hash: "finite (dom (H w k))"
  using finite_dom_map_of [of "rd_hgetall rd k w"] by (simp add: hgetall)

lemma live_sum_alt: "live_sum H now w key = (\<Sum>f\<in>dom (H w key). if now - f < windowSecs then the (H w key f) else 0)"
  unfolding live_sum_def using finite_hash [of w key] by (simp add: sum.inter_filter)

lemma live_sum_write:
  assumes "H w' = (H w)(k := (H w k)(f \<mapsto> v))" "now - f < windowSecs"
  shows "live_sum H now w' key = live_sum H now w key
    + (if key = k then v - (case H w k f of None \<Rightarrow> 0 | Some x \<Rightarrow> x) else 0)"
proof (cases "key = k")
  case True
  let ?g = "\<lambda>w f. if now - f < windowSecs then the (H w k f) else 0"
  have fin: "finite (insert f (dom (H w k)))" using finite_hash by simp
  have "live_sum H now w' k = (\<Sum>x\<in>insert f (dom (H w k)). ?g w' x)"
    unfolding live_sum_alt using assms(1) by (intro sum.cong) auto
  also have "\<dots> = v + (\<Sum>x\<in>dom (H w k) - {f}. ?g w x)"
    using assms fin by (simp add: sum.insert_remove, intro sum.cong) auto
  finally have new: "live_sum H now w' k = v + (\<Sum>x\<in>dom (H w k) - {f}. ?g w x)" .
  have old: "live_sum H now w k = (case H w k f of None \<Rightarrow> 0 | Some x \<Rightarrow> x) + (\<Sum>x\<in>dom (H w k) - {f}. ?g w x)"
  proof (cases "H w k f")
    case None
    then show ?thesis unfolding live_sum_alt by (simp add: domIff)
  next
    case (Some x)
    then have "f \<in> dom (H w k)" by auto
    from sum.remove [OF finite_hash this, of "?g w"] show ?thesis
      unfolding live_sum_alt using Some assms(2) by simp
  qed
  show ?thesis using True new old by simp
next
  case False
  then show ?thesis using assms(1) by (simp add: live_sum_def)
qed

lemma live_sum_hdel:
  assumes "\<not> now - f < windowSecs"
  shows "live_sum H now (rd_hdel rd k f w) key = live_sum H now w key"
proof -
  have "{x \<in> dom (H (rd_hdel rd k f w) key). now - x < windowSecs} = {x \<in> dom (H w key). now - x < windowSecs}"
    using assms by (auto simp: hdel)
  moreover have "H (rd_hdel rd k f w) key x = H w key x" if "now - x < windowSecs" for x
    using that assms by (auto simp: hdel)
  ultimately show ?thesis unfolding live_sum_def by (intro sum.cong) auto
qed

lemma live_sum_H: "H w' = H w \<Longrightarrow> live_sum H now w' key = live_sum H now w key"
  by (simp add: live_sum_def)

lemma scan_abs:
  "live_sum H now (snd (scan_window rd k now windowSecs xs s w)) key = live_sum H now w key"
  "Z (snd (scan_window rd k now windowSecs xs s w)) = Z w"
  by (induction xs arbitrary: s w) (auto simp: live_sum_hdel hdel)

lemma scan_total:
  "fst (scan_window rd k now win xs s w) = s + sum_list (map snd (filter (\<lambda>p. now - fst p < win) xs))"
  by (induction xs arbitrary: s w) auto

lemma sum_map_of:
  fixes xs :: "(int \<times> real) list"
  shows "distinct (map fst xs) \<Longrightarrow>
   sum_list (map snd (filter (\<lambda>p. P (fst p)) xs)) = (\<Sum>f\<in>{f \<in> dom (map_of xs). P f}. the (map_of xs f))"
proof (induction xs)
  case (Cons p xs)
  obtain f v where p: "p = (f, v)" by (cases p)
  have new: "f \<notin> dom (map_of xs)" using Cons.prems by (simp add: p dom_map_of_conv_image_fst)
  have dom: "{x \<in> dom (map_of (p # xs)). P x} = (if P f then insert f {x \<in> dom (map_of xs). P x} else {x \<in> dom (map_of xs). P x})"
    by (auto simp: p split: if_splits)
  have rest: "(\<Sum>x\<in>{x \<in> dom (map_of xs). P x}. the (map_of (p # xs) x)) = (\<Sum>x\<in>{x \<in> dom (map_of xs). P x}. the (map_of xs x))"
    using new by (intro sum.cong) (auto simp: p)
  have "sum_list (map snd (filter (\<lambda>p. P (fst p)) xs)) = (\<Sum>f\<in>{f \<in> dom (map_of xs). P f}. the (map_of xs f))"
    using Cons by simp
  moreover have "map_of (p # xs) f = Some v" by (simp add: p)
  ultimately show ?case using new finite_dom_map_of [of xs] rest unfolding dom
    by (cases "P f") (simp_all only: if_True if_False, simp_all add: p)
qed simp

lemma scan_live: "fst (scan_window rd k now windowSecs (rd_hgetall rd k w) 0 w) = live_sum H now w k"
  unfolding scan_total live_sum_def
  using sum_map_of [OF hgetall(1), of "\<lambda>f. now - f < windowSecs" k w] by (simp add: hgetall(2))

lemma breach_abs:
  "abs_at H Z now (snd (velocity_breach rd k now windowSecs est cap w)) = abs_at H Z now w"
  "fst (velocity_breach rd k now windowSecs est cap w) \<longleftrightarrow> 0 < cap \<and> live_sum H now w k + est > cap"
proof -
  have "live_usd H now (snd (scan_window rd k now windowSecs xs s w)) = live_usd H now w"
    "live_tok H now (snd (scan_window rd k now windowSecs xs s w)) = live_tok H now w"
    "live_holds Z now (snd (scan_window rd k now windowSecs xs s w)) = live_holds Z now w" for xs s
    by (auto simp: live_usd_def live_tok_def live_holds_def scan_abs)
  then show "abs_at H Z now (snd (velocity_breach rd k now windowSecs est cap w)) = abs_at H Z now w"
    by (simp add: abs_at_def velocity_breach_def case_prod_unfold Let_def)
  show "fst (velocity_breach rd k now windowSecs est cap w) \<longleftrightarrow> 0 < cap \<and> live_sum H now w k + est > cap"
    by (simp add: velocity_breach_def case_prod_unfold Let_def scan_live)
qed

lemma zrem_abs: "abs_at H Z now (rd_zremrangebyscore rd k now w) = abs_at H Z now w"
proof -
  have "live_holds Z now (rd_zremrangebyscore rd k now w) sk = live_holds Z now w sk" for sk
    by (auto simp: live_holds_def zremrange not_le split: option.splits if_splits)
  then show ?thesis by (simp add: abs_at_def fun_eq_iff live_usd_def live_tok_def live_sum_def zremrange)
qed

lemma zcard_live: "rd_zcard rd (concKey sk) (rd_zremrangebyscore rd (concKey sk) now w) = card (live_holds Z now w sk)"
proof -
  have "dom (Z (rd_zremrangebyscore rd (concKey sk) now w) (concKey sk)) = live_holds Z now w sk"
    by (auto simp: live_holds_def zremrange not_le split: option.splits if_splits)
  then show ?thesis by (simp add: zcard)
qed

lemma check_scope_refines:
  "abs_at H Z now (snd (check_scope rd now windowSecs u t sa w)) = abs_at H Z now w \<and>
   fst (check_scope rd now windowSecs u t sa w) = spec_breach u t (abs_at H Z now w) sa"
proof -
  let ?k = "sa_Key sa"
  obtain b1 w1 where v1: "velocity_breach rd (velUsdKey ?k) now windowSecs u (sa_MaxUSD sa) w = (b1, w1)" by force
  obtain b2 w2 where v2: "velocity_breach rd (velTokKey ?k) now windowSecs (real_of_int t) (real_of_int (sa_MaxTok sa)) w1 = (b2, w2)"
    by force
  have a1: "abs_at H Z now w1 = abs_at H Z now w" and a2: "abs_at H Z now w2 = abs_at H Z now w"
    using breach_abs(1) [of now "velUsdKey ?k" u "sa_MaxUSD sa" w]
      breach_abs(1) [of now "velTokKey ?k" "real_of_int t" "real_of_int (sa_MaxTok sa)" w1] by (simp_all add: v1 v2)
  have b1: "b1 \<longleftrightarrow> 0 < sa_MaxUSD sa \<and> ab_usd (abs_at H Z now w) ?k + u > sa_MaxUSD sa"
    using breach_abs(2) [of "velUsdKey ?k" now u "sa_MaxUSD sa" w] by (simp add: v1 abs_at_def live_usd_def)
  have b2: "b2 \<longleftrightarrow> 0 < sa_MaxTok sa \<and> ab_tok (abs_at H Z now w) ?k + real_of_int t > real_of_int (sa_MaxTok sa)"
    using breach_abs(2) [of "velTokKey ?k" now "real_of_int t" "real_of_int (sa_MaxTok sa)" w1]
    unfolding a1 [symmetric] by (simp add: v2 abs_at_def live_tok_def)
  have holds: "live_holds Z now w2 = ab_holds (abs_at H Z now w)" unfolding a2 [symmetric] by (simp add: abs_at_def)
  show ?thesis
  proof (cases "b1 \<or> b2")
    case True
    then show ?thesis using v1 v2 a1 a2 b1 b2
      by (cases b1; cases b2) (auto simp: check_scope_def spec_breach_def)
  next
    case False
    then have nb: "\<not> b1" "\<not> b2" by simp_all
    show ?thesis using v1 v2 a2 b1 b2 nb
      by (auto simp: check_scope_def spec_breach_def zrem_abs zcard_live holds Let_def)
  qed
qed

lemma check_scopes_refines:
  "abs_at H Z now (snd (check_scopes rd now windowSecs u t sas w)) = abs_at H Z now w \<and>
   fst (check_scopes rd now windowSecs u t sas w) =
     (case filter (\<lambda>sa. spec_breach u t (abs_at H Z now w) sa \<noteq> None) sas of
        [] \<Rightarrow> None | sa # _ \<Rightarrow> Some (sa_Name sa, the (spec_breach u t (abs_at H Z now w) sa)))"
proof (induction sas arbitrary: w)
  case (Cons sa sas)
  obtain r w1 where c: "check_scope rd now windowSecs u t sa w = (r, w1)" by force
  have r: "r = spec_breach u t (abs_at H Z now w) sa" "abs_at H Z now w1 = abs_at H Z now w"
    using check_scope_refines [of now u t sa w] by (simp_all add: c)
  show ?case using Cons.IH [of w1, unfolded r(2)] r(2)
    by (cases "spec_breach u t (abs_at H Z now w) sa") (simp_all add: c r(1))
qed simp

lemma incr_abs:
  "live_usd H now (snd (rd_hincrby rd (velUsdKey k) now d w)) = (live_usd H now w)(k := live_usd H now w k + d)"
  "live_tok H now (snd (rd_hincrby rd (velUsdKey k) now d w)) = live_tok H now w"
  "live_tok H now (snd (rd_hincrby rd (velTokKey k) now d w)) = (live_tok H now w)(k := live_tok H now w k + d)"
  "live_usd H now (snd (rd_hincrby rd (velTokKey k) now d w)) = live_usd H now w"
proof -
  have fresh: "now - now < windowSecs" by (simp add: windowSecs_def)
  note upd = live_sum_write [OF hincrby(2) fresh]
  show "live_usd H now (snd (rd_hincrby rd (velUsdKey k) now d w)) = (live_usd H now w)(k := live_usd H now w k + d)"
    "live_tok H now (snd (rd_hincrby rd (velUsdKey k) now d w)) = live_tok H now w"
    "live_tok H now (snd (rd_hincrby rd (velTokKey k) now d w)) = (live_tok H now w)(k := live_tok H now w k + d)"
    "live_usd H now (snd (rd_hincrby rd (velTokKey k) now d w)) = live_usd H now w"
    by (simp_all add: fun_eq_iff live_usd_def live_tok_def upd)
qed

lemma live_frame:
  "H w' = H w \<Longrightarrow> live_usd H now w' = live_usd H now w" "H w' = H w \<Longrightarrow> live_tok H now w' = live_tok H now w"
  "Z w' = Z w \<Longrightarrow> live_holds Z now w' = live_holds Z now w"
  by (simp_all only: live_usd_def [abs_def] live_tok_def [abs_def] live_sum_def live_holds_def [abs_def])

lemma zadd_holds:
  "now < s \<Longrightarrow> live_holds Z now (rd_zadd rd (concKey k) s m w) = (live_holds Z now w)(k := insert m (live_holds Z now w k))"
  by (auto simp: fun_eq_iff live_holds_def zadd)

lemma reserve_scope_refines:
  assumes "0 < httl"
  shows "abs_at H Z now (reserve_scope rd now windowSecs httl u t hold sa w) = spec_hold u t hold sa (abs_at H Z now w)"
proof -
  have win: "0 < windowSecs + 1" and httl: "0 < httl + 1" using assms by (simp_all add: windowSecs_def)
  have exp: "live_usd H now (rd_expire rd k s w) = live_usd H now w" "live_tok H now (rd_expire rd k s w) = live_tok H now w"
    "live_holds Z now (rd_expire rd k s w) = live_holds Z now w" if "0 < s" for k s w
    by (rule live_frame, rule expire [OF that])+
  have h: "live_holds Z now (snd (rd_hincrby rd k f d w)) = live_holds Z now w" for k f d w
    by (rule live_frame) (rule hincrby)
  have z: "live_usd H now (rd_zadd rd k s m w) = live_usd H now w" "live_tok H now (rd_zadd rd k s m w) = live_tok H now w"
    for k s m w by (rule live_frame, rule zadd)+
  show ?thesis using assms
    by (simp add: reserve_scope_def abs_at_def spec_hold_def Let_def exp [OF win] exp [OF httl] h z incr_abs zadd_holds)
qed

lemma reserve_fold_refines:
  "0 < httl \<Longrightarrow> abs_at H Z now (fold (reserve_scope rd now windowSecs httl u t hold) sas w) =
     fold (spec_hold u t hold) sas (abs_at H Z now w)"
  by (induction sas arbitrary: w) (simp_all add: reserve_scope_refines)

lemma reserve_script_refines:
  assumes "0 < httl"
  shows "(let (r, w') = reserve_script rd now windowSecs httl u t hold sas w in (r, abs_at H Z now w')) =
    spec_reserve u t hold sas (abs_at H Z now w)"
proof -
  obtain r w1 where c: "check_scopes rd now windowSecs u t sas w = (r, w1)" by force
  have r: "r = (case filter (\<lambda>sa. spec_breach u t (abs_at H Z now w) sa \<noteq> None) sas of
        [] \<Rightarrow> None | sa # _ \<Rightarrow> Some (sa_Name sa, the (spec_breach u t (abs_at H Z now w) sa)))"
    and a: "abs_at H Z now w1 = abs_at H Z now w"
    using check_scopes_refines [of now u t sas w] by (simp_all add: c)
  show ?thesis
    using r a reserve_fold_refines [OF assms]
    by (auto simp: reserve_script_def c spec_reserve_def split: list.splits)
qed

end

end
