(* ===== verification/ScopeStoreCaps.thy ===== *)
theory ScopeStoreCaps
  imports ScopeStore FirewallShared
begin

text \<open>
  What the shared store promises its clients: a delivered \<open>Reserve\<close> is the abstract check-then-reserve, and a
  firewall that enforces through the store admits a request only within the caps of every scope, counted across
  all replicas. The server laws are interpreted on an in-memory data set, which the examples run on.
\<close>

section \<open>The abstract reserve\<close>

lemma spec_hold_other:
  "sa_Key sa \<noteq> k \<Longrightarrow> ab_usd (spec_hold u t h sa a) k = ab_usd a k \<and> ab_tok (spec_hold u t h sa a) k = ab_tok a k
     \<and> ab_holds (spec_hold u t h sa a) k = ab_holds a k"
  by (simp add: spec_hold_def Let_def)

lemma spec_holds_other:
  "k \<notin> set (map sa_Key sas) \<Longrightarrow> ab_usd (fold (spec_hold u t h) sas a) k = ab_usd a k
     \<and> ab_tok (fold (spec_hold u t h) sas a) k = ab_tok a k \<and> ab_holds (fold (spec_hold u t h) sas a) k = ab_holds a k"
  by (induction sas arbitrary: a) (auto simp: spec_hold_other)

lemma spec_hold_own:
  "ab_usd (spec_hold u t h sa a) (sa_Key sa) = ab_usd a (sa_Key sa) + (if sa_MaxUSD sa > 0 then u else 0)
    \<and> ab_tok (spec_hold u t h sa a) (sa_Key sa) = ab_tok a (sa_Key sa) + (if sa_MaxTok sa > 0 then real_of_int t else 0)
    \<and> ab_holds (spec_hold u t h sa a) (sa_Key sa) =
        (if sa_MaxConc sa > 0 then insert h (ab_holds a (sa_Key sa)) else ab_holds a (sa_Key sa))"
  by (simp add: spec_hold_def Let_def)

lemma spec_holds_own:
  assumes "distinct (map sa_Key sas)" "sa \<in> set sas"
  shows "ab_usd (fold (spec_hold u t h) sas a) (sa_Key sa) = ab_usd a (sa_Key sa) + (if sa_MaxUSD sa > 0 then u else 0)
    \<and> ab_tok (fold (spec_hold u t h) sas a) (sa_Key sa) = ab_tok a (sa_Key sa) + (if sa_MaxTok sa > 0 then real_of_int t else 0)
    \<and> ab_holds (fold (spec_hold u t h) sas a) (sa_Key sa) =
        (if sa_MaxConc sa > 0 then insert h (ab_holds a (sa_Key sa)) else ab_holds a (sa_Key sa))"
  using assms
proof (induction sas arbitrary: a)
  case (Cons sb sas)
  show ?case
  proof (cases "sa = sb")
    case True
    then have "sa_Key sa \<notin> set (map sa_Key sas)" using Cons.prems(1) by simp
    with spec_holds_other [OF this, of u t h "spec_hold u t h sa a"] spec_hold_own [of u t h sa a] True show ?thesis
      by simp
  next
    case False
    then have sa: "sa \<in> set sas" "sa_Key sb \<noteq> sa_Key sa" using Cons.prems by auto
    from Cons.IH [OF _ sa(1), of "spec_hold u t h sb a"] spec_hold_other [OF sa(2), of u t h a] Cons.prems(1)
    show ?thesis by simp
  qed
qed simp

definition within_caps :: "abs_store \<Rightarrow> scopeArg \<Rightarrow> bool" where
  "within_caps a sa \<longleftrightarrow> (sa_MaxUSD sa > 0 \<longrightarrow> ab_usd a (sa_Key sa) \<le> sa_MaxUSD sa) \<and>
     (sa_MaxTok sa > 0 \<longrightarrow> ab_tok a (sa_Key sa) \<le> real_of_int (sa_MaxTok sa)) \<and>
     (sa_MaxConc sa > 0 \<longrightarrow> int (card (ab_holds a (sa_Key sa))) \<le> sa_MaxConc sa)"

lemma spec_reserve_within:
  assumes "distinct (map sa_Key sas)" "spec_reserve u t h sas a = ((True, n, k), a')" "sa \<in> set sas"
  shows "within_caps a' sa"
proof -
  have none: "filter (\<lambda>sa. spec_breach u t a sa \<noteq> None) sas = []" and a': "a' = fold (spec_hold u t h) sas a"
    using assms(2) by (auto simp: spec_reserve_def split: list.splits)
  have "spec_breach u t a sa = None" using none assms(3) by (auto simp: filter_empty_conv)
  then have free: "sa_MaxUSD sa > 0 \<longrightarrow> ab_usd a (sa_Key sa) + u \<le> sa_MaxUSD sa"
    "sa_MaxTok sa > 0 \<longrightarrow> ab_tok a (sa_Key sa) + real_of_int t \<le> real_of_int (sa_MaxTok sa)"
    "sa_MaxConc sa > 0 \<longrightarrow> int (card (ab_holds a (sa_Key sa))) < sa_MaxConc sa"
    by (auto simp: spec_breach_def split: if_splits)
  have "card (insert h (ab_holds a (sa_Key sa))) \<le> Suc (card (ab_holds a (sa_Key sa)))" by (rule card_insert_le_m1) simp_all
  then show ?thesis using spec_holds_own [OF assms(1,3), of u t h a] free unfolding within_caps_def a' by auto
qed

lemma spec_reserve_denied:
  assumes "spec_reserve u t h sas a = ((False, n, k), a')"
  shows "a' = a \<and> (\<exists>sa\<in>set sas. sa_Name sa = n \<and> spec_breach u t a sa = Some k)"
proof (cases "filter (\<lambda>sa. spec_breach u t a sa \<noteq> None) sas")
  case Nil
  then show ?thesis using assms by (simp add: spec_reserve_def)
next
  case (Cons sa rest)
  have "spec_reserve u t h sas a = ((False, sa_Name sa, the (spec_breach u t a sa)), a)"
    unfolding spec_reserve_def Cons by simp
  then have eqs: "n = sa_Name sa" "k = the (spec_breach u t a sa)" "a' = a" using assms by simp_all
  have "sa \<in> set (filter (\<lambda>sa. spec_breach u t a sa \<noteq> None) sas)" unfolding Cons by simp
  then have "sa \<in> set sas" "spec_breach u t a sa = Some k" unfolding eqs by auto
  with eqs(1,3) show ?thesis by blast
qed

section \<open>An in-memory server\<close>

text \<open>Hashes and sorted sets as association lists, and the store's clock; every command is delivered.\<close>

record mem_world =
  mw_hash :: "gostring \<Rightarrow> (int \<times> real) list"
  mw_zset :: "gostring \<Rightarrow> (gostring \<times> int) list"
  mw_keys :: "(gostring \<times> instant) list"
  mw_now :: int \<comment> \<open>seconds\<close>

definition mem_T :: "mem_world \<Rightarrow> instant" where "mem_T w = mw_now w * second"
definition mem_K :: "mem_world \<Rightarrow> gostring \<rightharpoonup> instant" where "mem_K w = map_of (mw_keys w)"

definition mem_live :: "gostring \<Rightarrow> mem_world \<Rightarrow> bool" where
  "mem_live k w = (case map_of (mw_keys w) k of None \<Rightarrow> False | Some e \<Rightarrow> mem_T w < e)"

definition mem_redis :: "mem_world redis" where
  "mem_redis = \<lparr>rd_deliver = \<lambda>w. (Delivered, w),
     rd_hgetall = \<lambda>k w. AList.clearjunk (mw_hash w k),
     rd_hdel = \<lambda>k f w. w\<lparr>mw_hash := (mw_hash w)(k := AList.delete f (mw_hash w k))\<rparr>,
     rd_hincrby = \<lambda>k f d w. (let v = (case map_of (mw_hash w k) f of None \<Rightarrow> 0 | Some v \<Rightarrow> v) + d
        in (v, w\<lparr>mw_hash := (mw_hash w)(k := AList.update f v (mw_hash w k))\<rparr>)),
     rd_hset = \<lambda>k f v w. w\<lparr>mw_hash := (mw_hash w)(k := AList.update f v (mw_hash w k))\<rparr>,
     rd_expire = \<lambda>k s w. w,
     rd_zremrangebyscore = \<lambda>k mx w. w\<lparr>mw_zset := (mw_zset w)(k :=
        filter (\<lambda>(m, s). \<not> s \<le> mx) (AList.clearjunk (mw_zset w k)))\<rparr>,
     rd_zcard = \<lambda>k w. length (AList.clearjunk (mw_zset w k)),
     rd_zadd = \<lambda>k s m w. w\<lparr>mw_zset := (mw_zset w)(k := AList.update m s (mw_zset w k))\<rparr>,
     rd_zrem = \<lambda>k m w. w\<lparr>mw_zset := (mw_zset w)(k := AList.delete m (mw_zset w k))\<rparr>,
     rd_set = \<lambda>k d w. (True, w\<lparr>mw_keys := AList.update k (mem_T w + d) (mw_keys w)\<rparr>),
     rd_exists = \<lambda>k w. (Some (if mem_live k w then 1 else 0), w),
     rd_setnx = \<lambda>k d w. if mem_live k w then (Some False, w)
       else (Some True, w\<lparr>mw_keys := AList.update k (mem_T w + d) (mw_keys w)\<rparr>)\<rparr>"

definition mem_H :: "mem_world \<Rightarrow> gostring \<Rightarrow> int \<rightharpoonup> real" where "mem_H w k = map_of (mw_hash w k)"
definition mem_Z :: "mem_world \<Rightarrow> gostring \<Rightarrow> gostring \<rightharpoonup> int" where "mem_Z w k = map_of (mw_zset w k)"

lemma length_clearjunk_dom: "length (AList.clearjunk xs) = card (dom (map_of xs))"
proof -
  have "length (map fst (AList.clearjunk xs)) = card (set (map fst (AList.clearjunk xs)))"
    by (rule distinct_card [symmetric]) (rule distinct_clearjunk)
  also have "set (map fst (AList.clearjunk xs)) = dom (map_of xs)"
    by (simp add: dom_map_of_conv_image_fst [of "AList.clearjunk xs", symmetric] map_of_clearjunk)
  finally show ?thesis by simp
qed

interpretation mem: redis_server mem_redis mem_H mem_Z
proof
  fix k :: gostring and f :: int and d v :: real and w :: mem_world and mx s :: int and m :: gostring
  show "distinct (map fst (rd_hgetall mem_redis k w))" by (simp add: mem_redis_def distinct_clearjunk)
  show "map_of (rd_hgetall mem_redis k w) = mem_H w k" by (simp add: mem_redis_def mem_H_def map_of_clearjunk)
  show "mem_H (rd_hdel mem_redis k f w) = (mem_H w)(k := (mem_H w k)(f := None))" "mem_Z (rd_hdel mem_redis k f w) = mem_Z w"
    by (auto simp: fun_eq_iff mem_redis_def mem_H_def mem_Z_def delete_conv')
  show "fst (rd_hincrby mem_redis k f d w) = (case mem_H w k f of None \<Rightarrow> 0 | Some v \<Rightarrow> v) + d"
    "mem_H (snd (rd_hincrby mem_redis k f d w)) =
       (mem_H w)(k := (mem_H w k)(f \<mapsto> (case mem_H w k f of None \<Rightarrow> 0 | Some v \<Rightarrow> v) + d))"
    "mem_Z (snd (rd_hincrby mem_redis k f d w)) = mem_Z w"
    by (auto simp: fun_eq_iff mem_redis_def mem_H_def mem_Z_def update_conv' Let_def)
  show "mem_H (rd_hset mem_redis k f v w) = (mem_H w)(k := (mem_H w k)(f \<mapsto> v))" "mem_Z (rd_hset mem_redis k f v w) = mem_Z w"
    by (auto simp: fun_eq_iff mem_redis_def mem_H_def mem_Z_def update_conv')
  show "mem_H (rd_expire mem_redis k s w) = mem_H w" "mem_Z (rd_expire mem_redis k s w) = mem_Z w"
    by (simp_all add: mem_redis_def)
  show "mem_Z (rd_zremrangebyscore mem_redis k mx w) =
      (mem_Z w)(k := (\<lambda>m. case mem_Z w k m of None \<Rightarrow> None | Some s \<Rightarrow> if s \<le> mx then None else Some s))"
    "mem_H (rd_zremrangebyscore mem_redis k mx w) = mem_H w"
    by (auto simp: fun_eq_iff mem_redis_def mem_H_def mem_Z_def map_of_filter_distinct distinct_clearjunk map_of_clearjunk
        split: option.split)
  show "rd_zcard mem_redis k w = card (dom (mem_Z w k))" "finite (dom (mem_Z w k))"
    by (simp_all add: mem_redis_def mem_Z_def length_clearjunk_dom finite_dom_map_of)
  show "mem_Z (rd_zadd mem_redis k s m w) = (mem_Z w)(k := (mem_Z w k)(m \<mapsto> s))" "mem_H (rd_zadd mem_redis k s m w) = mem_H w"
    by (auto simp: fun_eq_iff mem_redis_def mem_H_def mem_Z_def update_conv')
  show "mem_Z (rd_zrem mem_redis k m w) = (mem_Z w)(k := (mem_Z w k)(m := None))" "mem_H (rd_zrem mem_redis k m w) = mem_H w"
    by (auto simp: fun_eq_iff mem_redis_def mem_H_def mem_Z_def delete_conv')
qed

interpretation mem_strings: redis_keys mem_redis mem_K mem_T
  by unfold_locales
    (auto simp: mem_redis_def mem_K_def mem_T_def mem_live_def update_conv' split: if_splits option.splits)

section \<open>The store refines the abstract reserve\<close>

lemma rs_Reserve_delivered:
  assumes "redis_server (rs_rdb s) H Z" "0 < rs_holdTTL s" "rd_deliver (rs_rdb s) w = (Delivered, w1)"
  shows "\<exists>adm n k w'. rs_Reserve s keys names mu mt mc u t hold w = ((adm, n, k, None), w') \<and>
    ((adm, n, k), abs_at H Z (rs_now s w) w') =
      spec_reserve u t hold (scope_args keys names mu mt mc) (abs_at H Z (rs_now s w) w1)"
proof -
  let ?sas = "scope_args keys names mu mt mc"
  obtain adm n k w' where r: "reserve_script (rs_rdb s) (rs_now s w) windowSecs (rs_holdTTL s) u t hold ?sas w1 = ((adm, n, k), w')"
    by (metis prod.exhaust)
  from redis_server.reserve_script_refines [OF assms(1,2), of "rs_now s w" u t hold ?sas w1]
  have spec: "((adm, n, k), abs_at H Z (rs_now s w) w') = spec_reserve u t hold ?sas (abs_at H Z (rs_now s w) w1)"
    by (simp add: r)
  have "adm \<Longrightarrow> n = [] \<and> k = []" using r by (auto simp: reserve_script_def split: option.splits prod.splits)
  then have "rs_Reserve s keys names mu mt mc u t hold w = ((adm, n, k, None), w')"
    using assms(3) r by (auto simp: rs_Reserve_def run_script_def)
  with spec show ?thesis by blast
qed

text \<open>
  C18. The Lua script is an atomic check-then-reserve. When the reserve script is delivered, the answer of \<open>Reserve\<close>
  and the rolling sums and live holds it leaves are those of the abstract store: it denies exactly when some
  scope's rolling minute plus the estimate exceeds its cap or its live holds reach the concurrency cap, naming the
  first such scope and changing no sum and no hold (only expired data is purged); otherwise it adds the estimate
  and the hold to every capped dimension of every scope.
\<close>
theorem shared_reserve_refines:
  assumes "redis_server (rs_rdb s) H Z" "0 < rs_holdTTL s" "rd_deliver (rs_rdb s) w = (Delivered, w1)"
  shows "\<exists>adm n k w'. rs_Reserve s keys names mu mt mc u t hold w = ((adm, n, k, None), w') \<and>
    ((adm, n, k), abs_at H Z (rs_now s w) w') =
      spec_reserve u t hold (scope_args keys names mu mt mc) (abs_at H Z (rs_now s w) w1)"
  using assms by (rule rs_Reserve_delivered)

definition ex_store :: "mem_world redisStore" where "ex_store = NewClient mem_redis 0 mw_now"

definition ex_world :: mem_world where
  "ex_world = \<lparr>mw_hash = (\<lambda>_. [])(velUsdKey ''org:a'' := [(90, 2), (170, 3)]), mw_zset = (\<lambda>_. []), mw_keys = [], mw_now = 200\<rparr>"

lemma ex_store_simps [simp]: "rs_rdb ex_store = mem_redis" "rs_holdTTL ex_store = 300" "rs_now ex_store = mw_now"
  "rd_deliver mem_redis x = (Delivered, x)"
  by (simp_all add: ex_store_def NewClient_def holdTTLSecs_def mem_redis_def)

theorem shared_reserve_refines_witness:
  "\<exists>adm n k w'. rs_Reserve ex_store [''org:a''] [''org''] [4] [0] [0] 2 10 ''h'' ex_world = ((adm, n, k, None), w') \<and>
    ((adm, n, k), abs_at mem_H mem_Z 200 w') =
      spec_reserve 2 10 ''h'' (scope_args [''org:a''] [''org''] [4] [0] [0]) (abs_at mem_H mem_Z 200 ex_world)"
  using shared_reserve_refines [of ex_store mem_H mem_Z ex_world ex_world "[''org:a'']" "[''org'']" "[4]" "[0]" "[0]" 2 10 "''h''"]
    mem.redis_server_axioms
  by (simp add: ex_world_def)

section \<open>The firewall on the shared store\<close>

lemma scope_args_caps:
  "scope_args (map sc_Key scs) (map sc_Name scs) (map (MaxUSDPerMin \<circ> sc_Limits) scs) (map (MaxTokensPerMin \<circ> sc_Limits) scs)
     (map (MaxConcurrent \<circ> sc_Limits) scs) =
   map (\<lambda>sc. \<lparr>sa_Key = sc_Key sc, sa_Name = sc_Name sc, sa_MaxUSD = MaxUSDPerMin (sc_Limits sc),
     sa_MaxTok = MaxTokensPerMin (sc_Limits sc), sa_MaxConc = MaxConcurrent (sc_Limits sc)\<rparr>) scs"
  by (induction scs) simp_all

lemma enterShared_store_admits:
  assumes "enterShared ss scs r h c u t hold now f w = (Inr tk, f', w')" "tk_store tk \<noteq> None"
  shows "\<exists>n k. fst (ss_Reserve ss (map sc_Key (filter has_cap scs)) (map sc_Name (filter has_cap scs))
      (map (MaxUSDPerMin \<circ> sc_Limits) (filter has_cap scs)) (map (MaxTokensPerMin \<circ> sc_Limits) (filter has_cap scs))
      (map (MaxConcurrent \<circ> sc_Limits) (filter has_cap scs)) u t hold w) = (True, n, k, None)"
    and "snd (ss_Reserve ss (map sc_Key (filter has_cap scs)) (map sc_Name (filter has_cap scs))
      (map (MaxUSDPerMin \<circ> sc_Limits) (filter has_cap scs)) (map (MaxTokensPerMin \<circ> sc_Limits) (filter has_cap scs))
      (map (MaxConcurrent \<circ> sc_Limits) (filter has_cap scs)) u t hold w) = w'"
  using assms
  by (auto simp: enterShared_cases reserveScopesLocal_cases sharedCaps_def zero_ticket_def Let_def
      split: if_splits option.splits sum.splits prod.splits)

text \<open>
  C17. Caps hold across replicas. If a firewall enforces through the Redis store and \<open>EnterChain\<close> admits a request
  with a store-backed ticket, then, whatever other replicas did before the script ran, every scope of the chain is
  within its dollar, token and concurrency caps in the shared store at that moment, the request included.
\<close>
theorem shared_admission_within_caps:
  assumes "redis_server (rs_rdb s) H Z" "0 < rs_holdTTL s"
    and "fw_enabled f" "fw_scopeStore f = Some (redis_scope_store s)" "distinct (map sc_Key scs)"
    and "fw_EnterChain scs h u t hold now f w = (Inr tk, f', w')" "tk_store tk \<noteq> None" "sc \<in> set scs"
    and "clock = rs_now s (snd (snd (isKilled (now 0) (fst (chain_run scs)) f w)))"
  shows "(0 < MaxUSDPerMin (sc_Limits sc) \<longrightarrow> live_usd H clock w' (sc_Key sc) \<le> MaxUSDPerMin (sc_Limits sc)) \<and>
    (0 < MaxTokensPerMin (sc_Limits sc) \<longrightarrow> live_tok H clock w' (sc_Key sc) \<le> real_of_int (MaxTokensPerMin (sc_Limits sc))) \<and>
    (0 < MaxConcurrent (sc_Limits sc) \<longrightarrow> int (card (live_holds Z clock w' (sc_Key sc))) \<le> MaxConcurrent (sc_Limits sc))"
proof (cases "has_cap sc")
  case True
  let ?capped = "filter has_cap scs"
  let ?args = "scope_args (map sc_Key ?capped) (map sc_Name ?capped) (map (MaxUSDPerMin \<circ> sc_Limits) ?capped)
      (map (MaxTokensPerMin \<circ> sc_Limits) ?capped) (map (MaxConcurrent \<circ> sc_Limits) ?capped)"
  let ?k = "isKilled (now 0) (fst (chain_run scs)) f w"
  define w0 where "w0 = snd (snd ?k)"
  have "enterChain scs (fst (chain_run scs)) h (snd (chain_run scs)) u t hold now f w = (Inr tk, f', w')"
    using assms(3,6) by (simp add: EnterChain_cases split: if_splits)
  then obtain u' t' where shared: "enterShared (redis_scope_store s) scs (fst (chain_run scs)) h (snd (chain_run scs)) u' t'
      hold now (fst (snd ?k)) w0 = (Inr tk, f', w')"
    using assms(4) by (auto simp: enterChain_def frame_simps case_prod_unfold w0_def Let_def split: if_splits)
  note admits = enterShared_store_admits [OF shared assms(7)]
  let ?res = "rs_Reserve s (map sc_Key ?capped) (map sc_Name ?capped) (map (MaxUSDPerMin \<circ> sc_Limits) ?capped)
      (map (MaxTokensPerMin \<circ> sc_Limits) ?capped) (map (MaxConcurrent \<circ> sc_Limits) ?capped) u' t' hold w0"
  have ss: "ss_Reserve (redis_scope_store s) = rs_Reserve s" by (simp add: redis_scope_store_def)
  from admits(1) obtain n k where "fst ?res = (True, n, k, None)" unfolding ss by blast
  moreover have "snd ?res = w'" using admits(2) unfolding ss .
  ultimately have res: "?res = ((True, n, k, None), w')" by (simp only: prod_eq_iff fst_conv snd_conv)
  then obtain w1 where "rd_deliver (rs_rdb s) w0 = (Delivered, w1)"
    by (auto simp: rs_Reserve_def run_script_def split: prod.splits delivery.splits option.splits)
  from rs_Reserve_delivered [OF assms(1,2) this, of "map sc_Key ?capped"] res
  have spec: "spec_reserve u' t' hold ?args (abs_at H Z clock w1) = ((True, n, k), abs_at H Z clock w')"
    unfolding assms(9) w0_def [symmetric] by (metis (no_types, lifting) prod.inject)
  let ?sa = "\<lparr>sa_Key = sc_Key sc, sa_Name = sc_Name sc, sa_MaxUSD = MaxUSDPerMin (sc_Limits sc),
     sa_MaxTok = MaxTokensPerMin (sc_Limits sc), sa_MaxConc = MaxConcurrent (sc_Limits sc)\<rparr>"
  have "distinct (map sa_Key ?args)"
    unfolding scope_args_caps using assms(5) by (simp add: comp_def distinct_map_filter)
  moreover have "?sa \<in> set ?args" unfolding scope_args_caps using True assms(8) by auto
  ultimately have "within_caps (abs_at H Z clock w') ?sa" using spec by (blast intro: spec_reserve_within)
  then show ?thesis by (simp add: within_caps_def abs_at_def)
next
  case False
  then show ?thesis by (simp add: has_cap_def)
qed

definition ex_shared_fw :: "mem_world firewall" where
  "ex_shared_fw = WithScopeStore (Some (redis_scope_store ex_store)) (fw_New True zero_limits)"

definition ex_shared_chain :: "scope list" where
  "ex_shared_chain = [\<lparr>sc_Name = ''org'', sc_Key = ''org:a'', sc_Limits = zero_limits\<lparr>MaxUSDPerMin := 6\<rparr>\<rparr>]"

theorem shared_admission_within_caps_witness:
  "\<exists>tk f' w'. fw_EnterChain ex_shared_chain ''p'' 2 10 ''h'' ex_now ex_shared_fw ex_world = (Inr tk, f', w') \<and>
     live_usd mem_H 200 w' ''org:a'' \<le> 6"
proof -
  let ?e = "fw_EnterChain ex_shared_chain ''p'' 2 10 ''h'' ex_now ex_shared_fw ex_world"
  have fw: "fw_enabled ex_shared_fw" "fw_scopeStore ex_shared_fw = Some (redis_scope_store ex_store)"
    by (simp_all add: ex_shared_fw_def WithScopeStore_def fw_New_def Let_def)
  have run: "chain_run ex_shared_chain = ([], 0)" by (simp add: chain_run_def ex_shared_chain_def)
  have good: "\<not> malformed ex_shared_chain"
    by (simp add: malformed_def bad_key_def ex_shared_chain_def maxScopeKeyLen_def)
  have gc: "fw_scopeStore (fw_gcLocked n ex_shared_fw) = Some (redis_scope_store ex_store)" for n
    by (simp add: fw_gcLocked_def fw)
  have reserve: "fst (rs_Reserve ex_store [''org:a''] [''org''] [6] [0] [0] 2 10 ''h'' ex_world) = (True, [], [], None)"
  proof -
    let ?b = "velocity_breach mem_redis (velUsdKey ''org:a'') (mw_now ex_world) windowSecs 2 6 ex_world"
    have "\<not> fst ?b"
      unfolding mem.breach_abs(2) mem.scan_live [symmetric] mem.scan_total
      by (simp add: ex_world_def mem_redis_def windowSecs_def)
    then obtain w1 where "?b = (False, w1)" by (cases ?b) auto
    then have "check_scope mem_redis (mw_now ex_world) windowSecs 2 10
        \<lparr>sa_Key = ''org:a'', sa_Name = ''org'', sa_MaxUSD = 6, sa_MaxTok = 0, sa_MaxConc = 0\<rparr> ex_world = (None, w1)"
      by (simp add: check_scope_def velocity_breach_def [of mem_redis "velTokKey ''org:a''"])
    then show ?thesis by (simp add: rs_Reserve_def run_script_def reserve_script_def)
  qed
  have "\<exists>tk. fst ?e = Inr tk \<and> tk_store tk \<noteq> None"
    using reserve
    by (auto simp: EnterChain_cases fw run good enterChain_def isKilled_def enterShared_cases checkLoopBudget_no_run gc
        sharedCaps_def has_cap_def redis_scope_store_def Let_def split: prod.splits)
      (simp_all add: ex_shared_chain_def has_cap_def zero_limits_def gc)
  then obtain tk f' w' where e: "?e = (Inr tk, f', w')" "tk_store tk \<noteq> None" by (metis prod.collapse)
  have "live_usd mem_H 200 w' ''org:a'' \<le> 6"
    using shared_admission_within_caps [of ex_store mem_H mem_Z ex_shared_fw ex_shared_chain "''p''" 2 10 "''h''" ex_now
        ex_world tk f' w' "hd ex_shared_chain" 200] mem.redis_server_axioms e fw
    by (simp add: run isKilled_def) (simp add: ex_shared_chain_def ex_world_def)
  with e show ?thesis by blast
qed

end
