(* ===== verification/Broker.thy ===== *)
theory Broker
  imports ScopeStoreCaps
begin

text \<open>
  The provider-quota broker of \<open>internal/broker/broker.go\<close>: a provider's shared requests and tokens per minute are
  reserved in the scope store before dispatch. The interface the broker relies on is the locale \<open>scope_store\<close>; the
  Redis store provides it (\<open>redis_store\<close>), and the property states the quota over that store.
\<close>

section \<open>Model\<close>

definition windowRetryAfterSec :: int where "windowRetryAfterSec = 60"

record quota =
  q_RPM :: int
  q_TPM :: int

definition quota_any :: "quota \<Rightarrow> bool" where "quota_any l \<longleftrightarrow> q_RPM l > 0 \<or> q_TPM l > 0"

record 'w broker =
  br_store :: "'w ScopeStoreI option"
  br_limits :: "(gostring, quota) gomap"
  br_degraded :: nat

text \<open>A \<open>*Broker\<close> may be nil.\<close>

definition Degraded :: "'w broker option \<Rightarrow> nat" where
  "Degraded b = (case b of None \<Rightarrow> 0 | Some b \<Rightarrow> br_degraded b)"

definition broker_New :: "'w ScopeStoreI option \<Rightarrow> (gostring, quota) gomap \<Rightarrow> 'w broker" where
  "broker_New store limits = \<lparr>br_store = store, br_limits = limits, br_degraded = 0\<rparr>"

definition quota_of :: "gostring \<Rightarrow> 'w broker \<Rightarrow> quota" where
  "quota_of provider b = (case mget (br_limits b) provider of None \<Rightarrow> \<lparr>q_RPM = 0, q_TPM = 0\<rparr> | Some l \<Rightarrow> l)"

definition broker_Active :: "gostring \<Rightarrow> 'w broker option \<Rightarrow> bool" where
  "broker_Active provider b0 \<longleftrightarrow>
     (case b0 of None \<Rightarrow> False | Some b \<Rightarrow> br_store b \<noteq> None \<and> quota_any (quota_of provider b))"

record 'w lease =
  le_store :: "'w ScopeStoreI"
  le_key :: gostring
  le_hold :: gostring
  le_estTokens :: int
  le_rpm :: bool
  le_tpm :: bool
  le_settled :: bool
  le_released :: bool

definition prov_scopeKey :: "gostring \<Rightarrow> gostring" where "prov_scopeKey provider = ''prov:'' @ provider"

text \<open>\<open>hold\<close> is the value \<open>newHoldID\<close> draws. The result is \<open>(lease, admitted, retryAfterSec)\<close>.\<close>

definition broker_Reserve ::
  "gostring \<Rightarrow> gostring \<Rightarrow> int \<Rightarrow> 'w broker option \<Rightarrow> 'w \<Rightarrow> ('w lease option \<times> bool \<times> int) \<times> 'w broker option \<times> 'w" where
  "broker_Reserve hold provider estTokens b0 w =
     (case b0 of
        None \<Rightarrow> ((None, True, 0), b0, w)
      | Some b \<Rightarrow>
          (case br_store b of
             None \<Rightarrow> ((None, True, 0), b0, w)
           | Some ss \<Rightarrow>
               if \<not> broker_Active provider b0 then ((None, True, 0), b0, w)
               else
                 (let l = quota_of provider b; key = prov_scopeKey provider
                  in case ss_Reserve ss [key] [''provider''] [real_of_int (q_RPM l)] [q_TPM l] [0] 1 estTokens hold w of
                       ((_, _, _, Some err), w1) \<Rightarrow> ((None, True, 0), Some (b\<lparr>br_degraded := Suc (br_degraded b)\<rparr>), w1)
                     | ((False, _, _, None), w1) \<Rightarrow> ((None, False, windowRetryAfterSec), b0, w1)
                     | ((True, _, _, None), w1) \<Rightarrow>
                         ((Some \<lparr>le_store = ss, le_key = key, le_hold = hold, le_estTokens = estTokens,
                             le_rpm = (q_RPM l > 0), le_tpm = (q_TPM l > 0), le_settled = False, le_released = False\<rparr>,
                           True, 0), b0, w1))))"

definition lease_Settle :: "int \<Rightarrow> 'w lease option \<Rightarrow> 'w \<Rightarrow> 'w lease option \<times> 'w" where
  "lease_Settle actualTokens le0 w =
     (case le0 of
        None \<Rightarrow> (None, w)
      | Some le \<Rightarrow>
          if le_settled le \<or> le_released le then (Some le, w)
          else (let dt = (if le_tpm le then wrap64 (actualTokens - le_estTokens le) else 0)
                in (Some (le\<lparr>le_settled := True\<rparr>), snd (ss_Settle (le_store le) [le_key le] 0 dt w))))"

definition lease_Release :: "'w lease option \<Rightarrow> 'w \<Rightarrow> 'w lease option \<times> 'w" where
  "lease_Release le0 w =
     (case le0 of
        None \<Rightarrow> (None, w)
      | Some le \<Rightarrow>
          if le_released le then (Some le, w)
          else (let count = (if le_rpm le then 1 else 0); tok = (if le_tpm le then le_estTokens le else 0)
                in (Some (le\<lparr>le_released := True\<rparr>),
                    snd (ss_Release (le_store le) [le_key le] (le_hold le) count tok (le_settled le) w))))"

section \<open>Leases\<close>

lemma lease_idempotent:
  "lease_Settle t2 (fst (lease_Settle t1 le w)) w' = (fst (lease_Settle t1 le w), w')"
  "lease_Release (fst (lease_Release le w)) w' = (fst (lease_Release le w), w')"
  "lease_Settle t1 (fst (lease_Release le w)) w' = (fst (lease_Release le w), w')"
  by (auto simp: lease_Settle_def lease_Release_def Let_def split: option.split)

section \<open>The scope store as an interface\<close>

text \<open>
  What a client may rely on for one scope: with \<open>usd\<close> and \<open>tok\<close> the rolling minute of a scope key at the store's
  clock, an admitted reservation leaves the capped dimensions within their caps, and a denial happens only when a
  capped dimension has no room for the estimate, which then stays as it was.
\<close>

locale scope_store =
  fixes ss :: "'w ScopeStoreI"
    and clock :: "'w \<Rightarrow> int"
    and usd :: "int \<Rightarrow> 'w \<Rightarrow> gostring \<Rightarrow> real"
    and tok :: "int \<Rightarrow> 'w \<Rightarrow> gostring \<Rightarrow> real"
  assumes reserve_within: "ss_Reserve ss [k] [n] [mu] [mt] [0] u t h w = ((True, a, b, None), w') \<Longrightarrow>
      (0 < mu \<longrightarrow> usd (clock w) w' k \<le> mu) \<and> (0 < mt \<longrightarrow> tok (clock w) w' k \<le> real_of_int mt)"
    and reserve_denied: "ss_Reserve ss [k] [n] [mu] [mt] [0] u t h w = ((False, a, b, None), w') \<Longrightarrow>
      (0 < mu \<and> usd (clock w) w' k + u > mu) \<or> (0 < mt \<and> tok (clock w) w' k + real_of_int t > real_of_int mt)"
begin

lemma broker_quota:
  assumes "br_store b = Some ss" "broker_Reserve hold p t (Some b) w = ((le, adm, retry), b', w')" "broker_Active p (Some b)"
  shows "(le \<noteq> None \<longrightarrow> adm \<and> (0 < q_RPM (quota_of p b) \<longrightarrow> usd (clock w) w' (prov_scopeKey p) \<le> real_of_int (q_RPM (quota_of p b))) \<and>
        (0 < q_TPM (quota_of p b) \<longrightarrow> tok (clock w) w' (prov_scopeKey p) \<le> real_of_int (q_TPM (quota_of p b)))) \<and>
    (\<not> adm \<longrightarrow> le = None \<and> retry = 60 \<and>
      ((0 < q_RPM (quota_of p b) \<and> usd (clock w) w' (prov_scopeKey p) + 1 > real_of_int (q_RPM (quota_of p b))) \<or>
       (0 < q_TPM (quota_of p b) \<and> tok (clock w) w' (prov_scopeKey p) + real_of_int t > real_of_int (q_TPM (quota_of p b))))) \<and>
    (adm \<and> le = None \<longrightarrow> b' = Some (b\<lparr>br_degraded := Suc (br_degraded b)\<rparr>))"
proof -
  let ?l = "quota_of p b"
  let ?r = "ss_Reserve ss [prov_scopeKey p] [''provider''] [real_of_int (q_RPM ?l)] [q_TPM ?l] [0] 1 t hold w"
  obtain ok x y err w1 where r: "?r = ((ok, x, y, err), w1)" by (metis prod_cases5 prod.collapse)
  show ?thesis
  proof (cases err)
    case (Some e)
    then show ?thesis using assms r by (cases ok) (auto simp: broker_Reserve_def Let_def)
  next
    case None
    show ?thesis
    proof (cases ok)
      case True
      then have "ok = True" by simp
      from reserve_within [OF r [unfolded this None]] show ?thesis
        using assms r True None by (auto simp: broker_Reserve_def Let_def)
    next
      case False
      then have "ok = False" by simp
      from reserve_denied [OF r [unfolded this None]] show ?thesis
        using assms r False None by (auto simp: broker_Reserve_def windowRetryAfterSec_def Let_def)
    qed
  qed
qed

end

text \<open>A Redis-backed store on a lawful server is such a store.\<close>

locale redis_store = redis_server "rs_rdb s" H Z
  for s :: "'w redisStore" and H :: "'w \<Rightarrow> gostring \<Rightarrow> int \<rightharpoonup> real" and Z :: "'w \<Rightarrow> gostring \<Rightarrow> gostring \<rightharpoonup> int" +
  assumes hold_positive: "0 < rs_holdTTL s"
begin

lemma reserve_spec:
  assumes "rs_Reserve s keys names mu mt mc u t hold w = ((adm, a, b, None), w')"
  shows "\<exists>w1. ((adm, a, b), abs_at H Z (rs_now s w) w') =
    spec_reserve u t hold (scope_args keys names mu mt mc) (abs_at H Z (rs_now s w) w1)"
proof -
  obtain w1 where "rd_deliver (rs_rdb s) w = (Delivered, w1)"
    using assms by (auto simp: rs_Reserve_def run_script_def split: prod.splits delivery.splits option.splits)
  from rs_Reserve_delivered [OF redis_server_axioms hold_positive this, of keys names mu mt mc u t hold] assms
  show ?thesis by (metis (no_types, lifting) prod.inject)
qed

end

sublocale redis_store \<subseteq> scope_store "redis_scope_store s" "rs_now s" "live_usd H" "live_tok H"
proof
  fix k n :: gostring and mu u :: real and mt t :: int and h a b :: gostring and w w'
  let ?sa = "\<lparr>sa_Key = k, sa_Name = n, sa_MaxUSD = mu, sa_MaxTok = mt, sa_MaxConc = 0\<rparr>"
  have args: "scope_args [k] [n] [mu] [mt] [0] = [?sa]" by simp
  {
    assume "ss_Reserve (redis_scope_store s) [k] [n] [mu] [mt] [0] u t h w = ((True, a, b, None), w')"
    then obtain w1 where "((True, a, b), abs_at H Z (rs_now s w) w') = spec_reserve u t h [?sa] (abs_at H Z (rs_now s w) w1)"
      using reserve_spec [of "[k]" "[n]" "[mu]" "[mt]" "[0]" u t h w True a b w'] unfolding args
      by (auto simp: redis_scope_store_def)
    from spec_reserve_within [OF _ this [symmetric]] have "within_caps (abs_at H Z (rs_now s w) w') ?sa" by simp
    then show "(0 < mu \<longrightarrow> live_usd H (rs_now s w) w' k \<le> mu) \<and> (0 < mt \<longrightarrow> live_tok H (rs_now s w) w' k \<le> real_of_int mt)"
      by (simp add: within_caps_def abs_at_def)
  next
    assume "ss_Reserve (redis_scope_store s) [k] [n] [mu] [mt] [0] u t h w = ((False, a, b, None), w')"
    then obtain w1 where "((False, a, b), abs_at H Z (rs_now s w) w') = spec_reserve u t h [?sa] (abs_at H Z (rs_now s w) w1)"
      using reserve_spec [of "[k]" "[n]" "[mu]" "[mt]" "[0]" u t h w False a b w'] unfolding args
      by (auto simp: redis_scope_store_def)
    from spec_reserve_denied [OF this [symmetric]]
    have "spec_breach u t (abs_at H Z (rs_now s w) w') ?sa = Some b" by auto
    then show "(0 < mu \<and> live_usd H (rs_now s w) w' k + u > mu) \<or>
        (0 < mt \<and> live_tok H (rs_now s w) w' k + real_of_int t > real_of_int mt)"
      by (auto simp: spec_breach_def abs_at_def split: if_splits)
  }
qed

context redis_store begin

lemmas redis_broker_quota = broker_quota

end

interpretation mem_store: redis_store ex_store mem_H mem_Z
proof (intro redis_store.intro redis_store_axioms.intro)
  show "redis_server (rs_rdb ex_store) mem_H mem_Z" using mem.redis_server_axioms by simp
qed simp

section \<open>The quota\<close>

text \<open>
  C19. Provider quota is brokered exactly. With the Redis store and a configured limit, a granted lease means that the
  provider's rolling minute, across all replicas and including this request, is within its RPM and TPM; a refusal
  (hint: 60 seconds) means that one more request or the token estimate would exceed a configured limit; and a
  request let through without a lease is counted as degraded.
\<close>
theorem broker_within_quota:
  assumes "redis_server (rs_rdb s) H Z" "0 < rs_holdTTL s" "br_store b = Some (redis_scope_store s)" "broker_Active p (Some b)"
    and "broker_Reserve hold p t (Some b) w = ((le, adm, retry), b', w')"
  shows "(le \<noteq> None \<longrightarrow> adm \<and> (0 < q_RPM (quota_of p b) \<longrightarrow> live_usd H (rs_now s w) w' (''prov:'' @ p) \<le> real_of_int (q_RPM (quota_of p b))) \<and>
        (0 < q_TPM (quota_of p b) \<longrightarrow> live_tok H (rs_now s w) w' (''prov:'' @ p) \<le> real_of_int (q_TPM (quota_of p b)))) \<and>
    (\<not> adm \<longrightarrow> le = None \<and> retry = 60 \<and>
      ((0 < q_RPM (quota_of p b) \<and> live_usd H (rs_now s w) w' (''prov:'' @ p) + 1 > real_of_int (q_RPM (quota_of p b))) \<or>
       (0 < q_TPM (quota_of p b) \<and> live_tok H (rs_now s w) w' (''prov:'' @ p) + real_of_int t > real_of_int (q_TPM (quota_of p b))))) \<and>
    (adm \<and> le = None \<longrightarrow> b' = Some (b\<lparr>br_degraded := Suc (br_degraded b)\<rparr>))"
proof -
  have "redis_store s H Z" using assms(1,2) by (simp add: redis_store_def redis_store_axioms_def)
  from redis_store.redis_broker_quota [OF this assms(3,5,4)] show ?thesis by (simp add: prov_scopeKey_def)
qed

definition ex_broker :: "mem_world broker" where
  "ex_broker = broker_New (Some (redis_scope_store ex_store)) [(''openai'', \<lparr>q_RPM = 1, q_TPM = 0\<rparr>)]"

theorem broker_within_quota_witness:
  "\<exists>le b' w'. broker_Reserve ''h'' ''openai'' 10 (Some ex_broker) ex_world = ((Some le, True, 0), b', w') \<and>
     live_usd mem_H 200 w' ''prov:openai'' \<le> 1"
proof -
  have b: "br_store ex_broker = Some (redis_scope_store ex_store)" "quota_of ''openai'' ex_broker = \<lparr>q_RPM = 1, q_TPM = 0\<rparr>"
    by (simp_all add: ex_broker_def broker_New_def quota_of_def gomap_eval)
  then have act: "broker_Active ''openai'' (Some ex_broker)" by (simp add: broker_Active_def quota_any_def)
  have reserve: "fst (rs_Reserve ex_store [''prov:openai''] [''provider''] [1] [0] [0] 1 10 ''h'' ex_world) = (True, [], [], None)"
  proof -
    let ?b = "velocity_breach mem_redis (velUsdKey ''prov:openai'') (mw_now ex_world) windowSecs 1 1 ex_world"
    have "\<not> fst ?b"
      unfolding mem.breach_abs(2) mem.scan_live [symmetric] mem.scan_total
      by (simp add: ex_world_def mem_redis_def velUsdKey_def)
    then obtain w1 where "?b = (False, w1)" by (cases ?b) auto
    then have "check_scope mem_redis (mw_now ex_world) windowSecs 1 10
        \<lparr>sa_Key = ''prov:openai'', sa_Name = ''provider'', sa_MaxUSD = 1, sa_MaxTok = 0, sa_MaxConc = 0\<rparr> ex_world = (None, w1)"
      by (simp add: check_scope_def velocity_breach_def [of mem_redis "velTokKey ''prov:openai''"])
    then show ?thesis by (simp add: rs_Reserve_def run_script_def reserve_script_def)
  qed
  obtain le adm retry b' w' where e: "broker_Reserve ''h'' ''openai'' 10 (Some ex_broker) ex_world = ((le, adm, retry), b', w')"
    by (metis prod_cases5 prod.collapse)
  then have "le \<noteq> None \<and> adm \<and> retry = 0"
    using reserve by (auto simp: broker_Reserve_def b act redis_scope_store_def prov_scopeKey_def Let_def split: prod.splits)
  with broker_within_quota [of ex_store mem_H mem_Z ex_broker "''openai''" "''h''" 10 ex_world le adm retry b' w']
    mem.redis_server_axioms b act e
  show ?thesis by (auto simp: ex_world_def)
qed

end
