(* ===== verification/Wire.thy ===== *)
theory Wire
  imports Router Ledger Controls
begin

text \<open>
  The pure part of the request path of \<open>internal/server/server.go\<close>, on the wire types of \<open>internal/openai\<close> and the
  neutral types of \<open>internal/provider\<close>: header parsing, rejection of unsupported requests, redaction, translation to
  a provider request, the pre-flight estimate, and the classification of provider errors.

  JSON decoding is an input of the handlers (a decoded request, or why it did not decode). \<open>strings.TrimSpace\<close> and
  \<open>strings.EqualFold\<close> are those of ASCII text; strings are bytes, and \<open>range\<close> over a string is over bytes, which
  decides the same for the character classes used. The redaction rules are an argument: what one text becomes, and
  the replacement counts.
\<close>

section \<open>Wire types\<close>

record message =
  cm_Role :: gostring
  cm_Text :: gostring
  cm_HasImage :: bool

record chatRequest =
  cr_Model :: gostring
  cr_Messages :: "message list"
  cr_MaxTokens :: int
  cr_Temperature :: "real option"
  cr_TopP :: "real option"
  cr_N :: "int option"
  cr_Stream :: bool
  cr_User :: gostring
  cr_Tools :: gostring
  cr_Functions :: gostring
  cr_ResponseFormat :: gostring

record usage =
  us_PromptTokens :: int
  us_CompletionTokens :: int
  us_TotalTokens :: int

record chatResponse =
  co_ID :: gostring
  co_Created :: int
  co_Model :: gostring
  co_Content :: gostring
  co_FinishReason :: gostring
  co_Usage :: usage

section \<open>Provider types\<close>

record providerRequest =
  pr_Model :: gostring
  pr_System :: gostring
  pr_Messages :: "(gostring \<times> gostring) list" \<comment> \<open>role and content\<close>
  pr_MaxTokens :: int
  pr_Temperature :: "real option"
  pr_TopP :: "real option"

record providerResponse =
  rsp_Content :: gostring
  rsp_InputTokens :: int
  rsp_OutputTokens :: int
  rsp_CacheReadInputTokens :: int
  rsp_CacheWriteInputTokens :: int
  rsp_FinishReason :: gostring

text \<open>An error of a dispatch: a normalized \<open>*provider.Error\<close>, or any other error, which may be a deadline or timeout.\<close>

datatype provider_error =
    ProviderError (pe_StatusCode: int) (pe_Type: gostring) (pe_Message: gostring) (pe_RetryAfter: gostring)
  | OtherError (oe_Message: gostring) (oe_Timeout: bool)

section \<open>Headers and identifiers\<close>

definition is_space :: "char \<Rightarrow> bool" where
  "is_space c \<longleftrightarrow> (of_char c :: nat) \<in> {9, 10, 11, 12, 13, 32}"

definition TrimSpace :: "gostring \<Rightarrow> gostring" where
  "TrimSpace s = rev (dropWhile is_space (rev (dropWhile is_space s)))"

definition bearerToken :: "gostring \<Rightarrow> gostring" where
  "bearerToken authorization =
     (let h = TrimSpace authorization; prefix = ''Bearer ''
      in if length h > length prefix \<and> ToLower (take (length prefix) h) = ToLower prefix
         then TrimSpace (drop (length prefix) h) else [])"

text \<open>
  The content of a message: a JSON string, null, or an array of parts, of which the text parts count and any other marks an
  image. \<open>str\<close> and \<open>parts\<close> are \<open>json.Unmarshal\<close> into a string and into a list of types and texts. The result is the
  text and the image mark.
\<close>

definition text_part :: "gostring \<times> gostring \<Rightarrow> bool" where
  "text_part p \<longleftrightarrow> fst p = ''text'' \<or> fst p = ''input_text'' \<or> fst p = []"

definition UnmarshalContent ::
  "(gostring \<Rightarrow> gostring option) \<Rightarrow> (gostring \<Rightarrow> (gostring \<times> gostring) list option) \<Rightarrow> gostring \<Rightarrow> (gostring \<times> bool) option" where
  "UnmarshalContent str parts b =
     (let b1 = TrimSpace b
      in if b1 = [] \<or> b1 = ''null'' then Some ([], False)
         else if hd b1 = CHR 0x22 then map_option (\<lambda>t. (t, False)) (str b1)
         else if hd b1 = CHR 0x5B then
           map_option (\<lambda>ps. (concat (map snd (filter text_part ps)), list_ex (\<lambda>p. \<not> text_part p) ps)) (parts b1)
         else None)"

definition run_id_char :: "char \<Rightarrow> bool" where
  "run_id_char c \<longleftrightarrow> (let n = of_char c :: nat
     in 97 \<le> n \<and> n \<le> 122 \<or> 65 \<le> n \<and> n \<le> 90 \<or> 48 \<le> n \<and> n \<le> 57 \<or> c = CHR ''.'' \<or> c = CHR ''_'' \<or> c = CHR ''-'')"

definition validRunID :: "gostring \<Rightarrow> bool" where
  "validRunID runID \<longleftrightarrow> \<not> (length runID = 0 \<or> length runID > 128) \<and> (\<forall>c\<in>set runID. run_id_char c)"

definition userName :: "client option \<Rightarrow> chatRequest \<Rightarrow> gostring" where
  "userName client req = (case client of Some c \<Rightarrow> cl_Name c | None \<Rightarrow> cr_User req)"

definition clientName :: "client option \<Rightarrow> gostring" where
  "clientName client = (case client of Some c \<Rightarrow> cl_Name c | None \<Rightarrow> [])"

definition clientKeySHA :: "client option \<Rightarrow> gostring" where
  "clientKeySHA client = (case client of Some c \<Rightarrow> ToLower (cl_KeySHA256 c) | None \<Rightarrow> [])"

section \<open>Requests\<close>

text \<open>The verb \<open>%q\<close> of \<open>fmt\<close>, on ASCII text.\<close>

definition quote_char :: "char \<Rightarrow> gostring" where
  "quote_char c =
     (let n = of_char c :: nat; hex = ''0123456789abcdef''
      in if n = 34 \<or> n = 92 then [CHR 0x5C, c]
         else if 7 \<le> n \<and> n \<le> 13 then [CHR 0x5C, ''abtnvfr'' ! (n - 7)]
         else if n < 32 \<or> n \<ge> 127 then [CHR 0x5C, CHR ''x'', hex ! (n div 16), hex ! (n mod 16)]
         else [c])"

definition quoted :: "gostring \<Rightarrow> gostring" where
  "quoted s = CHR 0x22 # concat (map quote_char s) @ [CHR 0x22]"

definition unsupported :: "chatRequest \<Rightarrow> gostring option" where
  "unsupported req =
     (if cr_Tools req \<noteq> [] \<or> cr_Functions req \<noteq> [] then Some ''tool/function calling is not yet supported''
      else if cr_ResponseFormat req \<noteq> [] then Some ''response_format is not yet supported''
      else if (case cr_N req of None \<Rightarrow> False | Some n \<Rightarrow> n > 1) then Some ''n>1 is not supported''
      else if list_ex cm_HasImage (cr_Messages req) then Some ''image content is not yet supported (text only)''
      else None)"

text \<open>\<open>redact\<close> gives the scrubbed text and how many replacements were made.\<close>

definition redactRequest :: "(gostring \<Rightarrow> gostring \<times> nat) \<Rightarrow> chatRequest \<Rightarrow> chatRequest \<times> nat" where
  "redactRequest redact req =
     (let msgs = map (\<lambda>m. m\<lparr>cm_Text := fst (redact (cm_Text m))\<rparr>) (cr_Messages req);
          n = sum_list (map (\<lambda>m. snd (redact (cm_Text m))) (cr_Messages req));
          req1 = req\<lparr>cr_Messages := msgs\<rparr>;
          (user, k) = redact (cr_User req)
      in if k > 0 then (req1\<lparr>cr_User := user\<rparr>, n + k) else (req1, n))"

definition is_system :: "message \<Rightarrow> bool" where
  "is_system m \<longleftrightarrow> cm_Role m = ''system'' \<or> cm_Role m = ''developer''"

definition join_system :: "gostring \<Rightarrow> message \<Rightarrow> gostring" where
  "join_system sys m = (if sys \<noteq> [] then sys @ [CHR 0x0A, CHR 0x0A] else sys) @ cm_Text m"

definition toProviderRequest :: "chatRequest \<Rightarrow> decision \<Rightarrow> providerRequest" where
  "toProviderRequest req d =
     \<lparr>pr_Model = d_Upstream d,
      pr_System = foldl join_system [] (filter is_system (cr_Messages req)),
      pr_Messages = map (\<lambda>m. (cm_Role m, cm_Text m)) (filter (\<lambda>m. \<not> is_system m) (cr_Messages req)),
      pr_MaxTokens = (if cr_MaxTokens req \<le> 0 then d_MaxOutputTokens d else cr_MaxTokens req),
      pr_Temperature = (if d_AcceptsSampling d then cr_Temperature req else None),
      pr_TopP = (if d_AcceptsSampling d then cr_TopP req else None)\<rparr>"

definition estimate :: "providerRequest \<Rightarrow> decision \<Rightarrow> usd \<times> int" where
  "estimate preq d =
     (let chars = length (pr_System preq) + sum_list (map (\<lambda>m. length (snd m)) (pr_Messages preq));
          estInput = int (chars div 4);
          maxOut = (if pr_MaxTokens preq \<le> 0 then 4096 else pr_MaxTokens preq)
      in (Cost estInput maxOut 0 0 (InputPerMTok (d_Price d)) (OutputPerMTok (d_Price d)), wrap64 (estInput + maxOut)))"

definition maxEstimate :: "chatRequest \<Rightarrow> decision list \<Rightarrow> usd \<times> int" where
  "maxEstimate req candidates =
     foldl (\<lambda>(usd, tokens) d. let (u, t) = estimate (toProviderRequest req d) d
              in (if u > usd then u else usd, if t > tokens then t else tokens)) (0, 0) candidates"

text \<open>The text hashed for loop detection.\<close>

definition promptText :: "chatRequest \<Rightarrow> gostring" where
  "promptText req = concat (map (\<lambda>m. cm_Role m @ [NUL] @ cm_Text m @ [NUL]) (cr_Messages req))"

definition toOpenAIResponse :: "gostring \<Rightarrow> gostring \<Rightarrow> int \<Rightarrow> providerResponse \<Rightarrow> chatResponse" where
  "toOpenAIResponse rid al created p =
     \<lparr>co_ID = ''chatcmpl-'' @ rid, co_Created = created, co_Model = al, co_Content = rsp_Content p,
      co_FinishReason = rsp_FinishReason p,
      co_Usage = \<lparr>us_PromptTokens = rsp_InputTokens p, us_CompletionTokens = rsp_OutputTokens p,
        us_TotalTokens = wrap64 (rsp_InputTokens p + rsp_OutputTokens p)\<rparr>\<rparr>"

section \<open>Provider errors\<close>

definition retryable :: "provider_error \<Rightarrow> bool" where
  "retryable e = (case e of
     ProviderError c _ _ _ \<Rightarrow> c = 0 \<or> c \<ge> 500 \<or> c \<in> {408, 429, 401, 403}
   | OtherError _ _ \<Rightarrow> True)"

definition isRateLimited :: "provider_error \<Rightarrow> bool" where
  "isRateLimited e = (case e of ProviderError c _ _ _ \<Rightarrow> c = 429 | OtherError _ _ \<Rightarrow> False)"

text \<open>\<open>(status, type, message, retryAfter)\<close>; \<open>ctxDone\<close> is \<open>ctx.Err() != nil\<close>.\<close>

definition classifyError :: "bool \<Rightarrow> provider_error \<Rightarrow> int \<times> gostring \<times> gostring \<times> gostring" where
  "classifyError ctxDone e =
     (if ctxDone \<or> (case e of OtherError _ timeout \<Rightarrow> timeout | _ \<Rightarrow> False)
      then (504, ''timeout_error'', ''upstream request timed out'', [])
      else case e of
        ProviderError c typ msg ra \<Rightarrow>
          (if c = 401 \<or> c = 403 then (502, ''api_error'', ''upstream provider rejected the gateway's credentials'', [])
           else if c = 429 then (429, typ, msg, ra)
           else if 400 \<le> c \<and> c < 500 then (c, typ, msg, ra)
           else (502, ''api_error'', msg, []))
      | OtherError msg _ \<Rightarrow> (502, ''api_error'', msg, []))"

end
