(* ===== verification/Dispatch.thy ===== *)
theory Dispatch
  imports Wire Health Broker Enforcer
begin

text \<open>
  The dispatch path of \<open>internal/server/server.go\<close>: the failover loop over candidate providers, the recording of a
  served request, and the unary and streaming handlers with the SSE writer. A request's state is the server's
  collaborators (\<open>server\<close>), its firewall ticket, and the world \<open>'w\<close>, which decides what the providers answer, when
  the context is done, and the clock readings.

  A streaming provider delivers a list of deltas to the writer and then ends; a failed write to the client ends the
  stream with the error the provider reports. The response a handler writes is its result. Every call site reads the
  clock under an index of its own, so no two readings of a request are assumed to agree or to be ordered.
\<close>

section \<open>State\<close>

record 'w env =
  en_chat :: "gostring \<Rightarrow> providerRequest \<Rightarrow> 'w \<Rightarrow> (provider_error + providerResponse) \<times> 'w"
  en_stream :: "gostring \<Rightarrow> providerRequest \<Rightarrow> 'w \<Rightarrow> (gostring list \<times> (provider_error + providerResponse)) \<times> 'w"
  en_ctx_done :: "'w \<Rightarrow> bool"
  en_now :: "'w \<Rightarrow> nat \<Rightarrow> instant" \<comment> \<open>clock readings, by call site\<close>
  en_random :: "'w \<Rightarrow> nat \<Rightarrow> gostring" \<comment> \<open>fresh \<open>crypto/rand\<close> bytes in hex, by call site\<close>
  en_sha256hex :: "gostring \<Rightarrow> gostring"
  en_flusher :: bool \<comment> \<open>the response writer supports flushing\<close>

record 'w server =
  sv_router :: router
  sv_providers :: "gostring set"
  sv_ledger :: ledger
  sv_guard :: guard
  sv_health :: tracker
  sv_redactor :: "(gostring \<Rightarrow> gostring \<times> nat) option"
  sv_firewall :: "'w firewall"
  sv_broker :: "'w broker option"
  sv_resolver :: "(gostring \<Rightarrow> gostring \<Rightarrow> resolution option) option"

record accounting =
  ac_client :: "client option"
  ac_reservation :: "budgetHold option"
  ac_requestID :: gostring
  ac_runID :: gostring
  ac_start :: instant
  ac_primaryAlias :: gostring
  ac_estUSD :: usd
  ac_estTokens :: int

record dispatchResult =
  dr_served :: "(providerResponse \<times> decision) option" \<comment> \<open>\<open>resp\<close>, \<open>used\<close> when \<open>served\<close>\<close>
  dr_attempted :: bool
  dr_quotaBlocked :: bool
  dr_retryAfterSec :: int
  dr_lastErr :: provider_error \<comment> \<open>read only after an attempt\<close>

definition no_dispatch :: dispatchResult where
  "no_dispatch = \<lparr>dr_served = None, dr_attempted = False, dr_quotaBlocked = False, dr_retryAfterSec = 0,
     dr_lastErr = OtherError [] False\<rparr>"

section \<open>The failover loop\<close>

definition latency_ms :: "instant \<Rightarrow> instant \<Rightarrow> int" where
  "latency_ms start now = (let d = time_sub now start in if d \<ge> 0 then d div 1000000 else - ((- d) div 1000000))"

definition error_record :: "chatRequest \<Rightarrow> accounting \<Rightarrow> decision \<Rightarrow> instant \<Rightarrow> lrecord" where
  "error_record req acct d now =
     \<lparr>lr_RequestID = ac_requestID acct, lr_Alias = d_Alias d, lr_Provider = d_Provider d, lr_Upstream = d_Upstream d,
      lr_User = userName (ac_client acct) req, lr_RunID = ac_runID acct, lr_InputTokens = 0, lr_OutputTokens = 0,
      lr_CacheReadTokens = 0, lr_CacheWriteTokens = 0, lr_CostUSD = 0, lr_LatencyMS = latency_ms (ac_start acct) now,
      lr_Status = ''error''\<rparr>"

text \<open>
  \<open>attempt\<close> performs one dispatch, \<open>canFailover\<close> tells whether the next candidate is still safe; both work on the
  state \<open>'c\<close> their closures share (the stream writer).
\<close>

type_synonym ('c, 'w) attempt = "decision \<Rightarrow> 'c \<Rightarrow> 'w \<Rightarrow> (provider_error + providerResponse) \<times> 'c \<times> 'w"

fun runCandidates ::
  "'w env \<Rightarrow> chatRequest \<Rightarrow> accounting \<Rightarrow> ('c, 'w) attempt \<Rightarrow> ('c \<Rightarrow> bool) \<Rightarrow> decision list \<Rightarrow> dispatchResult \<Rightarrow>
   'w server \<Rightarrow> 'c \<Rightarrow> 'w \<Rightarrow> dispatchResult \<times> 'w server \<times> 'c \<times> 'w" where
  "runCandidates en req acct attempt canFailover [] r s c w = (r, s, c, w)"
| "runCandidates en req acct attempt canFailover (d # ds) r s c w =
     (if d_Provider d \<notin> sv_providers s \<or> \<not> Healthy (en_now en w (20 + 3 * length ds)) (d_Provider d) (sv_health s)
      then runCandidates en req acct attempt canFailover ds r s c w
      else
        (let ((lease, admitted, retry), br, w1) =
               broker_Reserve (en_random en w (2 + length ds)) (d_Provider d) (ac_estTokens acct) (sv_broker s) w;
             s1 = s\<lparr>sv_broker := br\<rparr>
         in if \<not> admitted then
              runCandidates en req acct attempt canFailover ds (r\<lparr>dr_quotaBlocked := True, dr_retryAfterSec := retry\<rparr>) s1 c w1
            else
              (case attempt d c w1 of
                 (Inr resp, c2, w2) \<Rightarrow>
                   (let sum = wrap64 (rsp_InputTokens resp + rsp_OutputTokens resp);
                        actualTok = (if sum \<le> 0 then ac_estTokens acct else sum);
                        (lease1, w3) = lease_Settle actualTok lease w2
                    in (r\<lparr>dr_attempted := True, dr_served := Some (resp, d)\<rparr>,
                        s1\<lparr>sv_health := RecordSuccess (d_Provider d) (sv_health s1)\<rparr>, c2, w3))
               | (Inl e, c2, w2) \<Rightarrow>
                   (let (lease1, w3) = (if canFailover c2 then lease_Release lease w2
                                        else lease_Settle (ac_estTokens acct) lease w2);
                        r1 = r\<lparr>dr_attempted := True, dr_lastErr := e\<rparr>;
                        s2 = s1\<lparr>sv_ledger := ledger_Record (error_record req acct d (en_now en w3 (21 + 3 * length ds))) (sv_ledger s1)\<rparr>
                    in if en_ctx_done en w3 \<or> \<not> retryable e \<or> \<not> canFailover c2 then (r1, s2, c2, w3)
                       else runCandidates en req acct attempt canFailover ds r1
                              (if isRateLimited e then s2
                               else s2\<lparr>sv_health := RecordFailure (en_now en w3 (22 + 3 * length ds)) (d_Provider d) (sv_health s2)\<rparr>) c2 w3))))"

section \<open>Replies\<close>

datatype sse_event =
    RoleChunk | DeltaChunk gostring | FinishChunk gostring | UsageChunk usage | ErrorEvent gostring gostring | DoneEvent

datatype reply =
    ErrorReply (rp_status: int) (rp_type: gostring) (rp_message: gostring) (rp_retryAfter: gostring)
  | CompletionReply gostring gostring chatResponse \<comment> \<open>the \<open>X-Heave-\<close> headers and the body\<close>
  | StreamReply gostring gostring "sse_event list"
  | KilledReply gostring

text \<open>The \<open>Retry-After\<close> header is the decimal number of seconds, or empty when it is not set.\<close>

definition retry_header :: "int \<Rightarrow> gostring" where
  "retry_header n = (if n > 0 then itoa (nat n) else [])"

definition writeNoServe :: "'w env \<Rightarrow> dispatchResult \<Rightarrow> 'w \<Rightarrow> reply" where
  "writeNoServe en r w =
     (if dr_quotaBlocked r \<and> \<not> dr_attempted r then
        ErrorReply 429 ''rate_limit_error'' ''no provider with available quota for this model; retry shortly''
          (retry_header (dr_retryAfterSec r))
      else if \<not> dr_attempted r then
        ErrorReply 503 ''api_error'' ''no healthy provider available for this model'' []
      else (let (status, typ, msg, ra) = classifyError (en_ctx_done en w) (dr_lastErr r) in ErrorReply status typ msg ra))"

section \<open>Recording a served request\<close>

definition no_usage :: "providerResponse \<Rightarrow> bool" where
  "no_usage p \<longleftrightarrow> rsp_InputTokens p = 0 \<and> rsp_OutputTokens p = 0 \<and> rsp_CacheReadInputTokens p = 0
     \<and> rsp_CacheWriteInputTokens p = 0"

definition served_cost :: "accounting \<Rightarrow> decision \<Rightarrow> providerResponse \<Rightarrow> usd" where
  "served_cost acct d p =
     (if no_usage p then ac_estUSD acct
      else Cost (rsp_InputTokens p) (rsp_OutputTokens p) (rsp_CacheReadInputTokens p) (rsp_CacheWriteInputTokens p)
        (InputPerMTok (d_Price d)) (OutputPerMTok (d_Price d)))"

definition recordSuccess ::
  "'w env \<Rightarrow> chatRequest \<Rightarrow> accounting \<Rightarrow> decision \<Rightarrow> providerResponse \<Rightarrow> 'w ticket \<Rightarrow> 'w server \<Rightarrow> 'w \<Rightarrow>
   'w ticket \<times> 'w server \<times> 'w" where
  "recordSuccess en req acct used p tk s w =
     (let cost = served_cost acct used p;
          inTok = (if no_usage p then ac_estTokens acct else rsp_InputTokens p);
          outTok = (if no_usage p then 0 else rsp_OutputTokens p);
          s1 = s\<lparr>sv_guard := guard_Settle (ac_reservation acct) cost (sv_guard s)\<rparr>;
          (tk1, f1, w1) = tk_Settle cost (wrap64 (inTok + outTok)) (en_now en w 10) tk (sv_firewall s1) w;
          rec = \<lparr>lr_RequestID = ac_requestID acct, lr_Alias = d_Alias used, lr_Provider = d_Provider used,
            lr_Upstream = d_Upstream used, lr_User = userName (ac_client acct) req, lr_RunID = ac_runID acct,
            lr_InputTokens = inTok, lr_OutputTokens = outTok, lr_CacheReadTokens = rsp_CacheReadInputTokens p,
            lr_CacheWriteTokens = rsp_CacheWriteInputTokens p, lr_CostUSD = cost,
            lr_LatencyMS = latency_ms (ac_start acct) (en_now en w1 11),
            lr_Status = (if no_usage p then ''ok_estimated'' else ''ok'')\<rparr>
      in (tk1, s1\<lparr>sv_firewall := f1, sv_ledger := ledger_Record rec (sv_ledger s1)\<rparr>, w1))"

section \<open>Unary requests\<close>

definition serveUnary ::
  "'w env \<Rightarrow> chatRequest \<Rightarrow> decision list \<Rightarrow> accounting \<Rightarrow> 'w ticket \<Rightarrow> 'w server \<Rightarrow> 'w \<Rightarrow>
   reply \<times> 'w ticket \<times> 'w server \<times> 'w" where
  "serveUnary en req candidates acct tk s w =
     (case runCandidates en req acct
             (\<lambda>d c w. let (res, w1) = en_chat en (d_Provider d) (toProviderRequest req d) w in (res, c, w1))
             (\<lambda>_. True) candidates no_dispatch s () w of
        (r, s1, _, w1) \<Rightarrow>
          (case dr_served r of
             None \<Rightarrow>
               (writeNoServe en r w1, tk, s1\<lparr>sv_guard := guard_Settle (ac_reservation acct) 0 (sv_guard s1)\<rparr>, w1)
           | Some (resp, used) \<Rightarrow>
               (let (tk2, s2, w2) = recordSuccess en req acct used resp tk s1 w1
                in (CompletionReply (d_Provider used) (d_Upstream used)
                      (toOpenAIResponse (ac_requestID acct) (ac_primaryAlias acct) (unix (en_now en w2 12)) resp),
                    tk2, s2, w2))))"

section \<open>Streaming requests\<close>

record sseWriter =
  sw_provider :: gostring
  sw_upstream :: gostring
  sw_wroteAny :: bool
  sw_events :: "sse_event list"

definition setCandidate :: "decision \<Rightarrow> sseWriter \<Rightarrow> sseWriter" where
  "setCandidate d sw = sw\<lparr>sw_provider := d_Provider d, sw_upstream := d_Upstream d\<rparr>"

definition emit :: "sse_event \<Rightarrow> sseWriter \<Rightarrow> sseWriter" where
  "emit ev sw = sw\<lparr>sw_events := sw_events sw @ [ev]\<rparr>"

definition sw_start :: "sseWriter \<Rightarrow> sseWriter" where
  "sw_start sw = emit RoleChunk (sw\<lparr>sw_wroteAny := True\<rparr>)"

definition writeDelta :: "gostring \<Rightarrow> sseWriter \<Rightarrow> sseWriter" where
  "writeDelta delta sw = emit (DeltaChunk delta) (if \<not> sw_wroteAny sw then sw_start sw else sw)"

definition sw_finish :: "providerResponse \<Rightarrow> sseWriter \<Rightarrow> sseWriter" where
  "sw_finish p sw =
     emit DoneEvent (emit (UsageChunk \<lparr>us_PromptTokens = rsp_InputTokens p, us_CompletionTokens = rsp_OutputTokens p,
         us_TotalTokens = wrap64 (rsp_InputTokens p + rsp_OutputTokens p)\<rparr>)
       (emit (FinishChunk (rsp_FinishReason p)) (if \<not> sw_wroteAny sw then sw_start sw else sw)))"

definition sw_finishError :: "provider_error \<Rightarrow> sseWriter \<Rightarrow> sseWriter" where
  "sw_finishError e sw =
     emit DoneEvent (emit (case e of
         ProviderError c typ _ _ \<Rightarrow>
           ErrorEvent (if typ \<noteq> [] then typ else ''api_error'') (if c \<ge> 400 then itoa (nat c) else [])
       | OtherError _ _ \<Rightarrow> ErrorEvent ''api_error'' []) sw)"

definition stream_attempt :: "'w env \<Rightarrow> chatRequest \<Rightarrow> (sseWriter, 'w) attempt" where
  "stream_attempt en req d sw w =
     (let ((deltas, res), w1) = en_stream en (d_Provider d) (toProviderRequest req d) w
      in (res, fold writeDelta deltas (setCandidate d sw), w1))"

definition aborted_record :: "chatRequest \<Rightarrow> accounting \<Rightarrow> instant \<Rightarrow> lrecord" where
  "aborted_record req acct now =
     \<lparr>lr_RequestID = ac_requestID acct, lr_Alias = ac_primaryAlias acct, lr_Provider = [], lr_Upstream = [],
      lr_User = userName (ac_client acct) req, lr_RunID = ac_runID acct, lr_InputTokens = ac_estTokens acct,
      lr_OutputTokens = 0, lr_CacheReadTokens = 0, lr_CacheWriteTokens = 0, lr_CostUSD = ac_estUSD acct,
      lr_LatencyMS = latency_ms (ac_start acct) now, lr_Status = ''aborted''\<rparr>"

definition serveStreaming ::
  "'w env \<Rightarrow> chatRequest \<Rightarrow> decision list \<Rightarrow> accounting \<Rightarrow> 'w ticket \<Rightarrow> 'w server \<Rightarrow> 'w \<Rightarrow>
   reply \<times> 'w ticket \<times> 'w server \<times> 'w" where
  "serveStreaming en req candidates acct tk s w =
     (if \<not> en_flusher en then
        (ErrorReply 500 ''api_error'' ''server writer does not support streaming'' [], tk,
         s\<lparr>sv_guard := guard_Settle (ac_reservation acct) 0 (sv_guard s)\<rparr>, w)
      else
        (case runCandidates en req acct (stream_attempt en req) (\<lambda>sw. \<not> sw_wroteAny sw) candidates no_dispatch s
                \<lparr>sw_provider = [], sw_upstream = [], sw_wroteAny = False, sw_events = []\<rparr> w of
           (r, s1, sw, w1) \<Rightarrow>
             (case dr_served r of
                Some (resp, used) \<Rightarrow>
                  (let (tk2, s2, w2) = recordSuccess en req acct used resp tk s1 w1; sw2 = sw_finish resp sw
                   in (StreamReply (sw_provider sw2) (sw_upstream sw2) (sw_events sw2), tk2, s2, w2))
              | None \<Rightarrow>
                  if sw_wroteAny sw then
                    (let s2 = s1\<lparr>sv_guard := guard_Settle (ac_reservation acct) (ac_estUSD acct) (sv_guard s1)\<rparr>;
                         (tk2, f2, w2) = tk_Settle (ac_estUSD acct) (ac_estTokens acct) (en_now en w1 13) tk (sv_firewall s2) w1;
                         s3 = s2\<lparr>sv_firewall := f2,
                           sv_ledger := ledger_Record (aborted_record req acct (en_now en w2 14)) (sv_ledger s2)\<rparr>;
                         sw2 = sw_finishError (dr_lastErr r) sw
                     in (StreamReply (sw_provider sw2) (sw_upstream sw2) (sw_events sw2), tk2, s3, w2))
                  else
                    (writeNoServe en r w1, tk,
                     s1\<lparr>sv_guard := guard_Settle (ac_reservation acct) 0 (sv_guard s1)\<rparr>, w1))))"

end
