(* ===== verification/Server.thy ===== *)
theory Server
  imports Dispatch
begin

text \<open>
  The handlers of \<open>internal/server/server.go\<close> that admit, dispatch and kill: chat completions from the bearer token to
  the release of the firewall ticket, the run kill endpoint, the admin gate, and the mapping of rejections to replies.
  An HTTP request is its headers, path value and decoded body; request logging is left out.
\<close>

section \<open>Construction\<close>

definition server_New ::
  "router \<Rightarrow> gostring set \<Rightarrow> ledger \<Rightarrow> guard option \<Rightarrow> tracker option \<Rightarrow> (gostring \<Rightarrow> gostring \<times> nat) option \<Rightarrow>
   'w firewall option \<Rightarrow> 'w broker option \<Rightarrow> (gostring \<Rightarrow> gostring \<Rightarrow> resolution option) option \<Rightarrow> 'w server" where
  "server_New rt provs lg gd ht rd fw br rs =
     \<lparr>sv_router = rt, sv_providers = provs, sv_ledger = lg,
      sv_guard = (case gd of Some g \<Rightarrow> g | None \<Rightarrow> guard_New False []),
      sv_health = (case ht of Some h \<Rightarrow> h | None \<Rightarrow> health_New 3 (30 * second)),
      sv_redactor = rd,
      sv_firewall = (case fw of Some f \<Rightarrow> f | None \<Rightarrow> fw_New False zero_limits),
      sv_broker = Some (case br of Some b \<Rightarrow> b | None \<Rightarrow> broker_New None []),
      sv_resolver = rs\<rparr>"

section \<open>Rejections\<close>

definition denied :: "controls_error \<Rightarrow> reply" where
  "denied e = (case e of
     ErrUnauthorized \<Rightarrow> ErrorReply 401 ''authentication_error'' ''missing or invalid API key'' []
   | RateLimitError n \<Rightarrow> ErrorReply 429 ''rate_limit_error'' ''rate limit exceeded'' (retry_header n)
   | BudgetError n \<Rightarrow> ErrorReply 429 ''insufficient_quota'' ''monthly budget exceeded'' (retry_header n))"

definition firewallDenied :: "fw_error \<Rightarrow> reply" where
  "firewallDenied e = (case e of
     ErrKilled \<Rightarrow> ErrorReply 403 ''run_killed'' ''this run has been killed'' []
   | VelocityError _ n \<Rightarrow> ErrorReply 429 ''rate_limit_error'' ''spend/token velocity limit exceeded'' (retry_header n)
   | ConcurrencyError _ \<Rightarrow> ErrorReply 429 ''rate_limit_error'' ''concurrency limit exceeded'' []
   | ErrBadChain \<Rightarrow> ErrorReply 429 ''rate_limit_error'' ''request blocked by firewall'' [])"

definition requireAdmin :: "bool \<Rightarrow> controls_error + client option \<Rightarrow> reply option" where
  "requireAdmin adminSession auth =
     (if adminSession then None
      else case auth of
        Inl e \<Rightarrow> Some (denied e)
      | Inr (Some c) \<Rightarrow>
          if \<not> cl_Admin c then Some (ErrorReply 403 ''permission_error'' ''admin key required for observability endpoints'' [])
          else None
      | Inr None \<Rightarrow> None)"

section \<open>Policy resolution\<close>

definition resolveChain :: "gostring \<Rightarrow> gostring \<Rightarrow> 'w server \<Rightarrow> resolution option" where
  "resolveChain keySHA runID s =
     (case sv_resolver s of None \<Rightarrow> Some ([], [], False, None) | Some resolve \<Rightarrow> resolve keySHA runID)"

text \<open>\<open>(runKey, governed, err)\<close>.\<close>

definition resolveRunKey :: "gostring \<Rightarrow> gostring \<Rightarrow> 'w server \<Rightarrow> (gostring \<times> bool \<times> policy_error option) option" where
  "resolveRunKey keySHA runID s =
     (case sv_resolver s of
        None \<Rightarrow> Some ([], False, None)
      | Some resolve \<Rightarrow>
          (case resolve keySHA runID of
             None \<Rightarrow> None
           | Some (scopes, _, gov, rerr) \<Rightarrow>
               Some (if rerr \<noteq> None then ([], False, rerr)
                     else if \<not> gov then ([], False, None)
                     else case find (\<lambda>sc. sc_Name sc = ''run'') scopes of
                       Some sc \<Rightarrow> (sc_Key sc, True, None)
                     | None \<Rightarrow> ([], False, None))))"

section \<open>Chat completions\<close>

datatype body = TooLarge | Malformed | Decoded chatRequest

definition bad_request :: "gostring \<Rightarrow> reply" where "bad_request msg = ErrorReply 400 ''invalid_request_error'' msg []"

definition policy_failed :: reply where
  "policy_failed = ErrorReply 500 ''api_error'' ''policy resolution failed'' []"

definition release_budget :: "budgetHold option \<Rightarrow> 'w server \<Rightarrow> 'w server" where
  "release_budget r s = s\<lparr>sv_guard := guard_Settle r 0 (sv_guard s)\<rparr>"

text \<open>The firewall admission of a request whose chain is resolved.\<close>

definition fw_admit ::
  "'w env \<Rightarrow> client option \<Rightarrow> gostring \<Rightarrow> scope list \<Rightarrow> bool \<Rightarrow> gostring \<Rightarrow> usd \<Rightarrow> int \<Rightarrow> 'w server \<Rightarrow> 'w \<Rightarrow>
   (fw_error + 'w ticket) \<times> 'w firewall \<times> 'w" where
  "fw_admit en client runID scopes governed prompt estUSD estTokens s w =
     (if governed then fw_EnterChain scopes prompt estUSD estTokens (en_random en w 1) (\<lambda>i. en_now en w (3 + i)) (sv_firewall s) w
      else fw_Enter (clientName client) runID prompt estUSD estTokens (en_random en w 1) (\<lambda>i. en_now en w (3 + i)) (sv_firewall s) w)"

text \<open>From the admitted ticket on: dispatch, then the deferred release.\<close>

definition serve_admitted ::
  "'w env \<Rightarrow> chatRequest \<Rightarrow> decision list \<Rightarrow> accounting \<Rightarrow> 'w ticket \<Rightarrow> 'w server \<Rightarrow> 'w \<Rightarrow> reply \<times> 'w server \<times> 'w" where
  "serve_admitted en req candidates acct tk s w =
     (let (rep, tk1, s1, w1) =
            (if cr_Stream req then serveStreaming en req candidates acct tk s w
             else serveUnary en req candidates acct tk s w);
          (tk2, f2, w2) = tk_Release (en_now en w1 15) tk1 (sv_firewall s1) w1
      in (rep, s1\<lparr>sv_firewall := f2\<rparr>, w2))"

text \<open>From the budget reservation on. \<open>None\<close> is a resolver that does not return.\<close>

definition serve_reserved ::
  "'w env \<Rightarrow> gostring \<Rightarrow> instant \<Rightarrow> gostring \<Rightarrow> client option \<Rightarrow> chatRequest \<Rightarrow> decision list \<Rightarrow> usd \<Rightarrow> int \<Rightarrow>
   budgetHold option \<Rightarrow> 'w server \<Rightarrow> 'w \<Rightarrow> (reply \<times> 'w server \<times> 'w) option" where
  "serve_reserved en requestID start runID client req candidates estUSD estTokens reservation s w =
     (if runID \<noteq> [] \<and> \<not> validRunID runID then
        Some (bad_request ''X-Heave-Run-Id must be 1-128 chars of [A-Za-z0-9._-]'', release_budget reservation s, w)
      else case resolveChain (clientKeySHA client) runID s of
        None \<Rightarrow> None
      | Some (scopes, killedBy, governed, rerr) \<Rightarrow>
          if rerr \<noteq> None then Some (policy_failed, release_budget reservation s, w)
          else if governed \<and> killedBy \<noteq> [] then
            Some (ErrorReply 403 ''policy_killed'' (''blocked: '' @ killedBy @ '' is killed'') [],
              release_budget reservation s, w)
          else (case fw_admit en client runID scopes governed (en_sha256hex en (promptText req)) estUSD estTokens s w of
              (Inl ferr, f, w1) \<Rightarrow> Some (firewallDenied ferr, release_budget reservation (s\<lparr>sv_firewall := f\<rparr>), w1)
            | (Inr tk, f, w1) \<Rightarrow>
                Some (serve_admitted en req candidates
                  \<lparr>ac_client = client, ac_reservation = reservation, ac_requestID = requestID, ac_runID = runID,
                   ac_start = start, ac_primaryAlias = d_Alias (hd candidates), ac_estUSD = estUSD,
                   ac_estTokens = estTokens\<rparr> tk (s\<lparr>sv_firewall := f\<rparr>) w1)))"

text \<open>From the decoded, supported and redacted request on.\<close>

definition admit_and_serve ::
  "'w env \<Rightarrow> gostring \<Rightarrow> instant \<Rightarrow> gostring \<Rightarrow> client option \<Rightarrow> chatRequest \<Rightarrow> 'w server \<Rightarrow> 'w \<Rightarrow>
   (reply \<times> 'w server \<times> 'w) option" where
  "admit_and_serve en requestID start runHeader client req s w =
     (case Candidates (cr_Model req) (sv_router s) of
        Inl al \<Rightarrow> Some (bad_request (''unknown model '' @ quoted al), s, w)
      | Inr candidates \<Rightarrow>
          (let (estUSD, estTokens) = maxEstimate req candidates
           in case guard_Reserve (en_now en w 2) client estUSD (sv_guard s) of
                (Inl e, g) \<Rightarrow> Some (denied e, s\<lparr>sv_guard := g\<rparr>, w)
              | (Inr reservation, g) \<Rightarrow>
                  serve_reserved en requestID start (TrimSpace runHeader) client req candidates estUSD estTokens reservation
                    (s\<lparr>sv_guard := g\<rparr>) w))"

definition handleChatCompletions ::
  "'w env \<Rightarrow> gostring \<Rightarrow> gostring \<Rightarrow> body \<Rightarrow> 'w server \<Rightarrow> 'w \<Rightarrow> (reply \<times> 'w server \<times> 'w) option" where
  "handleChatCompletions en authorization runHeader bdy s w =
     (let start = en_now en w 0; requestID = en_random en w 0
      in case Admit (en_sha256hex en) (en_now en w 1) (bearerToken authorization) (sv_guard s) of
           (Inl e, g) \<Rightarrow> Some (denied e, s\<lparr>sv_guard := g\<rparr>, w)
         | (Inr client, g) \<Rightarrow>
             (let s1 = s\<lparr>sv_guard := g\<rparr>
              in case bdy of
                   TooLarge \<Rightarrow> Some (ErrorReply 413 ''invalid_request_error'' ''request body too large'' [], s1, w)
                 | Malformed \<Rightarrow> Some (bad_request ''malformed JSON body'', s1, w)
                 | Decoded req \<Rightarrow>
                     if cr_Messages req = [] then Some (bad_request ''messages is required'', s1, w)
                     else case unsupported req of
                       Some msg \<Rightarrow> Some (bad_request msg, s1, w)
                     | None \<Rightarrow>
                         admit_and_serve en requestID start runHeader client
                           (case sv_redactor s1 of None \<Rightarrow> req | Some redact \<Rightarrow> fst (redactRequest redact req)) s1 w))"

section \<open>Run kill\<close>

definition handleKillRun ::
  "'w env \<Rightarrow> gostring \<Rightarrow> gostring \<Rightarrow> 'w server \<Rightarrow> 'w \<Rightarrow> (reply \<times> 'w server \<times> 'w) option" where
  "handleKillRun en authorization runID s w =
     (case Authenticate (en_sha256hex en) (bearerToken authorization) (sv_guard s) of
        Inl e \<Rightarrow> Some (denied e, s, w)
      | Inr client \<Rightarrow>
          if runID = [] then Some (bad_request ''run_id is required'', s, w)
          else if \<not> validRunID runID then Some (bad_request ''run_id must be 1-128 chars of [A-Za-z0-9._-]'', s, w)
          else (case resolveRunKey (clientKeySHA client) runID s of
              None \<Rightarrow> None
            | Some (runKey, governed, rerr) \<Rightarrow>
                if rerr \<noteq> None then Some (policy_failed, s, w)
                else
                  (let (killErr, f, w1) =
                         (if governed then KillRun (en_now en w 0) runKey (sv_firewall s) w
                          else fw_Kill (en_now en w 0) (clientName client) runID (sv_firewall s) w)
                   in Some (if killErr \<noteq> None then ErrorReply 503 ''api_error'' ''kill not durably recorded; retry'' []
                            else KilledReply runID, s\<lparr>sv_firewall := f\<rparr>, w1))))"

end
