(* ===== verification/Base64.thy ===== *)
theory Base64
  imports Prelude
begin

text \<open>
  Unpadded base64 as \<open>encoding/base64\<close> reads and writes it (\<open>RawStdEncoding\<close>, \<open>RawURLEncoding\<close>), which the signed
  tokens of the guard API and of the console and the stored password hashes are made of. Decoding skips line breaks,
  rejects every other byte outside the alphabet and a group of one symbol, and ignores the spare bits of the last
  symbol, as the library does. The interface \<open>text_codec\<close> is all the clients rely on.
\<close>

section \<open>Interface\<close>

locale text_codec =
  fixes enc :: "gostring \<Rightarrow> gostring"
    and dec :: "gostring \<Rightarrow> gostring option"
    and sep :: char
  assumes dec_enc: "dec (enc s) = Some s"
    and sep_free: "sep \<notin> set (enc s)"

section \<open>Symbols\<close>

text \<open>The last two symbols distinguish the two alphabets.\<close>

type_synonym alphabet = "nat \<times> nat"

definition std_alphabet :: alphabet where "std_alphabet = (43, 47)"
definition url_alphabet :: alphabet where "url_alphabet = (45, 95)"

definition alphabet_ok :: "alphabet \<Rightarrow> bool" where
  "alphabet_ok ab \<longleftrightarrow> fst ab < 256 \<and> snd ab < 256 \<and> fst ab \<noteq> snd ab \<and>
     (\<forall>n\<in>{fst ab, snd ab}. n \<notin> {10, 13} \<and> \<not> (48 \<le> n \<and> n \<le> 57) \<and> \<not> (65 \<le> n \<and> n \<le> 90) \<and> \<not> (97 \<le> n \<and> n \<le> 122))"

definition sym_code :: "alphabet \<Rightarrow> nat \<Rightarrow> nat" where
  "sym_code ab v = (if v < 26 then v + 65 else if v < 52 then v + 71 else if v < 62 then v - 4
     else if v = 62 then fst ab else snd ab)"

definition sym_val :: "alphabet \<Rightarrow> nat \<Rightarrow> nat option" where
  "sym_val ab n = (if 65 \<le> n \<and> n \<le> 90 then Some (n - 65) else if 97 \<le> n \<and> n \<le> 122 then Some (n - 71)
     else if 48 \<le> n \<and> n \<le> 57 then Some (n + 4) else if n = fst ab then Some 62 else if n = snd ab then Some 63 else None)"

lemma sym_code_cases:
  assumes "v < 64"
  obtains (upper) "v < 26" "sym_code ab v = v + 65" | (lower) k where "v = k + 26" "k < 26" "sym_code ab v = k + 97"
  | (digit) k where "v = k + 52" "k < 10" "sym_code ab v = k + 48"
  | (first) "v = 62" "sym_code ab v = fst ab" | (last) "v = 63" "sym_code ab v = snd ab"
proof -
  consider "v < 26" | "26 \<le> v" "v < 52" | "52 \<le> v" "v < 62" | "v = 62" | "v = 63" using assms by linarith
  then show thesis
  proof cases
    case 2
    then show thesis using lower [of "v - 26"] by (simp add: sym_code_def)
  next
    case 3
    then show thesis using digit [of "v - 52"] by (simp add: sym_code_def)
  qed (use upper first last in \<open>simp_all add: sym_code_def\<close>)
qed

definition symbol_byte :: "nat \<Rightarrow> bool" where
  "symbol_byte n \<longleftrightarrow> n < 256 \<and> n \<noteq> 10 \<and> n \<noteq> 13"

lemma sym_code_range: "alphabet_ok ab \<Longrightarrow> v < 64 \<Longrightarrow> symbol_byte (sym_code ab v)"
  by (rule sym_code_cases [of v ab]) (simp_all add: alphabet_ok_def symbol_byte_def)

lemma sym_val_code:
  assumes "alphabet_ok ab" "v < 64"
  shows "sym_val ab (sym_code ab v) = Some v"
proof (cases rule: sym_code_cases [OF assms(2), of ab, case_names upper lower digit first last])
  case first
  have "\<not> (65 \<le> fst ab \<and> fst ab \<le> 90)" "\<not> (97 \<le> fst ab \<and> fst ab \<le> 122)" "\<not> (48 \<le> fst ab \<and> fst ab \<le> 57)"
    using assms(1) by (simp_all add: alphabet_ok_def)
  with first show ?thesis unfolding sym_val_def by auto
next
  case last
  have "\<not> (65 \<le> snd ab \<and> snd ab \<le> 90)" "\<not> (97 \<le> snd ab \<and> snd ab \<le> 122)" "\<not> (48 \<le> snd ab \<and> snd ab \<le> 57)"
      "fst ab \<noteq> snd ab"
    using assms(1) by (simp_all add: alphabet_ok_def)
  with last show ?thesis unfolding sym_val_def by auto
qed (simp_all add: sym_val_def)

section \<open>Groups\<close>

fun to_sextets :: "nat list \<Rightarrow> nat list" where
  "to_sextets [] = []"
| "to_sextets [a] = [a div 4, (a mod 4) * 16]"
| "to_sextets [a, b] = [a div 4, (a mod 4) * 16 + b div 16, (b mod 16) * 4]"
| "to_sextets (a # b # c # rest) =
     a div 4 # ((a mod 4) * 16 + b div 16) # ((b mod 16) * 4 + c div 64) # c mod 64 # to_sextets rest"

fun of_sextets :: "nat list \<Rightarrow> nat list option" where
  "of_sextets [] = Some []"
| "of_sextets [x] = None"
| "of_sextets [x, y] = Some [x * 4 + y div 16]"
| "of_sextets [x, y, z] = Some [x * 4 + y div 16, (y mod 16) * 16 + z div 4]"
| "of_sextets (x # y # z # t # rest) =
     map_option (\<lambda>bs. (x * 4 + y div 16) # ((y mod 16) * 16 + z div 4) # ((z mod 4) * 64 + t) # bs) (of_sextets rest)"

lemma to_sextets_range: "\<forall>b\<in>set bs. b < 256 \<Longrightarrow> \<forall>v\<in>set (to_sextets bs). v < 64"
proof (induction bs rule: to_sextets.induct)
  case (2 a)
  then show ?case by (simp add: div_less_iff_less_mult)
next
  case (3 a b)
  then have "a div 4 < 64" "b div 16 < 16" by (simp_all add: div_less_iff_less_mult)
  moreover have "a mod 4 < 4" "b mod 16 < 16" by simp_all
  ultimately show ?case unfolding to_sextets.simps list.set ball_simps by (intro conjI TrueI) linarith+
next
  case (4 a b c rest)
  then have "a div 4 < 64" "b div 16 < 16" "c div 64 < 4" by (simp_all add: div_less_iff_less_mult)
  moreover have "a mod 4 < 4" "b mod 16 < 16" "c mod 64 < 64" by simp_all
  moreover have "\<forall>v\<in>set (to_sextets rest). v < 64" using 4 by simp
  ultimately show ?case unfolding to_sextets.simps list.set ball_simps by (intro conjI TrueI) (linarith | assumption)+
qed simp

lemma group_arith:
  fixes a b c :: nat
  shows "a div 4 * 4 + ((a mod 4) * 16) div 16 = a"
    and "b < 256 \<Longrightarrow> a div 4 * 4 + ((a mod 4) * 16 + b div 16) div 16 = a"
    and "b < 256 \<Longrightarrow> ((a mod 4) * 16 + b div 16) mod 16 * 16 + ((b mod 16) * 4) div 4 = b"
    and "b < 256 \<Longrightarrow> c < 256 \<Longrightarrow> ((a mod 4) * 16 + b div 16) mod 16 * 16 + ((b mod 16) * 4 + c div 64) div 4 = b"
    and "c < 256 \<Longrightarrow> ((b mod 16) * 4 + c div 64) mod 4 * 64 + c mod 64 = c"
proof -
  show "a div 4 * 4 + ((a mod 4) * 16) div 16 = a" by simp
  assume b: "b < 256"
  then have b16: "b div 16 < 16" by (simp add: div_less_iff_less_mult)
  then have ab: "((a mod 4) * 16 + b div 16) div 16 = a mod 4" "((a mod 4) * 16 + b div 16) mod 16 = b div 16" by simp_all
  show "a div 4 * 4 + ((a mod 4) * 16 + b div 16) div 16 = a" unfolding ab by simp
  show "((a mod 4) * 16 + b div 16) mod 16 * 16 + ((b mod 16) * 4) div 4 = b" unfolding ab by simp
next
  assume b: "b < 256" and c: "c < 256"
  then have b16: "b div 16 < 16" and c64: "c div 64 < 4" by (simp_all add: div_less_iff_less_mult)
  then have ab: "((a mod 4) * 16 + b div 16) mod 16 = b div 16" and bc: "((b mod 16) * 4 + c div 64) div 4 = b mod 16" by simp_all
  show "((a mod 4) * 16 + b div 16) mod 16 * 16 + ((b mod 16) * 4 + c div 64) div 4 = b" unfolding ab bc by simp
next
  assume "c < 256"
  then have "c div 64 < 4" by (simp add: div_less_iff_less_mult)
  then have "((b mod 16) * 4 + c div 64) mod 4 = c div 64" by simp
  then show "((b mod 16) * 4 + c div 64) mod 4 * 64 + c mod 64 = c" by simp
qed

lemma of_to_sextets: "\<forall>b\<in>set bs. b < 256 \<Longrightarrow> of_sextets (to_sextets bs) = Some bs"
proof (induction bs rule: to_sextets.induct)
  case (3 a b)
  then show ?case by (simp only: to_sextets.simps of_sextets.simps group_arith list.set ball_simps insert_iff)
next
  case (4 a b c rest)
  then have "of_sextets (to_sextets rest) = Some rest" "b < 256" "c < 256" by simp_all
  then show ?case by (simp only: to_sextets.simps of_sextets.simps group_arith option.map)
qed (simp_all only: to_sextets.simps of_sextets.simps group_arith)

section \<open>Encoding and decoding\<close>

definition byte :: "char \<Rightarrow> nat" where "byte c = of_char c"

definition b64_encode :: "alphabet \<Rightarrow> gostring \<Rightarrow> gostring" where
  "b64_encode ab s = map (\<lambda>v. char_of (sym_code ab v)) (to_sextets (map byte s))"

definition b64_decode :: "alphabet \<Rightarrow> gostring \<Rightarrow> gostring option" where
  "b64_decode ab s =
     (let vals = map (sym_val ab) (filter (\<lambda>n. n \<notin> {10, 13}) (map byte s))
      in if None \<in> set vals then None else map_option (map char_of) (of_sextets (map the vals)))"

lemma byte_less: "byte c < 256"
  by (cases c) (simp add: byte_def)

lemma byte_char_of: "n < 256 \<Longrightarrow> byte (char_of n) = n"
  by (simp add: byte_def)

lemma sextets_range: "v \<in> set (to_sextets (map byte s)) \<Longrightarrow> v < 64"
  using to_sextets_range [of "map byte s"] byte_less by simp

lemma b64_encode_bytes:
  assumes "alphabet_ok ab"
  shows "map byte (b64_encode ab s) = map (sym_code ab) (to_sextets (map byte s))"
  unfolding b64_encode_def list.map_comp comp_def
  by (rule map_cong [OF refl]) (use sym_code_range [OF assms sextets_range] in \<open>simp add: byte_char_of symbol_byte_def\<close>)

lemma b64_decode_encode:
  assumes "alphabet_ok ab"
  shows "b64_decode ab (b64_encode ab s) = Some s"
proof -
  let ?vs = "to_sextets (map byte s)"
  have kept: "filter (\<lambda>n. n \<notin> {10, 13}) (map (sym_code ab) ?vs) = map (sym_code ab) ?vs"
    unfolding filter_id_conv using sym_code_range [OF assms sextets_range] by (auto simp: symbol_byte_def)
  have vals: "map (sym_val ab) (map (sym_code ab) ?vs) = map Some ?vs"
    unfolding list.map_comp comp_def by (rule map_cong [OF refl]) (simp add: sym_val_code [OF assms sextets_range])
  have bytes: "of_sextets ?vs = Some (map byte s)" by (rule of_to_sextets) (simp add: byte_less)
  have "map the (map Some ?vs) = ?vs" by (simp add: comp_def)
  then show ?thesis
    unfolding b64_decode_def b64_encode_bytes [OF assms] kept vals Let_def
    by (simp add: bytes) (simp add: byte_def comp_def)
qed

lemma b64_encode_set:
  assumes "alphabet_ok ab" "c \<in> set (b64_encode ab s)"
  shows "sym_val ab (byte c) \<noteq> None"
proof -
  have "byte c \<in> set (map byte (b64_encode ab s))" using assms(2) by simp
  then obtain v where "v \<in> set (to_sextets (map byte s))" "byte c = sym_code ab v"
    unfolding b64_encode_bytes [OF assms(1)] by auto
  then show ?thesis using sym_val_code [OF assms(1) sextets_range] by simp
qed

lemma alphabets [simp]: "alphabet_ok std_alphabet" "alphabet_ok url_alphabet"
  unfolding alphabet_ok_def std_alphabet_def url_alphabet_def by simp_all

interpretation b64url: text_codec "b64_encode url_alphabet" "b64_decode url_alphabet" "CHR ''.''"
proof
  fix s
  show "b64_decode url_alphabet (b64_encode url_alphabet s) = Some s" by (simp add: b64_decode_encode)
  show "CHR ''.'' \<notin> set (b64_encode url_alphabet s)"
    using b64_encode_set [OF alphabets(2), of "CHR ''.''" s] by (auto simp: sym_val_def byte_def url_alphabet_def)
qed

interpretation b64std: text_codec "b64_encode std_alphabet" "b64_decode std_alphabet" "CHR ''$''"
proof
  fix s
  show "b64_decode std_alphabet (b64_encode std_alphabet s) = Some s" by (simp add: b64_decode_encode)
  show "CHR ''$'' \<notin> set (b64_encode std_alphabet s)"
    using b64_encode_set [OF alphabets(1), of "CHR ''$''" s] by (auto simp: sym_val_def byte_def std_alphabet_def)
qed

end
