(* ===== verification/Console.thy ===== *)
theory Console
  imports Base64 Wire
begin

text \<open>
  The operator console of \<open>internal/console\<close> and \<open>internal/server/console_http.go\<close>: PBKDF2 password hashes, signed
  session cookies and OAuth states, the admin allowlist, and the login, logout and single-sign-on handlers.

  HMAC-SHA256, PBKDF2 and JSON are arguments; so are the answers of the identity providers' HTTP endpoints. An HTTP
  request is the values the handler reads from it, a response is its status and the cookies it sets. The comparisons
  in constant time are equality, and the throw-away verification of an unknown user has no result.
\<close>

section \<open>Tokens\<close>

type_synonym hmac = "gostring \<Rightarrow> gostring \<Rightarrow> gostring" \<comment> \<open>key, message\<close>

definition sign :: "hmac \<Rightarrow> gostring \<Rightarrow> gostring \<Rightarrow> gostring" where
  "sign hm secret payload =
     b64_encode url_alphabet payload @ ''.'' @ b64_encode url_alphabet (hm secret payload)"

definition verify :: "hmac \<Rightarrow> gostring \<Rightarrow> gostring \<Rightarrow> gostring option" where
  "verify hm secret token =
     (case dropWhile (\<lambda>c. c \<noteq> CHR ''.'') token of
        [] \<Rightarrow> None
      | dot # rest \<Rightarrow>
          (case b64_decode url_alphabet (takeWhile (\<lambda>c. c \<noteq> CHR ''.'') token) of
             None \<Rightarrow> None
           | Some payload \<Rightarrow>
               (case b64_decode url_alphabet rest of
                  None \<Rightarrow> None
                | Some sig \<Rightarrow> if sig \<noteq> hm secret payload then None else Some payload)))"

section \<open>Passwords\<close>

type_synonym pbkdf2 = "gostring \<Rightarrow> gostring \<Rightarrow> int \<Rightarrow> nat \<Rightarrow> gostring option"
  \<comment> \<open>password, salt, iterations, key length\<close>

definition pbkdf2Iter :: nat where "pbkdf2Iter = 210000"
definition minPBKDF2Iter :: int where "minPBKDF2Iter = 100000"
definition minDKLen :: nat where "minDKLen = 16"

text \<open>\<open>strings.Split\<close> at one byte, and \<open>strconv.Atoi\<close>.\<close>

fun split_at :: "char \<Rightarrow> gostring \<Rightarrow> gostring list" where
  "split_at sep [] = [[]]"
| "split_at sep (c # cs) =
     (if c = sep then [] # split_at sep cs
      else case split_at sep cs of [] \<Rightarrow> [[c]] | p # ps \<Rightarrow> (c # p) # ps)"

definition Atoi :: "gostring \<Rightarrow> int option" where
  "Atoi s =
     (let (neg, ds) = (case s of [] \<Rightarrow> (False, []) | c # cs \<Rightarrow>
            if c = CHR ''-'' then (True, cs) else if c = CHR ''+'' then (False, cs) else (False, s));
          v = (if neg then - int (atoi ds) else int (atoi ds))
      in if ds = [] \<or> list_ex (\<lambda>c. byte c < 48 \<or> 57 < byte c) ds \<or> v < min_int64 \<or> max_int64 < v then None else Some v)"

definition HashPassword :: "pbkdf2 \<Rightarrow> gostring option \<Rightarrow> gostring \<Rightarrow> gostring option" where
  "HashPassword kdf random plaintext =
     (case random of None \<Rightarrow> None | Some salt \<Rightarrow>
        (case kdf plaintext salt (int pbkdf2Iter) 32 of None \<Rightarrow> None | Some dk \<Rightarrow>
           Some (''pbkdf2$sha256$'' @ itoa pbkdf2Iter @ ''$'' @ b64_encode std_alphabet salt @ ''$'' @ b64_encode std_alphabet dk)))"

definition VerifyPassword :: "pbkdf2 \<Rightarrow> gostring \<Rightarrow> gostring \<Rightarrow> bool" where
  "VerifyPassword kdf encoded plaintext =
     (case split_at (CHR ''$'') encoded of
        [p0, p1, p2, p3, p4] \<Rightarrow>
          p0 = ''pbkdf2'' \<and> p1 = ''sha256'' \<and>
          (case Atoi p2 of None \<Rightarrow> False | Some iter \<Rightarrow> \<not> iter < minPBKDF2Iter \<and>
             (case b64_decode std_alphabet p3 of None \<Rightarrow> False | Some salt \<Rightarrow> \<not> length salt < minDKLen \<and>
                (case b64_decode std_alphabet p4 of None \<Rightarrow> False | Some want \<Rightarrow> \<not> length want < minDKLen \<and>
                   (case kdf plaintext salt iter (length want) of None \<Rightarrow> False | Some got \<Rightarrow> got = want))))
      | _ \<Rightarrow> False)"

section \<open>Sessions\<close>

record session =
  se_Subject :: gostring
  se_Name :: gostring
  se_Provider :: gostring
  se_Admin :: bool
  se_Expires :: int

record account =
  ct_Username :: gostring
  ct_PWHash :: gostring
  ct_Admin :: bool

record consoleOptions =
  oo_Secret :: gostring
  oo_TTL :: duration
  oo_Accounts :: "account list"
  oo_AdminEmails :: "gostring list"
  oo_AdminDomains :: "gostring list"
  oo_CookieName :: gostring
  oo_AllowInsecure :: bool

record manager =
  mg_secret :: gostring
  mg_ttl :: duration
  mg_accounts :: "(gostring, account) gomap"
  mg_adminEmail :: "gostring list"
  mg_adminDom :: "gostring list"
  mg_cookie :: gostring
  mg_secure :: bool

datatype console_error = ErrShortSecret | ErrBadLogin

definition trim_at :: "gostring \<Rightarrow> gostring" where
  "trim_at s = (case s of c # cs \<Rightarrow> if c = CHR ''@'' then cs else s | [] \<Rightarrow> [])"

definition console_New :: "consoleOptions \<Rightarrow> console_error + manager" where
  "console_New o1 =
     (if length (oo_Secret o1) < 32 then Inl ErrShortSecret
      else Inr \<lparr>mg_secret = oo_Secret o1,
        mg_ttl = (if oo_TTL o1 \<le> 0 then 8 * 3600 * second else oo_TTL o1),
        mg_accounts = fold (\<lambda>a. mput (ct_Username a) a) (oo_Accounts o1) [],
        mg_adminEmail = map (\<lambda>e. ToLower (TrimSpace e)) (oo_AdminEmails o1),
        mg_adminDom = map (\<lambda>d. trim_at (ToLower (TrimSpace d))) (oo_AdminDomains o1),
        mg_cookie = (if oo_CookieName o1 = [] then ''heave_console'' else oo_CookieName o1),
        mg_secure = (\<not> oo_AllowInsecure o1)\<rparr>)"

definition newSession :: "manager \<Rightarrow> instant \<Rightarrow> gostring \<Rightarrow> gostring \<Rightarrow> gostring \<Rightarrow> bool \<Rightarrow> session" where
  "newSession m now sub nm provider admin =
     \<lparr>se_Subject = sub, se_Name = nm, se_Provider = provider, se_Admin = admin, se_Expires = unix (now + mg_ttl m)\<rparr>"

definition LocalLogin :: "pbkdf2 \<Rightarrow> manager \<Rightarrow> instant \<Rightarrow> gostring \<Rightarrow> gostring \<Rightarrow> console_error + session" where
  "LocalLogin kdf m now username password =
     (case mget (mg_accounts m) username of
        None \<Rightarrow> Inl ErrBadLogin
      | Some acct \<Rightarrow>
          if \<not> VerifyPassword kdf (ct_PWHash acct) password then Inl ErrBadLogin
          else Inr (newSession m now (''local:'' @ ct_Username acct) (ct_Username acct) ''local'' (ct_Admin acct)))"

text \<open>What follows the last \<open>@\<close>, if there is one.\<close>

definition after_last_at :: "gostring \<Rightarrow> gostring option" where
  "after_last_at s = (if CHR ''@'' \<in> set s then Some (rev (takeWhile (\<lambda>c. c \<noteq> CHR ''@'') (rev s))) else None)"

definition AdminForEmail :: "manager \<Rightarrow> gostring \<Rightarrow> bool" where
  "AdminForEmail m email0 =
     (let email = ToLower (TrimSpace email0)
      in if email = [] then False
         else if email \<in> set (mg_adminEmail m) then True
         else case after_last_at email of None \<Rightarrow> False | Some d \<Rightarrow> d \<in> set (mg_adminDom m))"

definition NewSSOSession :: "manager \<Rightarrow> instant \<Rightarrow> gostring \<Rightarrow> gostring \<Rightarrow> gostring \<Rightarrow> session" where
  "NewSSOSession m now email0 name0 provider =
     (let email = ToLower (TrimSpace email0)
      in newSession m now email (if name0 = [] then email else name0) provider (AdminForEmail m email))"

record stateClaim =
  oc_Nonce :: gostring
  oc_Redirect :: gostring
  oc_Expires :: int

record 'a json =
  js_marshal :: "'a \<Rightarrow> gostring"
  js_unmarshal :: "gostring \<Rightarrow> 'a option"

definition session_Encode :: "hmac \<Rightarrow> session json \<Rightarrow> manager \<Rightarrow> session \<Rightarrow> gostring" where
  "session_Encode hm js m s = sign hm (mg_secret m) (js_marshal js s)"

definition session_Decode :: "hmac \<Rightarrow> session json \<Rightarrow> manager \<Rightarrow> instant \<Rightarrow> gostring \<Rightarrow> session option" where
  "session_Decode hm js m now token =
     (case verify hm (mg_secret m) token of None \<Rightarrow> None | Some payload \<Rightarrow>
        (case js_unmarshal js payload of None \<Rightarrow> None | Some s \<Rightarrow> if unix now \<ge> se_Expires s then None else Some s))"

definition SessionFrom :: "hmac \<Rightarrow> session json \<Rightarrow> manager \<Rightarrow> instant \<Rightarrow> gostring option \<Rightarrow> session option" where
  "SessionFrom hm js m now cookie = (case cookie of None \<Rightarrow> None | Some c \<Rightarrow> session_Decode hm js m now c)"

definition SignState :: "hmac \<Rightarrow> stateClaim json \<Rightarrow> manager \<Rightarrow> instant \<Rightarrow> gostring \<Rightarrow> gostring \<Rightarrow> duration \<Rightarrow> gostring" where
  "SignState hm js m now nonce redirect ttl =
     sign hm (mg_secret m) (js_marshal js \<lparr>oc_Nonce = nonce, oc_Redirect = redirect, oc_Expires = unix (now + ttl)\<rparr>)"

definition VerifyState :: "hmac \<Rightarrow> stateClaim json \<Rightarrow> manager \<Rightarrow> instant \<Rightarrow> gostring \<Rightarrow> gostring \<Rightarrow> gostring option" where
  "VerifyState hm js m now token expectNonce =
     (case verify hm (mg_secret m) token of None \<Rightarrow> None | Some payload \<Rightarrow>
        (case js_unmarshal js payload of None \<Rightarrow> None | Some c \<Rightarrow>
           if unix now \<ge> oc_Expires c then None
           else if oc_Nonce c \<noteq> expectNonce then None
           else Some (oc_Redirect c)))"

section \<open>Handlers\<close>

record cookie =
  ck_Name :: gostring
  ck_Value :: gostring
  ck_Path :: gostring
  ck_HttpOnly :: bool
  ck_Secure :: bool
  ck_MaxAge :: int
  ck_Expires :: "int option"

datatype console_reply =
    Failed (cr_status: int) (cr_type: gostring) (cr_message: gostring)
  | LoggedIn gostring
  | LoggedOut
  | Found gostring \<comment> \<open>the location of the redirect\<close>

definition Issue :: "hmac \<Rightarrow> session json \<Rightarrow> manager \<Rightarrow> session \<Rightarrow> cookie" where
  "Issue hm js m s =
     \<lparr>ck_Name = mg_cookie m, ck_Value = session_Encode hm js m s, ck_Path = ''/'', ck_HttpOnly = True,
      ck_Secure = mg_secure m, ck_MaxAge = 0, ck_Expires = Some (se_Expires s)\<rparr>"

definition cookie_Clear :: "manager \<Rightarrow> cookie" where
  "cookie_Clear m =
     \<lparr>ck_Name = mg_cookie m, ck_Value = [], ck_Path = ''/'', ck_HttpOnly = True, ck_Secure = mg_secure m,
      ck_MaxAge = - 1, ck_Expires = None\<rparr>"

definition adminSession :: "hmac \<Rightarrow> session json \<Rightarrow> manager option \<Rightarrow> instant \<Rightarrow> gostring option \<Rightarrow> bool" where
  "adminSession hm js console now cookie =
     (case console of None \<Rightarrow> False | Some m \<Rightarrow>
        (case SessionFrom hm js m now cookie of None \<Rightarrow> False | Some sess \<Rightarrow> se_Admin sess))"

text \<open>The body is the user name and password, or why it did not decode.\<close>

definition handleConsoleLoginLocal ::
  "hmac \<Rightarrow> session json \<Rightarrow> pbkdf2 \<Rightarrow> manager \<Rightarrow> instant \<Rightarrow> gostring + gostring \<times> gostring \<Rightarrow> console_reply \<times> cookie list" where
  "handleConsoleLoginLocal hm js kdf m now bdy =
     (case bdy of
        Inl err \<Rightarrow> (Failed 400 ''invalid_request_error'' (''invalid JSON body: '' @ err), [])
      | Inr (username, password) \<Rightarrow>
          (case LocalLogin kdf m now username password of
             Inl _ \<Rightarrow> (Failed 401 ''authentication_error'' ''invalid credentials'', [])
           | Inr sess \<Rightarrow>
               if \<not> se_Admin sess then
                 (Failed 403 ''permission_error'' ''account is not authorized for the console'', [])
               else (LoggedIn (se_Name sess), [Issue hm js m sess])))"

definition handleConsoleLogout :: "manager \<Rightarrow> console_reply \<times> cookie list" where
  "handleConsoleLogout m = (LoggedOut, [cookie_Clear m])"

definition safeReturnPath :: "gostring \<Rightarrow> gostring" where
  "safeReturnPath p =
     (if p = [] \<or> hd p \<noteq> CHR ''/'' then ''/console''
      else if take 2 p = ''//'' \<or> take 2 p = [CHR ''/'', CHR 0x5C] then ''/console''
      else if list_ex (\<lambda>c. c \<in> {CHR 0x5C, CHR 0x0D, CHR 0x0A, NUL}) p then ''/console''
      else p)"

record idp =
  idp_AuthCodeURL :: "gostring \<Rightarrow> gostring \<Rightarrow> gostring" \<comment> \<open>state, redirect URI\<close>
  idp_FetchIdentity :: "gostring \<Rightarrow> gostring \<Rightarrow> gostring + gostring \<times> gostring" \<comment> \<open>code, redirect URI: email and name\<close>

record consoleServer =
  cv_console :: manager
  cv_oauth :: "(gostring, idp) gomap"
  cv_baseURL :: gostring
  cv_secure :: bool

definition nonceCookie :: gostring where "nonceCookie = ''heave_oauth_nonce''"

definition oauthRedirectURI :: "consoleServer \<Rightarrow> gostring \<Rightarrow> gostring" where
  "oauthRedirectURI cv provider =
     rev (dropWhile (\<lambda>c. c = CHR ''/'') (rev (cv_baseURL cv))) @ ''/console/auth/'' @ provider @ ''/callback''"

definition nonce_cookie :: "consoleServer \<Rightarrow> gostring \<Rightarrow> int \<Rightarrow> cookie" where
  "nonce_cookie cv v age =
     \<lparr>ck_Name = nonceCookie, ck_Value = v, ck_Path = ''/console/'', ck_HttpOnly = True, ck_Secure = cv_secure cv,
      ck_MaxAge = age, ck_Expires = None\<rparr>"

text \<open>\<open>random\<close> is the hex of 16 fresh random bytes, or a failed draw.\<close>

definition handleOAuthStart ::
  "hmac \<Rightarrow> stateClaim json \<Rightarrow> consoleServer \<Rightarrow> instant \<Rightarrow> gostring option \<Rightarrow> gostring \<Rightarrow> gostring \<Rightarrow>
   console_reply \<times> cookie list" where
  "handleOAuthStart hm jc cv now random provider return_param =
     (case mget (cv_oauth cv) provider of
        None \<Rightarrow> (Failed 404 ''not_found'' ''unknown sso provider'', [])
      | Some p \<Rightarrow>
          (case random of
             None \<Rightarrow> (Failed 500 ''api_error'' ''state error'', [])
           | Some nonce \<Rightarrow>
               (let ret = safeReturnPath return_param;
                    state = SignState hm jc (cv_console cv) now nonce ret (600 * second)
                in (Found (idp_AuthCodeURL p state (oauthRedirectURI cv provider)), [nonce_cookie cv nonce 600]))))"

definition handleOAuthCallback ::
  "hmac \<Rightarrow> session json \<Rightarrow> stateClaim json \<Rightarrow> consoleServer \<Rightarrow> instant \<Rightarrow> gostring \<Rightarrow> gostring option \<Rightarrow> gostring \<Rightarrow> gostring \<Rightarrow>
   console_reply \<times> cookie list" where
  "handleOAuthCallback hm js jc cv now provider nonce state code =
     (case mget (cv_oauth cv) provider of
        None \<Rightarrow> (Failed 404 ''not_found'' ''unknown sso provider'', [])
      | Some p \<Rightarrow>
          (case nonce of
             None \<Rightarrow> (Failed 400 ''invalid_request_error'' ''missing state'', [])
           | Some c \<Rightarrow>
               (case VerifyState hm jc (cv_console cv) now state c of
                  None \<Rightarrow> (Failed 400 ''invalid_request_error'' ''invalid state'', [])
                | Some ret \<Rightarrow>
                    (case idp_FetchIdentity p code (oauthRedirectURI cv provider) of
                       Inl _ \<Rightarrow> (Failed 502 ''api_error'' ''sso identity fetch failed'', [nonce_cookie cv [] (- 1)])
                     | Inr (email, nm) \<Rightarrow>
                         if email = [] then (Failed 502 ''api_error'' ''sso identity fetch failed'', [nonce_cookie cv [] (- 1)])
                         else
                           (let sess = NewSSOSession (cv_console cv) now email nm provider
                            in if \<not> se_Admin sess then
                                 (Failed 403 ''permission_error'' ''this identity is not authorized for the console'',
                                  [nonce_cookie cv [] (- 1)])
                               else (Found ret, [nonce_cookie cv [] (- 1), Issue hm js (cv_console cv) sess]))))))"

section \<open>Identity providers\<close>

text \<open>The two providers, on the decoded answers of their endpoints: the token exchange and the identity calls.\<close>

record googleUser =
  gu_Email :: gostring
  gu_EmailVerified :: bool
  gu_Name :: gostring

definition google_FetchIdentity ::
  "gostring + gostring \<Rightarrow> (gostring \<Rightarrow> gostring + googleUser) \<Rightarrow> gostring + gostring \<times> gostring" where
  "google_FetchIdentity token userinfo =
     (case token of Inl e \<Rightarrow> Inl e | Inr tok \<Rightarrow>
        (case userinfo tok of Inl e \<Rightarrow> Inl e | Inr ui \<Rightarrow>
           if \<not> gu_EmailVerified ui then Inl ''sso: no verified primary email'' else Inr (gu_Email ui, gu_Name ui)))"

record githubEmail =
  gh_Email :: gostring
  gh_Primary :: bool
  gh_Verified :: bool

definition github_FetchIdentity ::
  "gostring + gostring \<Rightarrow> (gostring \<Rightarrow> gostring + gostring \<times> gostring) \<Rightarrow> (gostring \<Rightarrow> gostring + githubEmail list) \<Rightarrow>
   gostring + gostring \<times> gostring" where
  "github_FetchIdentity token user emails =
     (case token of Inl e \<Rightarrow> Inl e | Inr tok \<Rightarrow>
        (case user tok of Inl e \<Rightarrow> Inl e | Inr (nm0, login) \<Rightarrow>
           (case emails tok of Inl e \<Rightarrow> Inl e | Inr es \<Rightarrow>
              (let nm = (if nm0 = [] then login else nm0)
               in case find (\<lambda>e. gh_Primary e \<and> gh_Verified e) es of
                    Some e \<Rightarrow> Inr (gh_Email e, nm)
                  | None \<Rightarrow> Inl ''sso: no verified primary email''))))"

text \<open>The access token of an answer to the token exchange: its status and, when it decodes, its token.\<close>

definition oauthToken :: "gostring + int \<times> gostring option \<Rightarrow> gostring + gostring" where
  "oauthToken resp =
     (case resp of Inl e \<Rightarrow> Inl e | Inr (status, tok) \<Rightarrow>
        if status \<noteq> 200 then Inl ''sso: token endpoint returned non-200''
        else case tok of None \<Rightarrow> Inl ''malformed token response''
        | Some t \<Rightarrow> if t = [] then Inl ''sso: token exchange returned no access_token'' else Inr t)"

end
