(* ===== verification/GuardAPI.thy ===== *)
theory GuardAPI
  imports Server Console ScopeStore
begin

text \<open>
  The out-of-band decision API of \<open>internal/server/guard.go\<close>: reserve, settle and release for external enforcement
  points, with a signed stateless reservation token, on the same resolver and firewall as the request path. JSON of
  the claim and HMAC are arguments, as in the console; the reconcile claim is the shared store's.
\<close>

section \<open>Reservation tokens\<close>

record reservationClaim =
  rc_R :: reservation
  rc_Nonce :: gostring
  rc_Exp :: int

record 'w guardAPI =
  ga_secret :: gostring
  ga_dedup :: "gostring \<Rightarrow> int \<Rightarrow> 'w \<Rightarrow> (gostring + bool) \<times> 'w"
  ga_timeout :: duration \<comment> \<open>\<open>requestTimeout\<close>\<close>
  ga_hmac :: hmac
  ga_json :: "reservationClaim json"

definition maxGuardEstUSD :: usd where "maxGuardEstUSD = 1000000"
definition maxGuardEstTokens :: int where "maxGuardEstTokens = 1000000000"

text \<open>The API is on only with a strong secret, a shared dedup and a firewall on the shared store.\<close>

definition guardReady :: "gostring \<Rightarrow> 'd option \<Rightarrow> 'w firewall \<Rightarrow> bool" where
  "guardReady secret dedup f \<longleftrightarrow> length secret \<ge> 32 \<and> dedup \<noteq> None \<and> fw_scopeStore f \<noteq> None"

definition reservationTTL :: "'w guardAPI \<Rightarrow> duration" where
  "reservationTTL ga = wrap64 (ga_timeout ga + 60 * second)"

text \<open>\<open>int(d.Seconds())\<close>, which truncates towards zero.\<close>

definition seconds_of :: "duration \<Rightarrow> int" where
  "seconds_of d = (if d \<ge> 0 then d div second else - ((- d) div second))"

definition claimReconcile :: "'w guardAPI \<Rightarrow> gostring \<Rightarrow> 'w \<Rightarrow> bool \<times> 'w" where
  "claimReconcile ga nonce w =
     (case ga_dedup ga nonce (seconds_of (reservationTTL ga)) w of
        (Inl err, w1) \<Rightarrow> (True, w1)
      | (Inr claimed, w1) \<Rightarrow> (claimed, w1))"

text \<open>\<open>nonce\<close> is the hex of 16 random bytes, or a failed draw.\<close>

definition signReservation :: "'w guardAPI \<Rightarrow> gostring option \<Rightarrow> instant \<Rightarrow> reservation \<Rightarrow> gostring option" where
  "signReservation ga nonce now r =
     (case nonce of None \<Rightarrow> None | Some n \<Rightarrow>
        (let claim = \<lparr>rc_R = r, rc_Nonce = n, rc_Exp = unix (now + reservationTTL ga)\<rparr>
         in Some (sign (ga_hmac ga) (ga_secret ga) (js_marshal (ga_json ga) claim))))"

text \<open>\<open>None\<close> is an invalid token, else the claim and whether its lease has expired.\<close>

definition verifyReservation :: "'w guardAPI \<Rightarrow> instant \<Rightarrow> gostring \<Rightarrow> (reservationClaim \<times> bool) option" where
  "verifyReservation ga now token =
     (case verify (ga_hmac ga) (ga_secret ga) token of None \<Rightarrow> None | Some payload \<Rightarrow>
        (case js_unmarshal (ga_json ga) payload of None \<Rightarrow> None | Some claim \<Rightarrow>
           Some (claim, unix now \<ge> rc_Exp claim)))"

section \<open>Requests and replies\<close>

text \<open>Who calls: the \<open>Authorization\<close> header, and whether the cookie is an admin session.\<close>

record caller =
  ca_authorization :: gostring
  ca_adminSession :: bool

record guardReserveBody =
  gb_KeySHA256 :: gostring
  gb_RunID :: gostring
  gb_USD :: usd
  gb_Tokens :: int

record guardSettleBody =
  gs_ReservationID :: gostring
  gs_USD :: usd
  gs_Tokens :: int

record guardReserveResp =
  gr_Admitted :: bool
  gr_ReservationID :: gostring
  gr_HTTPStatus :: int
  gr_Reason :: gostring
  gr_BindingNode :: gostring
  gr_RetryAfterSec :: int

datatype guard_reply =
    GuardFailed reply
  | Verdict guardReserveResp
  | Reconciled bool \<comment> \<open>\<open>applied\<close>\<close>

definition admin_gate :: "'w env \<Rightarrow> caller \<Rightarrow> 'w server \<Rightarrow> reply option" where
  "admin_gate en ca s =
     requireAdmin (ca_adminSession ca) (Authenticate (en_sha256hex en) (bearerToken (ca_authorization ca)) (sv_guard s))"

definition decodeAdmin :: "gostring + 'b \<Rightarrow> reply + 'b" where
  "decodeAdmin bdy = (case bdy of Inl err \<Rightarrow> Inl (bad_request (''invalid JSON body: '' @ err)) | Inr b \<Rightarrow> Inr b)"

definition denial :: "int \<Rightarrow> gostring \<Rightarrow> gostring \<Rightarrow> int \<Rightarrow> guardReserveResp" where
  "denial status reason node retry =
     \<lparr>gr_Admitted = False, gr_ReservationID = [], gr_HTTPStatus = status, gr_Reason = reason, gr_BindingNode = node,
      gr_RetryAfterSec = retry\<rparr>"

definition guardDeny :: "fw_error \<Rightarrow> guardReserveResp" where
  "guardDeny e = (case e of
     ErrKilled \<Rightarrow> denial 403 ''killed'' [] 0
   | VelocityError sc n \<Rightarrow> denial 429 ''velocity'' sc n
   | ConcurrencyError sc \<Rightarrow> denial 429 ''concurrency'' sc 0
   | ErrBadChain \<Rightarrow> denial 429 ''blocked'' [] 0)"

section \<open>Reserve\<close>

definition empty_reservation :: reservation where
  "empty_reservation = \<lparr>rv_ScopeKeys = [], rv_RunScopeKey = [], rv_Shared = False, rv_StoreKeys = [], rv_HoldID = [],
     rv_EstUSD = 0, rv_EstTokens = 0\<rparr>"

definition guard_enter ::
  "'w env \<Rightarrow> gostring \<Rightarrow> guardReserveBody \<Rightarrow> scope list \<Rightarrow> bool \<Rightarrow> 'w server \<Rightarrow> 'w \<Rightarrow> (fw_error + 'w ticket) \<times> 'w firewall \<times> 'w" where
  "guard_enter en keySHA b scopes governed s w =
     (if governed
      then fw_EnterChain scopes [] (gb_USD b) (gb_Tokens b) (en_random en w 1) (\<lambda>i. en_now en w (3 + i)) (sv_firewall s) w
      else fw_Enter keySHA (gb_RunID b) [] (gb_USD b) (gb_Tokens b) (en_random en w 1) (\<lambda>i. en_now en w (3 + i)) (sv_firewall s) w)"

text \<open>From the admitted ticket on.\<close>

definition guard_issue ::
  "'w env \<Rightarrow> 'w guardAPI \<Rightarrow> gostring option \<Rightarrow> 'w ticket \<Rightarrow> 'w firewall \<Rightarrow> 'w \<Rightarrow> guard_reply \<times> 'w firewall \<times> 'w" where
  "guard_issue en ga nonce tk f w =
     (let resv = tk_Reservation tk;
          degraded = \<not> rv_Shared resv \<and> length (rv_ScopeKeys resv) > 0;
          (tk1, f1, w1) = (if degraded then tk_Release (en_now en w 16) tk f w else (tk, f, w));
          resv1 = (if degraded then empty_reservation else resv)
      in case signReservation ga nonce (en_now en w1 17) resv1 of
           None \<Rightarrow> (let (tk2, f2, w2) = tk_Release (en_now en w1 18) tk1 f1 w1
                    in (GuardFailed (ErrorReply 500 ''api_error'' ''could not issue reservation'' []), f2, w2))
         | Some tokenID \<Rightarrow>
             (Verdict \<lparr>gr_Admitted = True, gr_ReservationID = tokenID, gr_HTTPStatus = 0, gr_Reason = [],
                gr_BindingNode = [], gr_RetryAfterSec = 0\<rparr>, f1, w1))"

definition handleGuardReserve ::
  "'w env \<Rightarrow> 'w guardAPI \<Rightarrow> gostring option \<Rightarrow> caller \<Rightarrow> gostring + guardReserveBody \<Rightarrow> 'w server \<Rightarrow> 'w \<Rightarrow>
   (guard_reply \<times> 'w server \<times> 'w) option" where
  "handleGuardReserve en ga nonce ca bdy s w =
     (case admin_gate en ca s of Some rep \<Rightarrow> Some (GuardFailed rep, s, w) | None \<Rightarrow>
     (case decodeAdmin bdy of Inl rep \<Rightarrow> Some (GuardFailed rep, s, w) | Inr b \<Rightarrow>
      if gb_RunID b \<noteq> [] \<and> \<not> validRunID (gb_RunID b) then
        Some (GuardFailed (bad_request ''run_id must be 1-128 chars of [A-Za-z0-9._-]''), s, w)
      else
        (let keySHA = ToLower (TrimSpace (gb_KeySHA256 b))
         in if keySHA = [] then Some (GuardFailed (bad_request ''key_sha256 is required''), s, w)
            else if gb_USD b < 0 \<or> gb_USD b > maxGuardEstUSD \<or> gb_Tokens b < 0 \<or> gb_Tokens b > maxGuardEstTokens then
              Some (GuardFailed (bad_request ''estimate out of range''), s, w)
            else case resolveChain keySHA (gb_RunID b) s of
              None \<Rightarrow> None
            | Some (scopes, killedBy, governed, rerr) \<Rightarrow>
                if rerr \<noteq> None then Some (GuardFailed policy_failed, s, w)
                else if governed \<and> killedBy \<noteq> [] then Some (Verdict (denial 403 ''killed'' killedBy 0), s, w)
                else (case guard_enter en keySHA b scopes governed s w of
                    (Inl ferr, f, w1) \<Rightarrow> Some (Verdict (guardDeny ferr), s\<lparr>sv_firewall := f\<rparr>, w1)
                  | (Inr tk, f, w1) \<Rightarrow>
                      (let (rep, f2, w2) = guard_issue en ga nonce tk f w1 in Some (rep, s\<lparr>sv_firewall := f2\<rparr>, w2))))))"

section \<open>Settle and release\<close>

definition handleGuardSettle ::
  "'w env \<Rightarrow> 'w guardAPI \<Rightarrow> caller \<Rightarrow> gostring + guardSettleBody \<Rightarrow> 'w server \<Rightarrow> 'w \<Rightarrow> guard_reply \<times> 'w server \<times> 'w" where
  "handleGuardSettle en ga ca bdy s w =
     (case admin_gate en ca s of Some rep \<Rightarrow> (GuardFailed rep, s, w) | None \<Rightarrow>
     (case decodeAdmin bdy of Inl rep \<Rightarrow> (GuardFailed rep, s, w) | Inr b \<Rightarrow>
     (case verifyReservation ga (en_now en w 0) (gs_ReservationID b) of
        None \<Rightarrow> (GuardFailed (bad_request ''invalid reservation_id''), s, w)
      | Some (claim, expired) \<Rightarrow>
          if expired then (Reconciled False, s, w)
          else (let (claimed, w1) = claimReconcile ga (rc_Nonce claim) w
                in if \<not> claimed then (Reconciled False, s, w1)
                   else
                     (let actualUSD = (if gs_USD b < 0 then 0 else gs_USD b);
                          actualTokens = (if gs_Tokens b < 0 then 0 else gs_Tokens b);
                          (f, w2) = SettleReservation (rc_R claim) actualUSD actualTokens (\<lambda>i. en_now en w1 (1 + i)) (sv_firewall s) w1
                      in (Reconciled True, s\<lparr>sv_firewall := f\<rparr>, w2))))))"

definition handleGuardRelease ::
  "'w env \<Rightarrow> 'w guardAPI \<Rightarrow> caller \<Rightarrow> gostring + gostring \<Rightarrow> 'w server \<Rightarrow> 'w \<Rightarrow> guard_reply \<times> 'w server \<times> 'w" where
  "handleGuardRelease en ga ca bdy s w =
     (case admin_gate en ca s of Some rep \<Rightarrow> (GuardFailed rep, s, w) | None \<Rightarrow>
     (case decodeAdmin bdy of Inl rep \<Rightarrow> (GuardFailed rep, s, w) | Inr token \<Rightarrow>
     (case verifyReservation ga (en_now en w 0) token of
        None \<Rightarrow> (GuardFailed (bad_request ''invalid reservation_id''), s, w)
      | Some (claim, expired) \<Rightarrow>
          if expired then (Reconciled False, s, w)
          else (let (claimed, w1) = claimReconcile ga (rc_Nonce claim) w
                in if \<not> claimed then (Reconciled False, s, w1)
                   else (let (f, w2) = ReleaseReservation (rc_R claim) (en_now en w1 1) (sv_firewall s) w1
                         in (Reconciled True, s\<lparr>sv_firewall := f\<rparr>, w2))))))"

end
