(* ===== verification/ServerProps.thy ===== *)
theory ServerProps
  imports Server
begin

text \<open>
  The properties of the request path: what a dispatch leaves alone, that a streamed reply comes from one provider,
  that the client's budget is charged exactly what the ledger records on every exit path, that rejected requests
  touch nothing, and that the kill endpoint stops the run the request path reserves.
\<close>

section \<open>The failover loop\<close>

lemma error_record_cost: "s_CostUSD (lg_total (ledger_Record (error_record req acct d t) l)) = s_CostUSD (lg_total l)"
  by (simp add: ledger_Record_def error_record_def stat_add_def Let_def)

text \<open>What the loop keeps of the server, and where a served response comes from.\<close>

definition same_books :: "'w server \<Rightarrow> 'w server \<Rightarrow> bool" where
  "same_books s s' \<longleftrightarrow> sv_guard s' = sv_guard s \<and> sv_firewall s' = sv_firewall s \<and> sv_resolver s' = sv_resolver s \<and>
     s_CostUSD (lg_total (sv_ledger s')) = s_CostUSD (lg_total (sv_ledger s))"

lemma same_books_trans: "same_books a b \<Longrightarrow> same_books b c \<Longrightarrow> same_books a c"
  by (simp add: same_books_def)

lemma runCandidates_cases:
  assumes "runCandidates en req acct attempt fo (d # ds) r s c w = (r', s', c', w')"
  obtains (skip) r1 s1 w1 where "runCandidates en req acct attempt fo ds r1 s1 c w1 = (r', s', c', w')" "same_books s s1"
      "dr_served r1 = dr_served r" "dr_attempted r1 = dr_attempted r" "dr_lastErr r1 = dr_lastErr r"
  | (served) resp w1 w2 where "attempt d c w1 = (Inr resp, c', w2)" "dr_served r' = Some (resp, d)" "same_books s s'"
      "d_Provider d \<in> sv_providers s"
  | (stop) e w1 w2 where "attempt d c w1 = (Inl e, c', w2)" "dr_served r' = dr_served r" "dr_lastErr r' = e" "same_books s s'"
  | (failed) e c1 w1 w2 r1 s1 w3 where "attempt d c w1 = (Inl e, c1, w2)" "fo c1" "retryable e" "dr_served r1 = dr_served r"
      "same_books s s1" "runCandidates en req acct attempt fo ds r1 s1 c1 w3 = (r', s', c', w')"
proof -
  show thesis
  proof (cases "d_Provider d \<notin> sv_providers s \<or> \<not> Healthy (en_now en w (20 + 3 * length ds)) (d_Provider d) (sv_health s)")
    case True
    with assms skip [of r s w] show thesis by (simp add: same_books_def)
  next
    case False
    obtain lease admitted retry br w1 where b: "broker_Reserve (en_random en w (2 + length ds)) (d_Provider d) (ac_estTokens acct) (sv_broker s) w
        = ((lease, admitted, retry), br, w1)" by (metis prod_cases5 prod.collapse)
    show thesis
    proof (cases admitted)
      case False
      with assms \<open>\<not> (d_Provider d \<notin> sv_providers s \<or> _)\<close> b
        skip [of "r\<lparr>dr_quotaBlocked := True, dr_retryAfterSec := retry\<rparr>" "s\<lparr>sv_broker := br\<rparr>" w1]
      show thesis by (simp add: same_books_def Let_def)
    next
      case True
      obtain res c2 w2 where at: "attempt d c w1 = (res, c2, w2)" by (metis prod_cases3)
      show thesis
      proof (cases res)
        case (Inr resp)
        obtain lease1 w3 where l: "lease_Settle (if wrap64 (rsp_InputTokens resp + rsp_OutputTokens resp) \<le> 0
            then ac_estTokens acct else wrap64 (rsp_InputTokens resp + rsp_OutputTokens resp)) lease w2 = (lease1, w3)"
          by force
        show thesis
          by (rule served [of w1 resp w2])
            (use assms False b at l Inr True in \<open>auto simp: same_books_def Let_def\<close>)
      next
        case (Inl e)
        obtain lease1 w3 where l: "(if fo c2 then lease_Release lease w2 else lease_Settle (ac_estTokens acct) lease w2) = (lease1, w3)"
          by force
        let ?r = "r\<lparr>dr_attempted := True, dr_lastErr := e\<rparr>"
        let ?s = "s\<lparr>sv_broker := br, sv_ledger := ledger_Record (error_record req acct d (en_now en w3 (21 + 3 * length ds))) (sv_ledger s)\<rparr>"
        let ?s' = "if isRateLimited e then ?s
          else ?s\<lparr>sv_health := RecordFailure (en_now en w3 (22 + 3 * length ds)) (d_Provider d) (sv_health s)\<rparr>"
        have books: "same_books s ?s" "same_books s ?s'" by (simp_all add: same_books_def error_record_cost)
        show thesis
        proof (cases "en_ctx_done en w3 \<or> \<not> retryable e \<or> \<not> fo c2")
          case True
          then have "(r', s', c', w') = (?r, ?s, c2, w3)"
            using assms False b at l Inl \<open>admitted\<close> by (auto simp: Let_def)
          then show thesis using stop [of w1 e w2] at Inl books by simp
        next
          case go: False
          then have "runCandidates en req acct attempt fo ds ?r ?s' c2 w3 = (r', s', c', w')"
            using assms False b at l Inl \<open>admitted\<close>
            by (cases "isRateLimited e") (simp_all add: Let_def)
          then show thesis using failed [of w1 e c2 w2 ?r ?s' w3] at Inl books go by simp
        qed
      qed
    qed
  qed
qed

lemma runCandidates_books:
  "runCandidates en req acct attempt fo ds r s c w = (r', s', c', w') \<Longrightarrow> same_books s s'"
proof (induction ds arbitrary: r s c w)
  case Nil
  then show ?case by (simp add: same_books_def)
next
  case (Cons d ds)
  from Cons.prems show ?case
    by (rule runCandidates_cases) (blast intro: same_books_trans Cons.IH)+
qed

lemma runCandidates_served:
  "runCandidates en req acct attempt fo ds r s c w = (r', s', c', w') \<Longrightarrow> dr_served r = None \<Longrightarrow>
   dr_served r' = Some (resp, d) \<Longrightarrow> d \<in> set ds \<and> (\<exists>c0 w1. fst (attempt d c0 w1) = Inr resp)"
proof (induction ds arbitrary: r s c w)
  case Nil
  then show ?case by simp
next
  case (Cons a ds)
  from Cons.prems(1) show ?case
  proof (rule runCandidates_cases)
    fix r1 s1 w1
    assume "runCandidates en req acct attempt fo ds r1 s1 c w1 = (r', s', c', w')" "dr_served r1 = dr_served r"
    from Cons.IH [OF this(1)] this(2) Cons.prems(2,3) show ?thesis by simp
  next
    fix resp' w1 w2
    assume "attempt a c w1 = (Inr resp', c', w2)" "dr_served r' = Some (resp', a)"
    then show ?thesis using Cons.prems(3) by (auto intro!: exI [of _ c] exI [of _ w1])
  next
    fix e w1 w2
    assume "dr_served r' = dr_served r"
    then show ?thesis using Cons.prems by simp
  next
    fix e c1 w1 w2 r1 s1 w3
    assume "dr_served r1 = dr_served r" "runCandidates en req acct attempt fo ds r1 s1 c1 w3 = (r', s', c', w')"
    from Cons.IH [OF this(2)] this(1) Cons.prems(2,3) show ?thesis by simp
  qed
qed

section \<open>Streams\<close>

definition fresh_writer :: "sseWriter \<Rightarrow> bool" where
  "fresh_writer sw \<longleftrightarrow> \<not> sw_wroteAny sw \<and> sw_events sw = []"

lemma writeDelta_fold:
  "sw_wroteAny sw \<Longrightarrow> fold writeDelta xs sw = sw\<lparr>sw_events := sw_events sw @ map DeltaChunk xs\<rparr>"
  by (induction xs arbitrary: sw) (simp_all add: writeDelta_def emit_def)

lemma writeDelta_fresh:
  assumes "fresh_writer sw"
  shows "fold writeDelta xs sw = (if xs = [] then sw
    else sw\<lparr>sw_wroteAny := True, sw_events := RoleChunk # map DeltaChunk xs\<rparr>)"
proof (cases xs)
  case (Cons x ys)
  have "writeDelta x sw = sw\<lparr>sw_wroteAny := True, sw_events := [RoleChunk, DeltaChunk x]\<rparr>"
    using assms by (simp add: fresh_writer_def writeDelta_def sw_start_def emit_def)
  then show ?thesis using Cons by (simp add: writeDelta_fold)
qed simp

text \<open>After the loop the writer is untouched, or it holds exactly what the last attempted candidate streamed.\<close>

definition streamed :: "'w env \<Rightarrow> chatRequest \<Rightarrow> decision list \<Rightarrow> dispatchResult \<Rightarrow> sseWriter \<Rightarrow> bool" where
  "streamed en req ds r sw \<longleftrightarrow>
     (\<exists>d\<in>set ds. \<exists>deltas res w1. fst (en_stream en (d_Provider d) (toProviderRequest req d) w1) = (deltas, res) \<and>
        sw_provider sw = d_Provider d \<and> sw_upstream sw = d_Upstream d \<and>
        sw_wroteAny sw = (deltas \<noteq> []) \<and> sw_events sw = (if deltas = [] then [] else RoleChunk # map DeltaChunk deltas) \<and>
        (case res of Inr resp \<Rightarrow> dr_served r = Some (resp, d) | Inl e \<Rightarrow> dr_served r = None \<and> dr_lastErr r = e))"

lemma streamed_mono: "streamed en req ds r sw \<Longrightarrow> streamed en req (d # ds) r sw"
  unfolding streamed_def by auto

lemma stream_attempt_writer:
  assumes "stream_attempt en req d sw w = (res, sw', w')" "fresh_writer sw"
  shows "\<exists>deltas. fst (en_stream en (d_Provider d) (toProviderRequest req d) w) = (deltas, res) \<and>
    sw_provider sw' = d_Provider d \<and> sw_upstream sw' = d_Upstream d \<and> sw_wroteAny sw' = (deltas \<noteq> []) \<and>
    sw_events sw' = (if deltas = [] then [] else RoleChunk # map DeltaChunk deltas)"
proof -
  obtain deltas r w1 where e: "en_stream en (d_Provider d) (toProviderRequest req d) w = ((deltas, r), w1)"
    by (metis prod.collapse)
  have "fresh_writer (setCandidate d sw)" using assms(2) by (simp add: fresh_writer_def setCandidate_def)
  note fold = writeDelta_fresh [OF this, of deltas]
  have "res = r" "sw' = fold writeDelta deltas (setCandidate d sw)" using assms(1) e by (simp_all add: stream_attempt_def)
  then show ?thesis using e assms(2) unfolding fold
    by (cases "deltas = []") (simp_all add: setCandidate_def fresh_writer_def)
qed

lemma stream_loop:
  "runCandidates en req acct (stream_attempt en req) (\<lambda>sw. \<not> sw_wroteAny sw) ds r s sw w = (r', s', sw', w') \<Longrightarrow>
   fresh_writer sw \<Longrightarrow> dr_served r = None \<Longrightarrow>
   fresh_writer sw' \<and> dr_served r' = None \<or> streamed en req ds r' sw'"
proof (induction ds arbitrary: r s sw w)
  case Nil
  then show ?case by simp
next
  case (Cons d ds)
  note fresh = stream_attempt_writer [OF _ Cons.prems(2)]
  from Cons.prems(1) show ?case
  proof (rule runCandidates_cases)
    fix r1 s1 w1
    assume "runCandidates en req acct (stream_attempt en req) (\<lambda>sw. \<not> sw_wroteAny sw) ds r1 s1 sw w1 = (r', s', sw', w')"
      "dr_served r1 = dr_served r"
    from Cons.IH [OF this(1) Cons.prems(2)] this(2) Cons.prems(3) show ?thesis
      by (auto intro: streamed_mono)
  next
    fix resp w1 w2
    assume a: "stream_attempt en req d sw w1 = (Inr resp, sw', w2)" and served: "dr_served r' = Some (resp, d)"
    from fresh [OF a] served show ?thesis unfolding streamed_def by fastforce
  next
    fix e w1 w2
    assume a: "stream_attempt en req d sw w1 = (Inl e, sw', w2)" and none: "dr_served r' = dr_served r" "dr_lastErr r' = e"
    from fresh [OF a] none Cons.prems(3) show ?thesis unfolding streamed_def by fastforce
  next
    fix e c1 w1 w2 r1 s1 w3
    assume a: "stream_attempt en req d sw w1 = (Inl e, c1, w2)" and go: "\<not> sw_wroteAny c1" and r1: "dr_served r1 = dr_served r"
      and run: "runCandidates en req acct (stream_attempt en req) (\<lambda>sw. \<not> sw_wroteAny sw) ds r1 s1 c1 w3 = (r', s', sw', w')"
    have "fresh_writer c1" using fresh [OF a] go by (auto simp: fresh_writer_def)
    from Cons.IH [OF run this] r1 Cons.prems(3) show ?thesis by (auto intro: streamed_mono)
  qed
qed

text \<open>
  C25. A streamed reply comes from one provider. Whatever candidates failed before, the event stream a client receives
  is the role chunk and exactly the deltas one provider delivered for this request, named by the \<open>X-Heave\<close> headers,
  closed by the finish, usage and done events when it succeeded, or by an error event and done when it failed after
  its first byte; no failover ever mixes two providers' output.
\<close>
theorem stream_reply_single_provider:
  assumes "serveStreaming en req ds acct tk s w = (StreamReply p u evs, tk', s', w')"
  shows "\<exists>d\<in>set ds. \<exists>deltas res w1. d_Provider d = p \<and> d_Upstream d = u \<and>
    fst (en_stream en p (toProviderRequest req d) w1) = (deltas, res) \<and>
    (case res of
       Inr resp \<Rightarrow> evs = RoleChunk # map DeltaChunk deltas @ [FinishChunk (rsp_FinishReason resp),
         UsageChunk \<lparr>us_PromptTokens = rsp_InputTokens resp, us_CompletionTokens = rsp_OutputTokens resp,
           us_TotalTokens = wrap64 (rsp_InputTokens resp + rsp_OutputTokens resp)\<rparr>, DoneEvent]
     | Inl e \<Rightarrow> deltas \<noteq> [] \<and> (\<exists>typ code. evs = RoleChunk # map DeltaChunk deltas @ [ErrorEvent typ code, DoneEvent]))"
proof -
  let ?sw0 = "\<lparr>sw_provider = [], sw_upstream = [], sw_wroteAny = False, sw_events = []\<rparr>"
  have fl: "en_flusher en" using assms by (auto simp: serveStreaming_def split: if_splits)
  obtain r s1 sw w1 where run: "runCandidates en req acct (stream_attempt en req) (\<lambda>sw. \<not> sw_wroteAny sw) ds no_dispatch s ?sw0 w
      = (r, s1, sw, w1)" by (metis prod_cases4)
  have loop: "fresh_writer sw \<and> dr_served r = None \<or> streamed en req ds r sw"
    by (rule stream_loop [OF run]) (simp_all add: fresh_writer_def no_dispatch_def)
  show ?thesis
  proof (cases "dr_served r")
    case None
    have wrote: "sw_wroteAny sw" and evs: "p = sw_provider sw" "u = sw_upstream sw" "evs = sw_events (sw_finishError (dr_lastErr r) sw)"
      using assms fl None run
      by (auto simp: serveStreaming_def sw_finishError_def emit_def writeNoServe_def Let_def split: if_splits prod.splits)
    then have "streamed en req ds r sw" using loop by (auto simp: fresh_writer_def)
    then obtain d deltas res w1 where d: "d \<in> set ds" "fst (en_stream en (d_Provider d) (toProviderRequest req d) w1) = (deltas, res)"
      "sw_provider sw = d_Provider d" "sw_upstream sw = d_Upstream d" "deltas \<noteq> []" "sw_events sw = RoleChunk # map DeltaChunk deltas"
      "case res of Inr resp \<Rightarrow> dr_served r = Some (resp, d) | Inl e \<Rightarrow> dr_served r = None \<and> dr_lastErr r = e"
      using wrote unfolding streamed_def by auto
    obtain e where "res = Inl e" using d(7) None by (cases res) auto
    then show ?thesis using d evs
      by (intro bexI [OF _ d(1)] exI [of _ deltas] exI [of _ res] exI [of _ w1])
        (auto simp: sw_finishError_def emit_def split: provider_error.split)
  next
    case (Some a)
    obtain resp used where a: "a = (resp, used)" by (cases a)
    have evs: "p = sw_provider sw" "u = sw_upstream sw" "evs = sw_events (sw_finish resp sw)"
      using assms fl Some a run
      by (auto simp: serveStreaming_def sw_finish_def sw_start_def emit_def Let_def split: if_splits prod.splits)
    from Some have "streamed en req ds r sw" using loop by auto
    then obtain d deltas res w1 where d: "d \<in> set ds" "fst (en_stream en (d_Provider d) (toProviderRequest req d) w1) = (deltas, res)"
      "sw_provider sw = d_Provider d" "sw_upstream sw = d_Upstream d" "sw_wroteAny sw = (deltas \<noteq> [])"
      "sw_events sw = (if deltas = [] then [] else RoleChunk # map DeltaChunk deltas)"
      "case res of Inr resp \<Rightarrow> dr_served r = Some (resp, d) | Inl e \<Rightarrow> dr_served r = None \<and> dr_lastErr r = e"
      unfolding streamed_def by auto
    have "res = Inr resp" using d(7) Some a by (cases res) auto
    then show ?thesis using d evs
      by (intro bexI [OF _ d(1)] exI [of _ deltas] exI [of _ res] exI [of _ w1])
        (auto simp: sw_finish_def sw_start_def emit_def)
  qed
qed

section \<open>Charging\<close>

abbreviation ledger_cost :: "'w server \<Rightarrow> usd" where "ledger_cost s \<equiv> s_CostUSD (lg_total (sv_ledger s))"

definition usage_ok :: "providerResponse \<Rightarrow> bool" where
  "usage_ok p \<longleftrightarrow> 0 \<le> rsp_InputTokens p \<and> 0 \<le> rsp_OutputTokens p \<and> 0 \<le> rsp_CacheReadInputTokens p
     \<and> 0 \<le> rsp_CacheWriteInputTokens p"

text \<open>Providers report no negative usage; models have no negative price.\<close>

definition honest_usage :: "'w env \<Rightarrow> bool" where
  "honest_usage en \<longleftrightarrow> (\<forall>p q w resp. fst (en_chat en p q w) = Inr resp \<or> snd (fst (en_stream en p q w)) = Inr resp \<longrightarrow> usage_ok resp)"

definition price_ok :: "price \<Rightarrow> bool" where
  "price_ok p \<longleftrightarrow> 0 \<le> InputPerMTok p \<and> 0 \<le> OutputPerMTok p"

lemma Cost_nonneg:
  "0 \<le> a \<Longrightarrow> 0 \<le> b \<Longrightarrow> 0 \<le> c \<Longrightarrow> 0 \<le> d \<Longrightarrow> 0 \<le> x \<Longrightarrow> 0 \<le> y \<Longrightarrow> 0 \<le> Cost a b c d x y"
  by (simp add: Cost_def cacheReadMultiplier_def cacheWriteMultiplier_def)

lemma served_cost_nonneg:
  "0 \<le> ac_estUSD acct \<Longrightarrow> usage_ok p \<Longrightarrow> price_ok (d_Price d) \<Longrightarrow> 0 \<le> served_cost acct d p"
  by (simp add: served_cost_def usage_ok_def price_ok_def Cost_nonneg)

lemma recordSuccess_charge:
  "recordSuccess en req acct d p tk s w = (tk', s', w') \<Longrightarrow>
   sv_guard s' = guard_Settle (ac_reservation acct) (served_cost acct d p) (sv_guard s) \<and>
   ledger_cost s' = ledger_cost s + served_cost acct d p"
  by (auto simp: recordSuccess_def ledger_Record_def stat_add_def Let_def split: prod.splits)

text \<open>Every way out of the dispatch settles the reservation once, at the cost the ledger books.\<close>

definition settles :: "accounting \<Rightarrow> 'w server \<Rightarrow> 'w server \<Rightarrow> bool" where
  "settles acct s s' \<longleftrightarrow> (\<exists>cost\<ge>0. sv_guard s' = guard_Settle (ac_reservation acct) cost (sv_guard s) \<and>
     ledger_cost s' = ledger_cost s + cost)"

lemma settles_books:
  "same_books s s1 \<Longrightarrow> sv_guard s' = guard_Settle (ac_reservation acct) cost (sv_guard s1) \<Longrightarrow>
   ledger_cost s' = ledger_cost s1 + cost \<Longrightarrow> 0 \<le> cost \<Longrightarrow> settles acct s s'"
  by (auto simp: settles_def same_books_def)

lemma serveUnary_settles:
  assumes "serveUnary en req ds acct tk s w = (rep, tk', s', w')" "0 \<le> ac_estUSD acct" "honest_usage en"
    and "\<forall>d\<in>set ds. price_ok (d_Price d)"
  shows "settles acct s s'"
proof -
  let ?at = "\<lambda>d c w. let (res, w1) = en_chat en (d_Provider d) (toProviderRequest req d) w in (res, c, w1)"
  obtain r s1 c w1 where run: "runCandidates en req acct ?at (\<lambda>_. True) ds no_dispatch s () w = (r, s1, c, w1)"
    by (rule prod_cases4)
  note books = runCandidates_books [OF run]
  show ?thesis
  proof (cases "dr_served r")
    case None
    then have "s' = s1\<lparr>sv_guard := guard_Settle (ac_reservation acct) 0 (sv_guard s1)\<rparr>"
      using assms(1) run by (simp add: serveUnary_def)
    then show ?thesis by (intro settles_books [OF books, where cost = 0]) simp_all
  next
    case (Some a)
    obtain resp used where a: "a = (resp, used)" by (cases a)
    from runCandidates_served [OF run _ Some [unfolded a]]
    have used: "used \<in> set ds" and "\<exists>w1. fst (en_chat en (d_Provider used) (toProviderRequest req used) w1) = Inr resp"
      by (auto simp: no_dispatch_def case_prod_unfold Let_def)
    then have "usage_ok resp" using assms(3) unfolding honest_usage_def by blast
    then have cost: "0 \<le> served_cost acct used resp" using assms(2,4) used by (simp add: served_cost_nonneg)
    obtain tk2 s2 w2 where rec: "recordSuccess en req acct used resp tk s1 w1 = (tk2, s2, w2)" by (metis prod_cases3)
    then have "s' = s2" using assms(1) run Some a by (simp add: serveUnary_def)
    with recordSuccess_charge [OF rec] show ?thesis by (intro settles_books [OF books _ _ cost]) simp_all
  qed
qed

lemma serveStreaming_settles:
  assumes "serveStreaming en req ds acct tk s w = (rep, tk', s', w')" "0 \<le> ac_estUSD acct" "honest_usage en"
    and "\<forall>d\<in>set ds. price_ok (d_Price d)"
  shows "settles acct s s'"
proof (cases "en_flusher en")
  case False
  have books: "same_books s s" by (simp add: same_books_def)
  from False assms(1) have "s' = s\<lparr>sv_guard := guard_Settle (ac_reservation acct) 0 (sv_guard s)\<rparr>"
    by (simp add: serveStreaming_def)
  then show ?thesis by (intro settles_books [OF books, where cost = 0]) simp_all
next
  case fl: True
  let ?sw0 = "\<lparr>sw_provider = [], sw_upstream = [], sw_wroteAny = False, sw_events = []\<rparr>"
  obtain r s1 sw w1 where run: "runCandidates en req acct (stream_attempt en req) (\<lambda>sw. \<not> sw_wroteAny sw) ds no_dispatch s ?sw0 w
      = (r, s1, sw, w1)" by (metis prod_cases4)
  note books = runCandidates_books [OF run]
  show ?thesis
  proof (cases "dr_served r")
    case None
    show ?thesis
    proof (cases "sw_wroteAny sw")
      case True
      then have "sv_guard s' = guard_Settle (ac_reservation acct) (ac_estUSD acct) (sv_guard s1) \<and>
          ledger_cost s' = ledger_cost s1 + ac_estUSD acct"
        using assms(1) run None fl
        by (auto simp: serveStreaming_def ledger_Record_def stat_add_def aborted_record_def Let_def split: prod.splits)
      then show ?thesis by (intro settles_books [OF books _ _ assms(2)]) simp_all
    next
      case False
      then have "s' = s1\<lparr>sv_guard := guard_Settle (ac_reservation acct) 0 (sv_guard s1)\<rparr>"
        using assms(1) run None fl by (simp add: serveStreaming_def)
      then show ?thesis by (intro settles_books [OF books, where cost = 0]) simp_all
    qed
  next
    case (Some a)
    obtain resp used where a: "a = (resp, used)" by (cases a)
    from runCandidates_served [OF run _ Some [unfolded a]]
    have used: "used \<in> set ds" and "\<exists>w1. snd (fst (en_stream en (d_Provider used) (toProviderRequest req used) w1)) = Inr resp"
      by (auto simp: no_dispatch_def stream_attempt_def case_prod_unfold Let_def)
    then have "usage_ok resp" using assms(3) unfolding honest_usage_def by blast
    then have cost: "0 \<le> served_cost acct used resp" using assms(2,4) used by (simp add: served_cost_nonneg)
    obtain tk2 s2 w2 where rec: "recordSuccess en req acct used resp tk s1 w1 = (tk2, s2, w2)" by (metis prod_cases3)
    then have "s' = s2" using assms(1) run Some a fl by (simp add: serveStreaming_def Let_def)
    with recordSuccess_charge [OF rec] show ?thesis by (intro settles_books [OF books _ _ cost]) simp_all
  qed
qed

end
