(* ===== verification/ServerHandlers.thy ===== *)
theory ServerHandlers
  imports ServerProps ControlsLimits
begin

text \<open>
  Properties of whole handlers: the client's budget is charged exactly what the ledger books, an unauthenticated
  request changes nothing, and the kill endpoint stops the run that the request path reserves.
\<close>

section \<open>The budget and the ledger\<close>

definition spent_of :: "guard \<Rightarrow> gostring \<Rightarrow> usd" where
  "spent_of g k = (case mget (g_byHash g) k of None \<Rightarrow> 0 | Some st \<Rightarrow> cs_spentUSD st)"

lemma maxEstimate_nonneg: "0 \<le> fst (maxEstimate req ds)"
proof -
  let ?f = "\<lambda>(usd, tokens) d. let (u, t) = estimate (toProviderRequest req d) d
      in (if u > usd then u else usd, if t > tokens then t else tokens)"
  have "0 \<le> fst (foldl ?f p ds)" if "0 \<le> fst p" for p :: "usd \<times> int"
    using that by (induction ds arbitrary: p) (auto simp: case_prod_unfold Let_def)
  from this [of "(0, 0)"] show ?thesis by (simp add: maxEstimate_def)
qed

lemma reserve_denied_spent:
  assumes "guard_Reserve now (Some c) est g = (Inl e, g')" "mget (g_byHash g) (ToLower (cl_KeySHA256 c)) = Some st"
    and "cs_monthKey st = month_key now"
  shows "spent_of g' k = spent_of g k"
  using assms by (auto simp: guard_Reserve_def rollMonthLocked_def spent_of_def Let_def split: if_splits)

lemma reserve_settle_spent:
  assumes "guard_Reserve now (Some c) est g = (Inr h, g')" "mget (g_byHash g) (ToLower (cl_KeySHA256 c)) = Some st"
    and "cs_monthKey st = month_key now" "0 \<le> cs_spentUSD st + cost"
  shows "spent_of (guard_Settle h cost g') k = spent_of g k + (if k = ToLower (cl_KeySHA256 c) then cost else 0)"
proof -
  let ?key = "ToLower (cl_KeySHA256 c)"
  have "h = Some \<lparr>bh_st = ?key, bh_amount = est\<rparr>"
    "g' = g\<lparr>g_byHash := mput ?key (st\<lparr>cs_spentUSD := cs_spentUSD st + est\<rparr>) (g_byHash g)\<rparr>"
    using assms(1-3) by (auto simp: guard_Reserve_def rollMonthLocked_def Let_def split: if_splits)
  then show ?thesis using assms(2,4) by (simp add: guard_Settle_def spent_of_def settle_spent_def Let_def)
qed

lemma Candidates_price:
  assumes "Candidates al rt = Inr ds" "\<forall>a mc. mget (rt_models rt) a = Some mc \<longrightarrow> price_ok (mc_Price mc)" "d \<in> set ds"
  shows "price_ok (d_Price d)"
proof -
  have dec: "price_ok (d_Price (decisionFor mc))" if "mget (rt_models rt) a = Some mc" for a mc
    using assms(2) that by (simp add: decisionFor_def)
  obtain a mc where mc: "mget (rt_models rt) a = Some mc" "ds = decisionFor mc # chase_fallbacks (rt_models rt) (mc_Fallbacks mc) [mc_Alias mc]"
    using assms(1) by (auto simp: Candidates_def Let_def split: option.splits)
  consider "d = decisionFor mc" | "d \<in> set (chase_fallbacks (rt_models rt) (mc_Fallbacks mc) [mc_Alias mc])"
    using assms(3) mc(2) by auto
  then show ?thesis
  proof cases
    case 2
    then show ?thesis using chase_decisions [OF 2] dec by auto
  qed (simp add: dec [OF mc(1)])
qed

lemma fw_admit_books: "s\<lparr>sv_firewall := f\<rparr> = s' \<Longrightarrow> sv_guard s' = sv_guard s \<and> ledger_cost s' = ledger_cost s"
  by auto

lemma serve_admitted_settles:
  assumes "serve_admitted en req ds acct tk s w = (rep, s', w')" "0 \<le> ac_estUSD acct" "honest_usage en"
    and "\<forall>d\<in>set ds. price_ok (d_Price d)"
  shows "settles acct s s'"
proof -
  obtain rep1 tk1 s1 w1 where serve: "(if cr_Stream req then serveStreaming en req ds acct tk s w
      else serveUnary en req ds acct tk s w) = (rep1, tk1, s1, w1)" by (rule prod_cases4)
  then have "settles acct s s1"
    using serveStreaming_settles [OF _ assms(2-4)] serveUnary_settles [OF _ assms(2-4)] by (cases "cr_Stream req") auto
  moreover have "sv_guard s' = sv_guard s1 \<and> sv_ledger s' = sv_ledger s1"
    using assms(1) unfolding serve_admitted_def serve by (auto split: prod.splits)
  ultimately show ?thesis by (simp add: settles_def)
qed

lemma release_budget_settles:
  "0 \<le> (0::usd) \<and> sv_guard (release_budget r s) = guard_Settle r 0 (sv_guard s) \<and> ledger_cost (release_budget r s) = ledger_cost s + 0"
  by (simp add: release_budget_def)

lemma serve_reserved_settles:
  assumes "serve_reserved en rid start runID client req ds estU estT r s w = Some (rep, s', w')" "0 \<le> estU" "honest_usage en"
    and "\<forall>d\<in>set ds. price_ok (d_Price d)"
  shows "\<exists>cost\<ge>0. sv_guard s' = guard_Settle r cost (sv_guard s) \<and> ledger_cost s' = ledger_cost s + cost"
proof -
  have early: ?thesis if "s' = release_budget r (s\<lparr>sv_firewall := f\<rparr>)" for f
    unfolding that by (intro exI [of _ 0]) (simp add: release_budget_def)
  show ?thesis
  proof (cases "runID \<noteq> [] \<and> \<not> validRunID runID")
    case True
    then show ?thesis using assms(1) early [of "sv_firewall s"] by (simp add: serve_reserved_def)
  next
    case valid: False
    then obtain scopes killedBy governed rerr where chain: "resolveChain (clientKeySHA client) runID s = Some (scopes, killedBy, governed, rerr)"
      using assms(1) by (auto simp: serve_reserved_def split: option.splits if_splits)
    show ?thesis
    proof (cases "rerr \<noteq> None \<or> governed \<and> killedBy \<noteq> []")
      case True
      then have "s' = release_budget r s" using assms(1) valid chain by (auto simp: serve_reserved_def split: if_splits)
      then show ?thesis using early [of "sv_firewall s"] by simp
    next
      case live: False
      obtain fr f w1 where admit: "fw_admit en client runID scopes governed (en_sha256hex en (promptText req)) estU estT s w = (fr, f, w1)"
        by (rule prod_cases3)
      show ?thesis
      proof (cases fr)
        case (Inl e)
        then have "s' = release_budget r (s\<lparr>sv_firewall := f\<rparr>)"
          using assms(1) valid chain live admit by (auto simp: serve_reserved_def)
        then show ?thesis by (rule early)
      next
        case (Inr tk)
        let ?acct = "\<lparr>ac_client = client, ac_reservation = r, ac_requestID = rid, ac_runID = runID, ac_start = start,
          ac_primaryAlias = d_Alias (hd ds), ac_estUSD = estU, ac_estTokens = estT\<rparr>"
        have "serve_admitted en req ds ?acct tk (s\<lparr>sv_firewall := f\<rparr>) w1 = (rep, s', w')"
          using assms(1) valid chain live admit Inr by (auto simp: serve_reserved_def)
        from serve_admitted_settles [OF this _ assms(3,4)] assms(2) show ?thesis by (auto simp: settles_def)
      qed
    qed
  qed
qed

text \<open>The ways out of \<open>admit_and_serve\<close>, by what they do to the guard and the ledger.\<close>

lemma admit_and_serve_guard:
  assumes "admit_and_serve en rid start hdr client req s w = Some (rep, s', w')" "honest_usage en"
    and "\<forall>a mc. mget (rt_models (sv_router s)) a = Some mc \<longrightarrow> price_ok (mc_Price mc)"
  obtains (same) "sv_guard s' = sv_guard s" "sv_ledger s' = sv_ledger s"
  | (denied) est e where "guard_Reserve (en_now en w 2) client est (sv_guard s) = (Inl e, sv_guard s')" "sv_ledger s' = sv_ledger s"
  | (settled) est r g cost where "guard_Reserve (en_now en w 2) client est (sv_guard s) = (Inr r, g)" "0 \<le> cost"
      "sv_guard s' = guard_Settle r cost g" "ledger_cost s' = ledger_cost s + cost"
proof (cases "Candidates (cr_Model req) (sv_router s)")
  case (Inl al)
  with assms(1) same show thesis by (simp add: admit_and_serve_def)
next
  case (Inr ds)
  have prices: "\<forall>d\<in>set ds. price_ok (d_Price d)" using Candidates_price [OF Inr assms(3)] by blast
  obtain estU estT where est: "maxEstimate req ds = (estU, estT)" by force
  have pos: "0 \<le> estU" using maxEstimate_nonneg [of req ds] est by simp
  obtain res g where reserve: "guard_Reserve (en_now en w 2) client estU (sv_guard s) = (res, g)" by force
  show thesis
  proof (cases res)
    case (Inl e)
    with assms(1) Inr est reserve have "s' = s\<lparr>sv_guard := g\<rparr>" by (simp add: admit_and_serve_def)
    with denied [of estU e] reserve Inl show thesis by simp
  next
    case r: (Inr r)
    have "serve_reserved en rid start (TrimSpace hdr) client req ds estU estT r (s\<lparr>sv_guard := g\<rparr>) w = Some (rep, s', w')"
      using assms(1) Inr est reserve r by (simp add: admit_and_serve_def)
    from serve_reserved_settles [OF this pos assms(2) prices] settled [OF reserve [unfolded r]] show thesis by auto
  qed
qed

lemma Admit_Authenticate: "fst (Admit sha now bearer g) = Inr c \<Longrightarrow> Authenticate sha bearer g = Inr c"
  by (auto simp: Admit_def Authenticate_def Let_def split: option.splits if_splits)

lemma Admit_money:
  "map_option (\<lambda>st. (cs_spentUSD st, cs_monthKey st)) (mget (g_byHash (snd (Admit sha now bearer g))) k) =
   map_option (\<lambda>st. (cs_spentUSD st, cs_monthKey st)) (mget (g_byHash g) k)"
  by (auto simp: Admit_def guard_lookup_def Let_def split: option.splits)

text \<open>An authenticated request charges its client what the ledger books.\<close>

lemma admit_and_serve_charge:
  assumes "admit_and_serve en rid start hdr (Some c) req s w = Some (rep, s', w')" "honest_usage en"
    and "\<forall>a mc. mget (rt_models (sv_router s)) a = Some mc \<longrightarrow> price_ok (mc_Price mc)"
    and "mget (g_byHash (sv_guard s)) (ToLower (cl_KeySHA256 c)) = Some st"
    and "cs_monthKey st = month_key (en_now en w 2)" "0 \<le> cs_spentUSD st"
  shows "spent_of (sv_guard s') k = spent_of (sv_guard s) k +
    (if k = ToLower (cl_KeySHA256 c) then ledger_cost s' - ledger_cost s else 0)"
  using assms(1-3)
proof (rule admit_and_serve_guard)
  assume "sv_guard s' = sv_guard s" "sv_ledger s' = sv_ledger s"
  then show ?thesis by simp
next
  fix est e
  assume "guard_Reserve (en_now en w 2) (Some c) est (sv_guard s) = (Inl e, sv_guard s')" "sv_ledger s' = sv_ledger s"
  then show ?thesis using reserve_denied_spent [of "en_now en w 2" c est "sv_guard s" e "sv_guard s'" st k] assms(4,5) by simp
next
  fix est r g' cost
  assume "guard_Reserve (en_now en w 2) (Some c) est (sv_guard s) = (Inr r, g')" "0 \<le> cost"
    "sv_guard s' = guard_Settle r cost g'" "ledger_cost s' = ledger_cost s + cost"
  then show ?thesis
    using reserve_settle_spent [of "en_now en w 2" c est "sv_guard s" r g' st cost k] assms(4-6) by simp
qed

text \<open>
  C23. The budget is charged exactly what the ledger books. However a chat request of an authenticated client ends -
  rejected before or after the reservation, refused by policy or firewall, failed at every provider, served, or
  aborted in mid-stream - the client's spend of the month grows by exactly the cost the ledger recorded for the
  request (zero when nothing was billed), no hold is left behind, and no other client's spend changes.
\<close>
theorem charge_equals_ledger:
  assumes "handleChatCompletions en authz hdr bdy s w = Some (rep, s', w')"
    and "Authenticate (en_sha256hex en) (bearerToken authz) (sv_guard s) = Inr (Some c)"
    and "mget (g_byHash (sv_guard s)) (ToLower (cl_KeySHA256 c)) = Some st"
    and "cs_monthKey st = month_key (en_now en w 2)" "0 \<le> cs_spentUSD st" "honest_usage en"
    and "\<forall>a mc. mget (rt_models (sv_router s)) a = Some mc \<longrightarrow> price_ok (mc_Price mc)"
  shows "spent_of (sv_guard s') k = spent_of (sv_guard s) k +
    (if k = ToLower (cl_KeySHA256 c) then ledger_cost s' - ledger_cost s else 0)"
proof -
  let ?key = "ToLower (cl_KeySHA256 c)"
  obtain res g where admit: "Admit (en_sha256hex en) (en_now en w 1) (bearerToken authz) (sv_guard s) = (res, g)" by force
  note money = Admit_money [of "en_sha256hex en" "en_now en w 1" "bearerToken authz" "sv_guard s", unfolded admit snd_conv]
  have spent: "spent_of g k = spent_of (sv_guard s) k" for k
    using money [of k] by (auto simp: spent_of_def split: option.splits)
  obtain st1 where st1: "mget (g_byHash g) ?key = Some st1" "cs_spentUSD st1 = cs_spentUSD st" "cs_monthKey st1 = cs_monthKey st"
    using money [of ?key] assms(3) by auto
  show ?thesis
  proof (cases res)
    case (Inl e)
    then have "s' = s\<lparr>sv_guard := g\<rparr>" using assms(1) admit by (simp add: handleChatCompletions_def)
    then show ?thesis using spent by simp
  next
    case (Inr client)
    then have client: "client = Some c"
      using Admit_Authenticate [of "en_sha256hex en" "en_now en w 1" "bearerToken authz" "sv_guard s" client] admit assms(2)
      by simp
    let ?s1 = "s\<lparr>sv_guard := g\<rparr>"
    consider "s' = ?s1" | req where "admit_and_serve en (en_random en w 0) (en_now en w 0) hdr (Some c) req ?s1 w = Some (rep, s', w')"
      using assms(1) admit Inr client
      by (auto simp: handleChatCompletions_def Let_def split: body.splits if_splits option.splits)
    then show ?thesis
    proof cases
      case 1
      then show ?thesis using spent by simp
    next
      case (2 req)
      then show ?thesis
        using admit_and_serve_charge [OF 2 assms(6), of st1 k] assms(4,5,7) st1 spent by simp
    qed
  qed
qed

text \<open>A server of one model whose provider reports a million input tokens at a dollar a million.\<close>

definition ex_model :: modelConfig where
  "ex_model = \<lparr>mc_Alias = ''m'', mc_Provider = ''p'', mc_Upstream = ''u'', mc_Price = \<lparr>InputPerMTok = 1, OutputPerMTok = 1\<rparr>,
     mc_MaxOutputTokens = 1000000, mc_AcceptsSampling = True, mc_Fallbacks = []\<rparr>"

definition ex_resp :: providerResponse where
  "ex_resp = \<lparr>rsp_Content = ''hi'', rsp_InputTokens = 1000000, rsp_OutputTokens = 0, rsp_CacheReadInputTokens = 0,
     rsp_CacheWriteInputTokens = 0, rsp_FinishReason = ''stop''\<rparr>"

definition ex_env :: "unit env" where
  "ex_env = \<lparr>en_chat = \<lambda>_ _ w. (Inr ex_resp, w), en_stream = \<lambda>_ _ w. (([''hi''], Inr ex_resp), w), en_ctx_done = \<lambda>_. False,
     en_now = \<lambda>_ _. ex_jan, en_random = \<lambda>_ _. ''0a'', en_sha256hex = \<lambda>_. ''ab'', en_flusher = True\<rparr>"

definition ex_req :: chatRequest where
  "ex_req = \<lparr>cr_Model = ''m'', cr_Messages = [\<lparr>cm_Role = ''user'', cm_Text = ''hi'', cm_HasImage = False\<rparr>], cr_MaxTokens = 0,
     cr_Temperature = None, cr_TopP = None, cr_N = None, cr_Stream = False, cr_User = [], cr_Tools = [], cr_Functions = [],
     cr_ResponseFormat = []\<rparr>"

definition ex_state :: clientState where
  "ex_state = \<lparr>cs_cfg = ex_client\<lparr>cl_KeySHA256 := ''ab''\<rparr>, cs_bucket = None, cs_monthKey = ''2026-01'', cs_spentUSD = 2\<rparr>"

definition ex_server :: "unit server" where
  "ex_server = server_New (router_New [ex_model] ''m'') {''p''} ledger_New
     (Some \<lparr>g_authEnabled = True, g_byHash = [(''ab'', ex_state)]\<rparr>) None None None None None"

lemma ex_auth:
  "Authenticate (en_sha256hex ex_env) (bearerToken ''Bearer t'') (sv_guard ex_server) = Inr (Some (ex_client\<lparr>cl_KeySHA256 := ''ab''\<rparr>))"
proof -
  have "bearerToken ''Bearer t'' = ''t''" by code_simp
  then show ?thesis
    by (simp add: Authenticate_def guard_lookup_def ex_server_def server_New_def ex_env_def ex_state_def gomap_eval)
qed

lemma ex_resolver: "sv_resolver s = None \<Longrightarrow> handleChatCompletions en authz hdr bdy s w \<noteq> None"
  by (auto simp: handleChatCompletions_def admit_and_serve_def serve_reserved_def resolveChain_def Let_def
      simp del: not_None_eq split: prod.splits sum.splits body.splits option.splits)

theorem charge_equals_ledger_witness:
  "\<exists>rep s' w'. handleChatCompletions ex_env ''Bearer t'' [] (Decoded ex_req) ex_server () = Some (rep, s', w') \<and>
     spent_of (sv_guard s') ''ab'' = 2 + (ledger_cost s' - ledger_cost ex_server)"
proof -
  have low: "ToLower ''ab'' = ''ab''" by code_simp
  have r: "sv_resolver ex_server = None" by (simp add: ex_server_def server_New_def)
  obtain rep s' w' where h: "handleChatCompletions ex_env ''Bearer t'' [] (Decoded ex_req) ex_server () = Some (rep, s', w')"
    using ex_resolver [OF r, of ex_env "''Bearer t''" "[]" "Decoded ex_req" "()"] by auto
  have st: "mget (g_byHash (sv_guard ex_server)) ''ab'' = Some ex_state"
    by (simp add: ex_server_def server_New_def gomap_eval)
  have honest: "honest_usage ex_env" by (simp add: honest_usage_def ex_env_def usage_ok_def ex_resp_def)
  have price: "\<forall>a mc. mget (rt_models (sv_router ex_server)) a = Some mc \<longrightarrow> price_ok (mc_Price mc)"
    by (simp add: ex_server_def server_New_def router_New_def ex_model_def price_ok_def gomap_eval)
  have now: "en_now ex_env () 2 = ex_jan" by (simp add: ex_env_def)
  have "spent_of (sv_guard s') ''ab'' = spent_of (sv_guard ex_server) ''ab'' + (ledger_cost s' - ledger_cost ex_server)"
    using charge_equals_ledger [OF h ex_auth _ _ _ honest price, of ex_state "''ab''"] st
    by (simp add: low now ex_month_key) (simp add: ex_state_def)
  moreover have "spent_of (sv_guard ex_server) ''ab'' = 2" using st by (simp add: spent_of_def ex_state_def)
  ultimately show ?thesis using h by auto
qed

theorem stream_reply_single_provider_witness:
  "\<exists>evs tk' s' w'. serveStreaming ex_env ex_req [decisionFor ex_model]
       \<lparr>ac_client = None, ac_reservation = None, ac_requestID = [], ac_runID = [], ac_start = 0, ac_primaryAlias = ''m'',
        ac_estUSD = 0, ac_estTokens = 0\<rparr> zero_ticket ex_server () = (StreamReply ''p'' ''u'' evs, tk', s', w') \<and>
     (\<exists>deltas more. evs = RoleChunk # map DeltaChunk deltas @ more)"
proof -
  let ?acct = "\<lparr>ac_client = None, ac_reservation = None, ac_requestID = [], ac_runID = [], ac_start = 0, ac_primaryAlias = ''m'',
    ac_estUSD = 0, ac_estTokens = 0\<rparr>"
  let ?serve = "serveStreaming ex_env ex_req [decisionFor ex_model] ?acct zero_ticket ex_server ()"
  have s: "sv_providers ex_server = {''p''}" "Healthy t q (sv_health ex_server)" "sv_broker ex_server = Some (broker_New None [])" for t q
    by (simp_all add: ex_server_def server_New_def health_New_def Healthy_def)
  have d: "d_Provider (decisionFor ex_model) = ''p''" "d_Upstream (decisionFor ex_model) = ''u''"
    by (simp_all add: decisionFor_def ex_model_def)
  have e: "en_flusher ex_env" "en_stream ex_env q r w = (([''hi''], Inr ex_resp), w)" for q r w by (simp_all add: ex_env_def)
  have "fst ?serve = StreamReply ''p'' ''u'' [RoleChunk, DeltaChunk ''hi'', FinishChunk ''stop'',
      UsageChunk \<lparr>us_PromptTokens = 1000000, us_CompletionTokens = 0, us_TotalTokens = 1000000\<rparr>, DoneEvent]"
    by (simp add: serveStreaming_def s d e broker_Reserve_def broker_New_def stream_attempt_def setCandidate_def writeDelta_def
        sw_start_def emit_def sw_finish_def no_dispatch_def case_prod_unfold Let_def)
      (simp add: ex_resp_def wrap64_def)
  then obtain evs tk' s' w' where serve: "?serve = (StreamReply ''p'' ''u'' evs, tk', s', w')" by (metis prod.collapse)
  have "\<exists>deltas more. evs = RoleChunk # map DeltaChunk deltas @ more"
    using stream_reply_single_provider [OF serve] by (auto split: sum.splits) (metis old.sum.exhaust)
  with serve show ?thesis by blast
qed

text \<open>
  The token estimate of a request that asks for the largest integer of output tokens wraps around, and the largest
  of a negative estimate and zero is zero: such a request reserves no tokens.
\<close>

lemma token_estimate_wraps:
  "snd (maxEstimate (ex_req\<lparr>cr_MaxTokens := max_int64, cr_Messages := [\<lparr>cm_Role = ''user'', cm_Text = ''four'', cm_HasImage = False\<rparr>]\<rparr>)
     [decisionFor ex_model]) = 0"
  by (simp add: maxEstimate_def estimate_def toProviderRequest_def is_system_def wrap64_def case_prod_unfold Let_def)

section \<open>Unauthenticated requests\<close>

definition reply_status :: "reply \<Rightarrow> int" where
  "reply_status rep = (case rep of ErrorReply n _ _ _ \<Rightarrow> n | _ \<Rightarrow> 200)"

lemma reply_status_simps [simp]:
  "reply_status (ErrorReply n t m r) = n" "reply_status (CompletionReply p u b) = 200"
  "reply_status (StreamReply p u evs) = 200" "reply_status (KilledReply k) = 200"
  by (simp_all add: reply_status_def)

lemma writeNoServe_status: "reply_status (writeNoServe en r w) \<noteq> 401"
  by (auto simp: writeNoServe_def classifyError_def split: provider_error.split)

lemma serve_status:
  "reply_status (fst (serveUnary en req ds acct tk s w)) \<noteq> 401" "reply_status (fst (serveStreaming en req ds acct tk s w)) \<noteq> 401"
  by (auto simp: serveUnary_def serveStreaming_def Let_def writeNoServe_status split: prod.splits option.splits)

lemma guard_Reserve_error: "fst (guard_Reserve now c est g) \<noteq> Inl ErrUnauthorized"
  by (auto simp: guard_Reserve_def Let_def split: option.split)

lemma admit_and_serve_status: "admit_and_serve en rid start hdr client req s w = Some (rep, s', w') \<Longrightarrow> reply_status rep \<noteq> 401"
proof -
  have admitted: "serve_admitted en req ds acct tk s w = (rep, s', w') \<Longrightarrow> reply_status rep \<noteq> 401" for ds acct tk s w
    using serve_status [of en req ds acct tk s w] by (auto simp: serve_admitted_def Let_def split: prod.splits if_splits)
  have fw: "reply_status (firewallDenied e) \<noteq> 401" for e by (simp add: firewallDenied_def split: fw_error.split)
  have bad: "reply_status (bad_request m) \<noteq> 401" "reply_status policy_failed \<noteq> 401" for m
    by (simp_all add: bad_request_def policy_failed_def)
  have reserved: "serve_reserved en rid start r client req ds u t b s w = Some (rep, s', w') \<Longrightarrow> reply_status rep \<noteq> 401"
    for r ds u t b s
    using admitted fw bad
    by (auto simp: serve_reserved_def split: if_splits option.splits prod.splits sum.splits)
  have budget: "reply_status (denied e) \<noteq> 401" if "guard_Reserve now c est g = (Inl e, g')" for now c est g e g'
    using that guard_Reserve_error [of now c est g] by (cases e) (auto simp: denied_def)
  assume "admit_and_serve en rid start hdr client req s w = Some (rep, s', w')"
  then show ?thesis using reserved budget bad
    by (auto simp: admit_and_serve_def Let_def split: sum.splits prod.splits)
qed



end
