(* ===== verification/ServerKill.thy ===== *)
theory ServerKill
  imports ServerHandlers
begin

text \<open>
  The kill endpoint and the request path agree on the run they name: a kill that is acknowledged stops every later
  request of the same client on that run before anything is dispatched, governed or not.
\<close>

section \<open>Resolved run scopes\<close>

lemma built_run_scope:
  assumes "built_store store" "run \<noteq> []" "resolver_Resolve store key run = Some (scs, killed, True, None)"
  shows "\<exists>sc. find (\<lambda>sc. sc_Name sc = ''run'') scs = Some sc"
proof -
  have ok: "store_ok store" using assms(1) by (auto simp: built_store_def policy_run_ok policy_New_ok)
  obtain ch where ch: "policy_Resolve key run store = Some (Inr ch)" "scs = Translate ch"
    using assms(3) by (auto simp: resolver_Resolve_def split: option.splits sum.splits if_splits)
  then have "run = [] \<or> validID run" "mget (st_keys store) key \<noteq> None"
    by (auto simp: policy_Resolve_def split: if_splits option.splits)
  then obtain r where r: "mget (st_keys store) key = Some r" "run = [] \<or> validID run" by auto
  from resolve_known [OF ok r] obtain l where "policy_Resolve key run store = Some (Inr (chain_of key run l))" by metis
  then have "map sc_Name scs = map n_Type (rev l) @ [''run'']"
    using ch assms(2) by (simp add: Translate_keys chain_of_def node_scope_def comp_def)
  then have "''run'' \<in> set (map sc_Name scs)" by simp
  then have "find (\<lambda>sc. sc_Name sc = ''run'') scs \<noteq> None" by (auto simp: find_None_iff)
  then show ?thesis by auto
qed

lemma find_run: "find (\<lambda>sc. sc_Name sc = ''run'') scs = Some sc \<Longrightarrow> sc \<in> set scs \<and> is_run sc \<and> fst (chain_run scs) = sc_Key sc"
  by (induction scs) (auto simp: chain_run_def split: if_splits)

section \<open>Refused requests\<close>

definition undispatched :: "reply \<Rightarrow> 'w server \<Rightarrow> 'w server \<Rightarrow> bool" where
  "undispatched rep s s' \<longleftrightarrow> is_ErrorReply rep \<and> sv_ledger s' = sv_ledger s \<and>
     sv_health s' = sv_health s \<and> sv_broker s' = sv_broker s"

lemma undispatched_replies [simp]:
  "is_ErrorReply (denied e)" "is_ErrorReply (firewallDenied fe)"
  "is_ErrorReply (bad_request m)" "is_ErrorReply (policy_failed)"
  by (simp_all add: denied_def firewallDenied_def bad_request_def policy_failed_def split: controls_error.split fw_error.split)

lemma serve_reserved_refused:
  assumes "serve_reserved en rid start runID client req ds u t r s w = Some (rep, s', w')"
    and "\<And>scopes killed gov p. resolveChain (clientKeySHA client) runID s = Some (scopes, killed, gov, None) \<Longrightarrow>
      \<not> (gov \<and> killed \<noteq> []) \<Longrightarrow> \<exists>e. fst (fw_admit en client runID scopes gov p u t s w) = Inl e"
  shows "undispatched rep s s'"
proof -
  have out: "undispatched rep s s'" if "s' = release_budget r (s\<lparr>sv_firewall := f\<rparr>)" "is_ErrorReply rep" for f
    using that by (simp add: undispatched_def release_budget_def)
  have out0: "undispatched rep s s'" if "s' = release_budget r s" "is_ErrorReply rep"
    using that by (simp add: undispatched_def release_budget_def)
  show ?thesis
  proof (cases "runID \<noteq> [] \<and> \<not> validRunID runID")
    case True
    then show ?thesis using assms(1) out0 by (auto simp: serve_reserved_def)
  next
    case valid: False
    then obtain scopes killedBy governed rerr where chain: "resolveChain (clientKeySHA client) runID s = Some (scopes, killedBy, governed, rerr)"
      using assms(1) by (auto simp: serve_reserved_def split: option.splits if_splits)
    show ?thesis
    proof (cases "rerr \<noteq> None \<or> governed \<and> killedBy \<noteq> []")
      case True
      then show ?thesis using assms(1) valid chain out0 by (auto simp: serve_reserved_def split: if_splits)
    next
      case live: False
      let ?p = "en_sha256hex en (promptText req)"
      obtain e where "fst (fw_admit en client runID scopes governed ?p u t s w) = Inl e" using assms(2) [of scopes killedBy governed] chain live by auto
      then obtain f w1 where "fw_admit en client runID scopes governed ?p u t s w = (Inl e, f, w1)" by (metis prod.collapse)
      then show ?thesis using assms(1) valid chain live out [of f] by (auto simp: serve_reserved_def)
    qed
  qed
qed

lemma admit_and_serve_refused:
  assumes "admit_and_serve en rid start hdr client req s w = Some (rep, s', w')"
    and "\<And>g scopes killed gov p u t. resolveChain (clientKeySHA client) (TrimSpace hdr) s = Some (scopes, killed, gov, None) \<Longrightarrow>
      \<not> (gov \<and> killed \<noteq> []) \<Longrightarrow> \<exists>e. fst (fw_admit en client (TrimSpace hdr) scopes gov p u t (s\<lparr>sv_guard := g\<rparr>) w) = Inl e"
  shows "undispatched rep s s'"
proof (cases "Candidates (cr_Model req) (sv_router s)")
  case (Inl al)
  then show ?thesis using assms(1) by (auto simp: admit_and_serve_def undispatched_def)
next
  case (Inr ds)
  obtain estU estT where est: "maxEstimate req ds = (estU, estT)" by force
  obtain res g where reserve: "guard_Reserve (en_now en w 2) client estU (sv_guard s) = (res, g)" by force
  show ?thesis
  proof (cases res)
    case (Inl e)
    then show ?thesis using assms(1) Inr est reserve by (auto simp: admit_and_serve_def undispatched_def)
  next
    case r: (Inr r)
    have "serve_reserved en rid start (TrimSpace hdr) client req ds estU estT r (s\<lparr>sv_guard := g\<rparr>) w = Some (rep, s', w')"
      using assms(1) Inr est reserve r by (simp add: admit_and_serve_def)
    then have "undispatched rep (s\<lparr>sv_guard := g\<rparr>) s'"
      by (rule serve_reserved_refused) (use assms(2) in \<open>simp add: resolveChain_def\<close>)
    then show ?thesis by (simp add: undispatched_def)
  qed
qed

lemma chat_refused:
  assumes "handleChatCompletions en authz hdr bdy s w = Some (rep, s', w')"
    and "Authenticate (en_sha256hex en) (bearerToken authz) (sv_guard s) = Inr client"
    and "\<And>g scopes killed gov p u t. resolveChain (clientKeySHA client) (TrimSpace hdr) s = Some (scopes, killed, gov, None) \<Longrightarrow>
      \<not> (gov \<and> killed \<noteq> []) \<Longrightarrow> \<exists>e. fst (fw_admit en client (TrimSpace hdr) scopes gov p u t (s\<lparr>sv_guard := g\<rparr>) w) = Inl e"
  shows "undispatched rep s s'"
proof -
  obtain res g where admit: "Admit (en_sha256hex en) (en_now en w 1) (bearerToken authz) (sv_guard s) = (res, g)" by force
  show ?thesis
  proof (cases res)
    case (Inl e)
    then show ?thesis using assms(1) admit by (auto simp: handleChatCompletions_def undispatched_def)
  next
    case (Inr c)
    then have c: "c = client"
      using Admit_Authenticate [of "en_sha256hex en" "en_now en w 1" "bearerToken authz" "sv_guard s" c] admit assms(2) by simp
    have served: "undispatched rep s s'"
      if "admit_and_serve en rid start hdr client req (s\<lparr>sv_guard := g\<rparr>) w = Some (rep, s', w')" for rid start req
    proof -
      from that have "undispatched rep (s\<lparr>sv_guard := g\<rparr>) s'"
        by (rule admit_and_serve_refused) (use assms(3) in \<open>simp add: resolveChain_def\<close>)
      then show ?thesis by (simp add: undispatched_def)
    qed
    show ?thesis using assms(1) admit Inr c served undispatched_replies
      by (auto simp: handleChatCompletions_def undispatched_def Let_def split: body.splits if_splits option.splits)
  qed
qed

section \<open>Kills reach their run\<close>

lemma fw_admit_killed:
  assumes "fw_ok (sv_firewall s)" "fw_enabled (sv_firewall s)" "runID \<noteq> []"
    and "(if governed then KillRun t0 runKey (sv_firewall s) w else fw_Kill t0 (clientName client) runID (sv_firewall s) w)
      = (None, f, w1)"
    and "t0 \<le> en_now en w2 3" "en_now en w2 3 - t0 \<le> ks_ttl (fw_localKills (sv_firewall s))"
    and "governed \<Longrightarrow> \<exists>sc\<in>set scopes. is_run sc \<and> sc_Key sc = runKey \<and> fst (chain_run scopes) = runKey"
  shows "\<exists>e. fst (fw_admit en client runID scopes governed p u t (s'\<lparr>sv_firewall := f\<rparr>) w2) = Inl e"
proof (cases governed)
  case True
  then obtain sc where sc: "sc \<in> set scopes" "is_run sc" "sc_Key sc = runKey" "fst (chain_run scopes) = runKey"
    using assms(7) by blast
  have kill: "KillRun t0 runKey (sv_firewall s) w = (None, f, w1)" using assms(4) True by simp
  have en: "fw_enabled f" using KillRun_enabled [of t0 runKey "sv_firewall s" w] kill assms(2) by simp
  show ?thesis
  proof (cases "malformed scopes")
    case True
    then show ?thesis using \<open>governed\<close> en by (simp add: fw_admit_def EnterChain_cases)
  next
    case False
    then have "runKey \<noteq> []" using wellformed_key [OF False sc(1)] sc(3) by simp
    then have "fst (isKilled (en_now en w2 3) runKey f w2)"
      by (intro killed_run_dead [OF assms(1) _ kill _ assms(5,6)]) simp_all
    then show ?thesis using \<open>governed\<close> en False sc(4) enterChain_dead [of "\<lambda>i. en_now en w2 (3 + i)" runKey f w2]
      by (simp add: fw_admit_def EnterChain_cases)
  qed
next
  case False
  let ?key = "fw_runKey (clientName client) runID"
  have key: "?key \<noteq> []" using assms(3) by (simp add: fw_runKey_def)
  have kill: "KillRun t0 ?key (sv_firewall s) w = (None, f, w1)" using assms(3,4) False by (simp add: fw_Kill_def)
  have en: "fw_enabled f" using KillRun_enabled [of t0 ?key "sv_firewall s" w] kill assms(2) by simp
  have "fst (isKilled (en_now en w2 3) ?key f w2)"
    by (intro killed_run_dead [OF assms(1) key kill _ assms(5,6)]) simp
  then show ?thesis using False en enterChain_dead [of "\<lambda>i. en_now en w2 (3 + i)" ?key f w2]
    by (simp add: fw_admit_def fw_Enter_def Let_def)
qed

text \<open>The key the kill endpoint resolves is the run of the chain the request path reserves.\<close>

lemma kill_key_is_reserved:
  assumes "sv_resolver s = None \<or> (\<exists>ops. sv_resolver s = Some (resolver_Resolve (fold policy_apply ops policy_New)))"
    and "runID \<noteq> []" "resolveRunKey sha runID s = Some (runKey, governed, None)"
    and "resolveChain sha runID s = Some (scopes, killed, gov, None)"
  shows "gov = governed \<and> (governed \<longrightarrow> (\<exists>sc\<in>set scopes. is_run sc \<and> sc_Key sc = runKey \<and> fst (chain_run scopes) = runKey))"
proof (cases "sv_resolver s")
  case None
  then show ?thesis using assms(3,4) by (simp add: resolveChain_def resolveRunKey_def)
next
  case (Some res)
  then obtain ops where res: "res = resolver_Resolve (fold policy_apply ops policy_New)" using assms(1) by auto
  have scs: "res sha runID = Some (scopes, killed, gov, None)" using assms(4) Some by (simp add: resolveChain_def)
  show ?thesis
  proof (cases gov)
    case False
    then show ?thesis using assms(3) Some scs by (simp add: resolveRunKey_def)
  next
    case True
    have "built_store (fold policy_apply ops policy_New)" by (auto simp: built_store_def)
    moreover have "gov = True" using True by simp
    ultimately have "\<exists>sc. find (\<lambda>sc. sc_Name sc = ''run'') scopes = Some sc"
      using scs assms(2) unfolding res by (simp only: built_run_scope)
    then obtain sc where sc: "find (\<lambda>sc. sc_Name sc = ''run'') scopes = Some sc" by auto
    with find_run [OF sc] show ?thesis using assms(3) Some scs True by (auto simp: resolveRunKey_def)
  qed
qed

text \<open>
  C24. An acknowledged kill stops the run it names. If the kill endpoint answers 200 for a client's run, then a
  chat request of that client that next carries this run id, within the kill's lifetime and whatever the vendors and
  the shared stores do meanwhile, is answered with an error before anything is dispatched: no ledger record, no breaker or
  quota change. This holds with flat enforcement and under the control plane, whose run scope key the kill targets.
\<close>
theorem kill_stops_reserved_run:
  assumes "handleKillRun enk authzk runID s w = Some (KilledReply r, s1, w1)"
    and "fw_ok (sv_firewall s)" "fw_enabled (sv_firewall s)"
    and "sv_resolver s = None \<or> (\<exists>ops. sv_resolver s = Some (resolver_Resolve (fold policy_apply ops policy_New)))"
    and "Authenticate (en_sha256hex enk) (bearerToken authzk) (sv_guard s) = Inr client"
    and "Authenticate (en_sha256hex en) (bearerToken authz) (sv_guard s) = Inr client" "TrimSpace hdr = runID"
    and "en_now enk w 0 \<le> en_now en w2 3" "en_now en w2 3 - en_now enk w 0 \<le> ks_ttl (fw_localKills (sv_firewall s))"
    and "handleChatCompletions en authz hdr bdy s1 w2 = Some (rep, s2, w3)"
  shows "is_ErrorReply rep \<and> sv_ledger s2 = sv_ledger s1 \<and> sv_health s2 = sv_health s1 \<and> sv_broker s2 = sv_broker s1"
proof -
  have run: "runID \<noteq> []" "validRunID runID" using assms(1,5) by (auto simp: handleKillRun_def bad_request_def split: if_splits)
  obtain runKey governed where key: "resolveRunKey (clientKeySHA client) runID s = Some (runKey, governed, None)"
    using assms(1,5) run by (auto simp: handleKillRun_def policy_failed_def split: option.splits if_splits)
  obtain f where kill: "(if governed then KillRun (en_now enk w 0) runKey (sv_firewall s) w
      else fw_Kill (en_now enk w 0) (clientName client) runID (sv_firewall s) w) = (None, f, w1)" and s1: "s1 = s\<lparr>sv_firewall := f\<rparr>"
    using assms(1,5) run key by (auto simp: handleKillRun_def Let_def split: prod.splits if_splits)
  have agree: "gov = governed \<and> (governed \<longrightarrow> (\<exists>sc\<in>set scopes. is_run sc \<and> sc_Key sc = runKey \<and> fst (chain_run scopes) = runKey))"
    if "resolveChain (clientKeySHA client) runID s1 = Some (scopes, killed, gov, None)" for scopes killed gov
    using kill_key_is_reserved [OF assms(4) run(1) key, of scopes killed gov] that by (simp add: s1 resolveChain_def)
  have "undispatched rep s1 s2"
  proof (rule chat_refused [OF assms(10)])
    show "Authenticate (en_sha256hex en) (bearerToken authz) (sv_guard s1) = Inr client" using assms(6) s1 by simp
    fix g scopes killed gov p u t
    assume chain: "resolveChain (clientKeySHA client) (TrimSpace hdr) s1 = Some (scopes, killed, gov, None)"
    have "\<exists>e. fst (fw_admit en client runID scopes governed p u t ((s\<lparr>sv_guard := g\<rparr>)\<lparr>sv_firewall := f\<rparr>) w2) = Inl e"
      by (rule fw_admit_killed [OF assms(2,3) run(1) kill assms(8,9)]) (use agree chain assms(7) in blast)
    moreover have "gov = governed" using agree chain assms(7) by blast
    ultimately show "\<exists>e. fst (fw_admit en client (TrimSpace hdr) scopes gov p u t (s1\<lparr>sv_guard := g\<rparr>) w2) = Inl e"
      using assms(7) s1 by (cases governed) (simp_all add: fw_admit_def)
  qed
  then show ?thesis by (simp add: undispatched_def)
qed

definition ex_kill_server :: "unit server" where "ex_kill_server = ex_server\<lparr>sv_firewall := ex_fw\<rparr>"

theorem kill_stops_reserved_run_witness:
  "\<exists>s1 rep s2 w3. handleKillRun ex_env ''Bearer t'' ''r'' ex_kill_server () = Some (KilledReply ''r'', s1, ()) \<and>
     handleChatCompletions ex_env ''Bearer t'' ''r'' (Decoded ex_req) s1 () = Some (rep, s2, w3) \<and> is_ErrorReply rep"
proof -
  let ?c = "Some (ex_client\<lparr>cl_KeySHA256 := ''ab''\<rparr>)"
  have auth: "Authenticate (en_sha256hex ex_env) (bearerToken ''Bearer t'') (sv_guard ex_kill_server) = Inr ?c"
    using ex_auth by (simp add: ex_kill_server_def)
  have res: "sv_resolver ex_kill_server = None" and fw: "sv_firewall ex_kill_server = ex_fw"
    by (simp_all add: ex_kill_server_def ex_server_def server_New_def)
  have run: "validRunID ''r''" "TrimSpace ''r'' = ''r''" by code_simp+
  let ?k = "fw_Kill ex_jan (clientName ?c) ''r'' ex_fw ()"
  have "fst ?k = None"
    by (simp add: fw_Kill_def KillRun_def fw_runKey_def doKill_def ks_Kill_def newMemKillStore_def maxKills_def Let_def)
      (simp add: gomap_eval split: option.split)?
  then obtain f where k: "?k = (None, f, ())" by (cases ?k) auto
  have now: "en_now ex_env () i = ex_jan" for i by (simp add: ex_env_def)
  obtain s1 where kill: "handleKillRun ex_env ''Bearer t'' ''r'' ex_kill_server () = Some (KilledReply ''r'', s1, ())"
    and s1: "sv_resolver s1 = None" "sv_guard s1 = sv_guard ex_kill_server"
    by (rule that [of "ex_kill_server\<lparr>sv_firewall := f\<rparr>"])
      (simp_all add: handleKillRun_def auth run res fw now k resolveRunKey_def)
  obtain rep s2 w3 where chat: "handleChatCompletions ex_env ''Bearer t'' ''r'' (Decoded ex_req) s1 () = Some (rep, s2, w3)"
    using ex_resolver [OF s1(1), of ex_env "''Bearer t''" "''r''" "Decoded ex_req" "()"] by auto
  have "is_ErrorReply rep"
    using kill_stops_reserved_run [OF kill _ _ _ auth auth run(2) _ _ chat] fw res
    by (simp add: now newMemKillStore_def DefaultKillTTL_def second_def)
  then show ?thesis using kill chat by blast
qed

end
