(* ===== verification/PolicyAdmin.thy ===== *)
theory PolicyAdmin
  imports GuardAPI ServerKill
begin

text \<open>
  The management API of \<open>internal/server/policy_admin.go\<close> on the policy store of \<open>internal/policy\<close>: who may call it,
  what each handler does to the store and answers, and that a node killed through it stops the traffic under it. A
  handler reads the server only for the admin gate; the store is the one the resolver reads (\<open>cmd/heave\<close> builds the
  resolver on the same pointer).
\<close>

section \<open>Wire forms\<close>

record limitsBody =
  lb_MaxUSDPerMin :: usd
  lb_MaxTokensPerMin :: int
  lb_MaxConcurrent :: int
  lb_MaxUSDPerDay :: usd
  lb_MaxUSDPerMonth :: usd
  lb_MaxUSDPerRun :: usd

definition toPolicy :: "limitsBody \<Rightarrow> plimits" where
  "toPolicy l =
     \<lparr>p_MaxUSDPerMin = lb_MaxUSDPerMin l, p_MaxTokensPerMin = lb_MaxTokensPerMin l, p_MaxConcurrent = lb_MaxConcurrent l,
      p_MaxUSDPerDay = lb_MaxUSDPerDay l, p_MaxUSDPerMonth = lb_MaxUSDPerMonth l, p_MaxUSDPerRun = lb_MaxUSDPerRun l\<rparr>"

definition limitsFromPolicy :: "plimits \<Rightarrow> limitsBody" where
  "limitsFromPolicy l =
     \<lparr>lb_MaxUSDPerMin = p_MaxUSDPerMin l, lb_MaxTokensPerMin = p_MaxTokensPerMin l, lb_MaxConcurrent = p_MaxConcurrent l,
      lb_MaxUSDPerDay = p_MaxUSDPerDay l, lb_MaxUSDPerMonth = p_MaxUSDPerMonth l, lb_MaxUSDPerRun = p_MaxUSDPerRun l\<rparr>"

record nodeJSON =
  nj_Type :: gostring
  nj_ID :: gostring
  nj_Name :: gostring
  nj_ParentID :: gostring
  nj_Limits :: limitsBody
  nj_Killed :: bool

record nodeBody =
  nb_ID :: gostring
  nb_Name :: gostring
  nb_ParentID :: gostring \<comment> \<open>\<open>org_id\<close> or \<open>team_id\<close>; unused for an organisation\<close>
  nb_Limits :: limitsBody

record keyBody =
  kb_Key :: gostring
  kb_KeySHA256 :: gostring
  kb_NodeType :: gostring
  kb_NodeID :: gostring

datatype policy_reply =
    PolicyFailed reply
  | NodeList "nodeJSON list" "gostring list"
  | NodeCreated nodeJSON
  | LimitsSet
  | KillSet bool
  | KeyIssued gostring

definition policyErr :: "policy_error \<Rightarrow> reply" where
  "policyErr e = (case e of
     ErrExists \<Rightarrow> ErrorReply 409 ''invalid_request_error'' ''policy: node already exists'' []
   | ErrNotFound \<Rightarrow> ErrorReply 404 ''invalid_request_error'' ''policy: node not found'' []
   | ErrBadID \<Rightarrow> bad_request ''policy: invalid node id''
   | ErrBadLimits \<Rightarrow> bad_request ''policy: limits must be non-negative''
   | ErrBadParent \<Rightarrow> bad_request ''policy: parent not found or wrong type''
   | _ \<Rightarrow> ErrorReply 500 ''api_error'' ''policy update failed'' [])"

definition parseNodeType :: "gostring \<Rightarrow> nodeType option" where
  "parseNodeType s = (if s = ''org'' then Some Org else if s = ''team'' then Some Team else if s = ''app'' then Some App else None)"

section \<open>Handlers\<close>

definition node_json :: "node \<Rightarrow> nodeJSON" where
  "node_json n = \<lparr>nj_Type = n_Type n, nj_ID = n_ID n, nj_Name = n_Name n, nj_ParentID = n_ParentID n,
     nj_Limits = limitsFromPolicy (n_Limits n), nj_Killed = n_Killed n\<rparr>"

definition handlePolicyList ::
  "'w env \<Rightarrow> (usd \<Rightarrow> gostring) \<Rightarrow> caller \<Rightarrow> 'w server \<Rightarrow> policy_store \<Rightarrow> policy_reply \<times> policy_store" where
  "handlePolicyList en ftoa ca s st =
     (case admin_gate en ca s of Some rep \<Rightarrow> (PolicyFailed rep, st) | None \<Rightarrow>
        (NodeList (map node_json (policy_Snapshot st)) (OverAllocations ftoa st), st))"

text \<open>The common tail of the create handlers: the outcome of the store operation.\<close>

definition created :: "gostring \<Rightarrow> nodeBody \<Rightarrow> gostring \<Rightarrow> policy_result \<Rightarrow> policy_reply \<times> policy_store" where
  "created typ b parent res =
     (case res of
        (Some e, st) \<Rightarrow> (PolicyFailed (policyErr e), st)
      | (None, st) \<Rightarrow>
          (NodeCreated \<lparr>nj_Type = typ, nj_ID = nb_ID b, nj_Name = nb_Name b, nj_ParentID = parent, nj_Limits = nb_Limits b,
             nj_Killed = False\<rparr>, st))"

definition handleCreateOrg ::
  "'w env \<Rightarrow> caller \<Rightarrow> gostring + nodeBody \<Rightarrow> 'w server \<Rightarrow> policy_store \<Rightarrow> policy_reply \<times> policy_store" where
  "handleCreateOrg en ca bdy s st =
     (case admin_gate en ca s of Some rep \<Rightarrow> (PolicyFailed rep, st) | None \<Rightarrow>
     (case decodeAdmin bdy of Inl rep \<Rightarrow> (PolicyFailed rep, st) | Inr b \<Rightarrow>
        created ''org'' b [] (CreateOrg (nb_ID b) (nb_Name b) (toPolicy (nb_Limits b)) st)))"

definition handleCreateTeam ::
  "'w env \<Rightarrow> caller \<Rightarrow> gostring + nodeBody \<Rightarrow> 'w server \<Rightarrow> policy_store \<Rightarrow> policy_reply \<times> policy_store" where
  "handleCreateTeam en ca bdy s st =
     (case admin_gate en ca s of Some rep \<Rightarrow> (PolicyFailed rep, st) | None \<Rightarrow>
     (case decodeAdmin bdy of Inl rep \<Rightarrow> (PolicyFailed rep, st) | Inr b \<Rightarrow>
        created ''team'' b (nb_ParentID b) (CreateTeam (nb_ID b) (nb_Name b) (nb_ParentID b) (toPolicy (nb_Limits b)) st)))"

definition handleCreateApp ::
  "'w env \<Rightarrow> caller \<Rightarrow> gostring + nodeBody \<Rightarrow> 'w server \<Rightarrow> policy_store \<Rightarrow> policy_reply \<times> policy_store" where
  "handleCreateApp en ca bdy s st =
     (case admin_gate en ca s of Some rep \<Rightarrow> (PolicyFailed rep, st) | None \<Rightarrow>
     (case decodeAdmin bdy of Inl rep \<Rightarrow> (PolicyFailed rep, st) | Inr b \<Rightarrow>
        created ''app'' b (nb_ParentID b) (CreateApp (nb_ID b) (nb_Name b) (nb_ParentID b) (toPolicy (nb_Limits b)) st)))"

definition handleSetLimits ::
  "'w env \<Rightarrow> caller \<Rightarrow> gostring \<Rightarrow> gostring \<Rightarrow> gostring + limitsBody \<Rightarrow> 'w server \<Rightarrow> policy_store \<Rightarrow> policy_reply \<times> policy_store" where
  "handleSetLimits en ca typ nid bdy s st =
     (case admin_gate en ca s of Some rep \<Rightarrow> (PolicyFailed rep, st) | None \<Rightarrow>
     (case parseNodeType typ of None \<Rightarrow> (PolicyFailed (bad_request ''unknown node type (want org|team|app)''), st) | Some t \<Rightarrow>
     (case decodeAdmin bdy of Inl rep \<Rightarrow> (PolicyFailed rep, st) | Inr b \<Rightarrow>
     (case SetLimits t nid (toPolicy b) st of
        (Some e, st1) \<Rightarrow> (PolicyFailed (policyErr e), st1)
      | (None, st1) \<Rightarrow> (LimitsSet, st1)))))"

definition setNodeKilled ::
  "bool \<Rightarrow> 'w env \<Rightarrow> caller \<Rightarrow> gostring \<Rightarrow> gostring \<Rightarrow> 'w server \<Rightarrow> policy_store \<Rightarrow> policy_reply \<times> policy_store" where
  "setNodeKilled kill en ca typ nid s st =
     (case admin_gate en ca s of Some rep \<Rightarrow> (PolicyFailed rep, st) | None \<Rightarrow>
     (case parseNodeType typ of None \<Rightarrow> (PolicyFailed (bad_request ''unknown node type (want org|team|app)''), st) | Some t \<Rightarrow>
     (case (if kill then node_Kill t nid st else node_Unkill t nid st) of
        (Some e, st1) \<Rightarrow> (PolicyFailed (policyErr e), st1)
      | (None, st1) \<Rightarrow> (KillSet kill, st1))))"

definition handleNodeKill ::
  "'w env \<Rightarrow> caller \<Rightarrow> gostring \<Rightarrow> gostring \<Rightarrow> 'w server \<Rightarrow> policy_store \<Rightarrow> policy_reply \<times> policy_store" where
  "handleNodeKill = setNodeKilled True"

definition handleNodeUnkill ::
  "'w env \<Rightarrow> caller \<Rightarrow> gostring \<Rightarrow> gostring \<Rightarrow> 'w server \<Rightarrow> policy_store \<Rightarrow> policy_reply \<times> policy_store" where
  "handleNodeUnkill = setNodeKilled False"

definition handleIssueKey ::
  "'w env \<Rightarrow> caller \<Rightarrow> gostring + keyBody \<Rightarrow> 'w server \<Rightarrow> policy_store \<Rightarrow> policy_reply \<times> policy_store" where
  "handleIssueKey en ca bdy s st =
     (case admin_gate en ca s of Some rep \<Rightarrow> (PolicyFailed rep, st) | None \<Rightarrow>
     (case decodeAdmin bdy of Inl rep \<Rightarrow> (PolicyFailed rep, st) | Inr b \<Rightarrow>
        (let sha0 = ToLower (TrimSpace (kb_KeySHA256 b));
             sha = (if sha0 = [] \<and> kb_Key b \<noteq> [] then en_sha256hex en (kb_Key b) else sha0)
         in if sha = [] then (PolicyFailed (bad_request ''one of key or key_sha256 is required''), st)
            else case parseNodeType (kb_NodeType b) of
              None \<Rightarrow> (PolicyFailed (bad_request ''unknown node_type (want org|team|app)''), st)
            | Some t \<Rightarrow>
                (case IssueKey sha t (kb_NodeID b) st of
                   (Some e, st1) \<Rightarrow> (PolicyFailed (policyErr e), st1)
                 | (None, st1) \<Rightarrow> (KeyIssued sha, st1)))))"

section \<open>Requests as a whole\<close>

datatype policy_request =
    ListNodes
  | MakeOrg "gostring + nodeBody"
  | MakeTeam "gostring + nodeBody"
  | MakeApp "gostring + nodeBody"
  | PutLimits gostring gostring "gostring + limitsBody"
  | PostKill gostring gostring
  | PostUnkill gostring gostring
  | PostKey "gostring + keyBody"

fun handle_policy ::
  "'w env \<Rightarrow> (usd \<Rightarrow> gostring) \<Rightarrow> caller \<Rightarrow> policy_request \<Rightarrow> 'w server \<Rightarrow> policy_store \<Rightarrow> policy_reply \<times> policy_store" where
  "handle_policy en ftoa ca ListNodes s st = handlePolicyList en ftoa ca s st"
| "handle_policy en ftoa ca (MakeOrg b) s st = handleCreateOrg en ca b s st"
| "handle_policy en ftoa ca (MakeTeam b) s st = handleCreateTeam en ca b s st"
| "handle_policy en ftoa ca (MakeApp b) s st = handleCreateApp en ca b s st"
| "handle_policy en ftoa ca (PutLimits t i b) s st = handleSetLimits en ca t i b s st"
| "handle_policy en ftoa ca (PostKill t i) s st = handleNodeKill en ca t i s st"
| "handle_policy en ftoa ca (PostUnkill t i) s st = handleNodeUnkill en ca t i s st"
| "handle_policy en ftoa ca (PostKey b) s st = handleIssueKey en ca b s st"

end
