(* ===== verification/PolicyAdminProps.thy ===== *)
theory PolicyAdminProps
  imports PolicyAdmin
begin

text \<open>
  The properties of the management API: it is admin-only and all-or-nothing, and a node killed through it stops the
  chat traffic under it before dispatch.
\<close>

section \<open>Failed requests change nothing\<close>

definition policy_status :: "policy_reply \<Rightarrow> int" where
  "policy_status rep = (case rep of PolicyFailed r \<Rightarrow> reply_status r | NodeCreated _ \<Rightarrow> 201 | KeyIssued _ \<Rightarrow> 201 | _ \<Rightarrow> 200)"

definition refusal :: "policy_reply \<Rightarrow> bool" where
  "refusal rep \<longleftrightarrow> (\<exists>r. rep = PolicyFailed r \<and> reply_status r \<in> {400, 401, 403, 404, 409})"

text \<open>A handler past the gate: refused with the store as it was, or one store operation.\<close>

definition one_op :: "policy_reply \<times> policy_store \<Rightarrow> policy_store \<Rightarrow> bool" where
  "one_op res st \<longleftrightarrow> refusal (fst res) \<and> snd res = st \<or>
     (\<forall>r. fst res \<noteq> PolicyFailed r) \<and> (\<exists>ops. length ops \<le> 1 \<and> snd res = fold policy_apply ops st)"

lemma refusals [simp]:
  "refusal (PolicyFailed (bad_request m))" "e \<in> {ErrExists, ErrNotFound, ErrBadID, ErrBadLimits, ErrBadParent} \<Longrightarrow> refusal (PolicyFailed (policyErr e))"
  by (auto simp: refusal_def bad_request_def policyErr_def)

lemma gate_refuses: "admin_gate en ca s = Some rep \<Longrightarrow> refusal (PolicyFailed rep)"
  by (auto simp: admin_gate_def requireAdmin_def Authenticate_def denied_def refusal_def split: if_splits sum.splits option.splits controls_error.splits)

lemma one_op_refused: "refusal rep \<Longrightarrow> one_op (rep, st) st" by (simp add: one_op_def)

lemma one_op_applied: "(\<And>r. rep \<noteq> PolicyFailed r) \<Longrightarrow> one_op (rep, policy_apply op st) st"
  unfolding one_op_def by (auto intro!: exI [of _ "[op]"])

text \<open>A store operation: its documented errors, which change nothing, and its effect.\<close>

definition store_step :: "policy_op \<Rightarrow> policy_store \<Rightarrow> policy_result \<Rightarrow> bool" where
  "store_step op st res \<longleftrightarrow>
     fst res \<in> {None, Some ErrExists, Some ErrNotFound, Some ErrBadID, Some ErrBadLimits, Some ErrBadParent} \<and>
     (fst res \<noteq> None \<longrightarrow> snd res = st) \<and> snd res = policy_apply op st"

lemma store_steps:
  "store_step (OpCreateOrg i nm l) st (CreateOrg i nm l st)"
  "store_step (OpCreateTeam i nm p l) st (CreateTeam i nm p l st)"
  "store_step (OpCreateApp i nm p l) st (CreateApp i nm p l st)"
  "store_step (OpSetLimits t i l) st (SetLimits t i l st)"
  "store_step (OpKillNode t i) st (node_Kill t i st)"
  "store_step (OpUnkillNode t i) st (node_Unkill t i st)"
  "store_step (OpIssueKey k t i) st (IssueKey k t i st)"
  by (auto simp: store_step_def CreateOrg_def CreateTeam_def CreateApp_def SetLimits_def node_Kill_def node_Unkill_def
      setKilled_def IssueKey_def store_put_def store_putChild_def split: option.split)

text \<open>Answering a store operation: an error is a refusal, a success is that operation.\<close>

lemma one_op_answer:
  assumes "store_step op st res" "\<And>r. ok \<noteq> PolicyFailed r"
  shows "one_op (case res of (Some e, st1) \<Rightarrow> (PolicyFailed (policyErr e), st1) | (None, st1) \<Rightarrow> (ok, st1)) st"
proof (cases res)
  case (Pair e st1)
  show ?thesis
  proof (cases e)
    case None
    then show ?thesis using assms(1) one_op_applied [OF assms(2), of op st] Pair by (simp add: store_step_def)
  next
    case (Some x)
    then show ?thesis using assms(1) Pair by (auto simp: store_step_def intro: one_op_refused)
  qed
qed

lemma created_one_op: "store_step op st res \<Longrightarrow> one_op (created typ b parent res) st"
  unfolding created_def by (rule one_op_answer) simp_all

lemma handlers_one_op:
  assumes "admin_gate en ca s = None"
  shows "one_op (handle_policy en ftoa ca req s st) st"
proof (cases req)
  case ListNodes
  then show ?thesis using assms by (auto simp: handlePolicyList_def one_op_def intro!: exI [of _ "[]"])
next
  case (MakeOrg bdy)
  then show ?thesis using assms
    by (cases bdy) (simp_all add: handleCreateOrg_def decodeAdmin_def one_op_refused created_one_op [OF store_steps(1)])
next
  case (MakeTeam bdy)
  then show ?thesis using assms
    by (cases bdy) (simp_all add: handleCreateTeam_def decodeAdmin_def one_op_refused created_one_op [OF store_steps(2)])
next
  case (MakeApp bdy)
  then show ?thesis using assms
    by (cases bdy) (simp_all add: handleCreateApp_def decodeAdmin_def one_op_refused created_one_op [OF store_steps(3)])
next
  case (PutLimits tn nid bdy)
  then show ?thesis using assms
    by (cases "parseNodeType tn"; cases bdy)
      (simp_all add: handleSetLimits_def decodeAdmin_def one_op_refused one_op_answer [OF store_steps(4)])
next
  case (PostKill tn nid)
  then show ?thesis using assms
    by (cases "parseNodeType tn")
      (simp_all add: handleNodeKill_def setNodeKilled_def one_op_refused one_op_answer [OF store_steps(5)])
next
  case (PostUnkill tn nid)
  then show ?thesis using assms
    by (cases "parseNodeType tn")
      (simp_all add: handleNodeUnkill_def setNodeKilled_def one_op_refused one_op_answer [OF store_steps(6)])
next
  case (PostKey bdy)
  then show ?thesis using assms
    by (cases bdy) (simp_all add: handleIssueKey_def decodeAdmin_def Let_def one_op_refused
        one_op_answer [OF store_steps(7)] split: option.split)
qed



section \<open>Killed nodes\<close>

lemma parseNodeType_id: "parseNodeType tn = Some t \<Longrightarrow> t = tn"
  by (auto simp: parseNodeType_def node_types split: if_splits)

text \<open>
  C29. Killing a node stops its traffic. When the management API has acknowledged the kill of an organisation, team or
  app, a chat request of any client whose resolved chain contains that node - whatever run it carries, on a server
  whose resolver reads the same store - is answered with an error, and nothing is dispatched: no ledger record, no
  breaker and no quota change.
\<close>
theorem node_kill_stops_traffic:
  assumes "store = fold policy_apply ops policy_New"
    and "handleNodeKill enk cak tn nid sk store = (KillSet True, store')"
    and "sv_resolver s = Some (resolver_Resolve store')"
    and "Authenticate (en_sha256hex en) (bearerToken authz) (sv_guard s) = Inr client"
    and "policy_Resolve (clientKeySHA client) (TrimSpace hdr) store' = Some (Inr ch)"
    and "refFor tn nid \<in> ps_Key ` {sc \<in> set (ch_Scopes ch). ps_Name sc \<noteq> ''run''}"
    and "handleChatCompletions en authz hdr bdy s w = Some (rep, s', w')"
  shows "is_ErrorReply rep \<and> sv_ledger s' = sv_ledger s \<and> sv_health s' = sv_health s \<and> sv_broker s' = sv_broker s"
proof -
  obtain t where t: "parseNodeType tn = Some t" "node_Kill t nid store = (None, store')"
    using assms(2) by (auto simp: handleNodeKill_def setNodeKilled_def split: option.splits prod.splits)
  have "store_ok store" using assms(1) by (simp add: policy_run_ok policy_New_ok)
  from killed_chain [OF this t(2) assms(5)] assms(6) parseNodeType_id [OF t(1)] have killed: "ch_KilledBy ch \<noteq> []" by simp
  have "undispatched rep s s'"
  proof (rule chat_refused [OF assms(7,4)])
    fix g scopes killedBy gov p u tk
    assume chain: "resolveChain (clientKeySHA client) (TrimSpace hdr) s = Some (scopes, killedBy, gov, None)"
      and live: "\<not> (gov \<and> killedBy \<noteq> [])"
    have "killedBy = ch_KilledBy ch" "gov" using chain assms(3,5) by (simp_all add: resolveChain_def resolver_Resolve_def)
    with live killed show "\<exists>e. fst (fw_admit en client (TrimSpace hdr) scopes gov p u tk (s\<lparr>sv_guard := g\<rparr>) w) = Inl e" by simp
  qed
  then show ?thesis by (simp add: undispatched_def)
qed

definition ex_store_killed :: policy_store where
  "ex_store_killed = snd (node_Kill Team ''t'' (fold policy_apply (ex_ops @ [OpIssueKey ''ab'' App ''b'']) policy_New))"

theorem node_kill_stops_traffic_witness:
  "\<exists>rep s' w'. handleNodeKill ex_env \<lparr>ca_authorization = [], ca_adminSession = True\<rparr> ''team'' ''t'' ex_server
       (fold policy_apply (ex_ops @ [OpIssueKey ''ab'' App ''b'']) policy_New) = (KillSet True, ex_store_killed) \<and>
     handleChatCompletions ex_env ''Bearer t'' [] (Decoded ex_req) (ex_server\<lparr>sv_resolver := Some (resolver_Resolve ex_store_killed)\<rparr>) ()
       = Some (rep, s', w') \<and> is_ErrorReply rep"
proof -
  let ?ops = "ex_ops @ [OpIssueKey ''ab'' App ''b'']"
  let ?s = "ex_server\<lparr>sv_resolver := Some (resolver_Resolve ex_store_killed)\<rparr>"
  let ?c = "Some (ex_client\<lparr>cl_KeySHA256 := ''ab''\<rparr>)"
  have kill: "handleNodeKill ex_env \<lparr>ca_authorization = [], ca_adminSession = True\<rparr> ''team'' ''t'' ex_server (fold policy_apply ?ops policy_New)
      = (KillSet True, ex_store_killed)"
    by (simp add: handleNodeKill_def setNodeKilled_def admin_gate_def requireAdmin_def parseNodeType_def ex_store_killed_def
        ex_store node_Kill_def setKilled_def IssueKey_def gomap_defs refFor_def node_types)
  have auth: "Authenticate (en_sha256hex ex_env) (bearerToken ''Bearer t'') (sv_guard ?s) = Inr ?c" using ex_auth by simp
  have sha: "clientKeySHA ?c = ''ab''" by code_simp
  have trim: "TrimSpace [] = []" by code_simp
  obtain ch where ch: "policy_Resolve ''ab'' [] ex_store_killed = Some (Inr ch)"
    "\<lparr>ps_Name = ''team'', ps_Key = refFor Team ''t'', ps_Limits = ex_caps 0\<rparr> \<in> set (ch_Scopes ch)"
    by (simp add: ex_store_killed_def ex_store node_Kill_def setKilled_def IssueKey_def policy_Resolve_def gomap_defs walk.simps
        node_types node_parent_def refFor_def node_scopeKey_def)
  then have mem: "refFor ''team'' ''t'' \<in> ps_Key ` {sc \<in> set (ch_Scopes ch). ps_Name sc \<noteq> ''run''}"
    by (intro image_eqI [OF _ CollectI]) (auto simp: node_types)
  have "built_store ex_store_killed"
    unfolding built_store_def ex_store_killed_def by (intro exI [of _ "?ops @ [OpKillNode Team ''t'']"]) simp
  then have "policy_Resolve k run ex_store_killed \<noteq> None" for k run
    using policy_resolver.resolve_returns [of ex_store_killed k run] by (auto simp: resolver_Resolve_def split: option.splits)
  then have "handleChatCompletions ex_env ''Bearer t'' [] (Decoded ex_req) ?s () \<noteq> None"
    by (auto simp: handleChatCompletions_def admit_and_serve_def serve_reserved_def resolveChain_def resolver_Resolve_def trim Let_def
        simp del: not_None_eq split: prod.splits sum.splits body.splits option.splits)
  then obtain rep s' w' where h: "handleChatCompletions ex_env ''Bearer t'' [] (Decoded ex_req) ?s () = Some (rep, s', w')" by auto
  have r: "sv_resolver ?s = Some (resolver_Resolve ex_store_killed)" by simp
  have ch1: "policy_Resolve (clientKeySHA ?c) (TrimSpace []) ex_store_killed = Some (Inr ch)" using ch(1) sha trim by simp
  from node_kill_stops_traffic [OF refl kill r auth ch1 mem h] kill h show ?thesis by blast
qed

end
