(* ===== verification/ConsoleProps.thy ===== *)
theory ConsoleProps
  imports Console
begin

text \<open>
  The properties of the console: a signed token is read back exactly, a stored password hash accepts exactly the
  password it was made from, a login handler hands out an admin cookie exactly to authorised operators, the OAuth
  state is bound to its nonce, and what the post-login redirect lets through.
\<close>

section \<open>Tokens\<close>

context text_codec
begin

lemma cut_first: "takeWhile (\<lambda>c. c \<noteq> sep) (enc s @ sep # r) = enc s" "dropWhile (\<lambda>c. c \<noteq> sep) (enc s @ sep # r) = sep # r"
proof -
  have "\<forall>c\<in>set (enc s). c \<noteq> sep" using sep_free [of s] by metis
  then show "takeWhile (\<lambda>c. c \<noteq> sep) (enc s @ sep # r) = enc s" "dropWhile (\<lambda>c. c \<noteq> sep) (enc s @ sep # r) = sep # r"
    by (simp_all add: takeWhile_append2 dropWhile_append2)
qed

lemma split_enc: "split_at sep (enc s @ sep # r) = enc s # split_at sep r" "split_at sep (enc s) = [enc s]"
proof -
  have cut: "sep \<notin> set x \<Longrightarrow> split_at sep (x @ sep # r) = x # split_at sep r \<and> split_at sep x = [x]" for x
    by (induction x) auto
  show "split_at sep (enc s @ sep # r) = enc s # split_at sep r" "split_at sep (enc s) = [enc s]"
    using cut [OF sep_free] by simp_all
qed

end

lemma split_at_cut: "sep \<notin> set x \<Longrightarrow> split_at sep (x @ sep # r) = x # split_at sep r"
  by (induction x) auto

lemma verify_sign [simp]: "verify hm k (sign hm k p) = Some p"
  by (simp add: verify_def sign_def b64url.cut_first b64url.dec_enc)

text \<open>A token that verifies carries, after its first dot, the code of this payload's authentication code.\<close>

lemma verify_authentic:
  assumes "verify hm k token = Some p"
  shows "\<exists>a b. token = a @ ''.'' @ b \<and> b64_decode url_alphabet a = Some p \<and> b64_decode url_alphabet b = Some (hm k p)"
proof -
  obtain c rest where d: "dropWhile (\<lambda>c. c \<noteq> CHR ''.'') token = c # rest"
    using assms by (auto simp: verify_def split: list.splits)
  then have "c = CHR ''.''" by (metis (mono_tags, lifting) hd_dropWhile list.sel(1) list.discI)
  then have "token = takeWhile (\<lambda>c. c \<noteq> CHR ''.'') token @ ''.'' @ rest"
    using d takeWhile_dropWhile_id [of "\<lambda>c. c \<noteq> CHR ''.''" token] by simp
  then show ?thesis
    using assms d by (auto simp: verify_def split: option.splits if_splits)
qed

lemma state_roundtrip:
  assumes "js_unmarshal jc (js_marshal jc \<lparr>oc_Nonce = n, oc_Redirect = r, oc_Expires = unix (t0 + ttl)\<rparr>)
    = Some \<lparr>oc_Nonce = n, oc_Redirect = r, oc_Expires = unix (t0 + ttl)\<rparr>"
  shows "VerifyState hm jc m t (SignState hm jc m t0 n r ttl) n' = (if n' = n \<and> unix t < unix (t0 + ttl) then Some r else None)"
  using assms by (auto simp: VerifyState_def SignState_def)

section \<open>Passwords\<close>

lemma Atoi_itoa:
  assumes "int n \<le> max_int64"
  shows "Atoi (itoa n) = Some (int n)"
proof -
  have digits: "48 \<le> byte c \<and> byte c < 58" if "c \<in> set (itoa n)" for c
    using itoa_chars [OF that] by (simp add: byte_def)
  obtain c cs where i: "itoa n = c # cs" using itoa_nonempty by (cases "itoa n") auto
  then have c: "c \<noteq> CHR ''-''" "c \<noteq> CHR ''+''" using digits [of c] by (auto simp: byte_def)
  have all: "\<not> list_ex (\<lambda>c. byte c < 48 \<or> 57 < byte c) (itoa n)" using digits by (force simp: list_ex_iff)
  have "(case itoa n of [] \<Rightarrow> (False, []) | c # cs \<Rightarrow>
      if c = CHR ''-'' then (True, cs) else if c = CHR ''+'' then (False, cs) else (False, itoa n)) = (False, itoa n)"
    using c by (simp add: i)
  then show ?thesis unfolding Atoi_def using assms all itoa_nonempty [of n] by (simp add: atoi_itoa Let_def)
qed

lemma itoa_no_dollar: "CHR ''$'' \<notin> set (itoa n)"
  using itoa_chars [of "CHR ''$''" n] by auto

text \<open>
  A stored password accepts exactly its password. The string \<open>HashPassword\<close> makes of a password and a fresh
  16-byte salt is read back by \<open>VerifyPassword\<close> field by field, passes its floors, and accepts a password exactly
  when its PBKDF2 key under the same salt and work factor is the stored key; so it always accepts the password itself.
\<close>
theorem password_roundtrip:
  assumes "HashPassword kdf (Some salt) p = Some h" "length salt = 16"
    and "\<And>dk. kdf p salt (int pbkdf2Iter) 32 = Some dk \<Longrightarrow> length dk = 32"
  shows "VerifyPassword kdf h q \<longleftrightarrow> kdf q salt (int pbkdf2Iter) 32 = kdf p salt (int pbkdf2Iter) 32"
proof -
  obtain dk where dk: "kdf p salt (int pbkdf2Iter) 32 = Some dk" "length dk = 32"
    and h: "h = ''pbkdf2$sha256$'' @ itoa pbkdf2Iter @ ''$'' @ b64_encode std_alphabet salt @ ''$'' @ b64_encode std_alphabet dk"
    using assms(1,3) by (auto simp: HashPassword_def split: option.splits)
  have parts: "split_at (CHR ''$'') h = [''pbkdf2'', ''sha256'', itoa pbkdf2Iter, b64_encode std_alphabet salt, b64_encode std_alphabet dk]"
    using split_at_cut [OF itoa_no_dollar] b64std.split_enc unfolding h by simp
  have iter: "Atoi (itoa pbkdf2Iter) = Some (int pbkdf2Iter)" by (rule Atoi_itoa) (simp add: pbkdf2Iter_def)
  show ?thesis
    unfolding VerifyPassword_def parts using assms(2) dk
    by (simp add: iter [unfolded pbkdf2Iter_def, simplified] b64std.dec_enc minDKLen_def minPBKDF2Iter_def pbkdf2Iter_def split: option.split)
qed

text \<open>A key derivation to run the examples on: the password, cut or padded to the length.\<close>

definition ex_kdf :: pbkdf2 where
  "ex_kdf p salt iter n = Some (take n (p @ replicate n (CHR ''x'')))"

theorem password_roundtrip_witness:
  "\<exists>h. HashPassword ex_kdf (Some (replicate 16 (CHR ''s''))) ''open'' = Some h \<and> VerifyPassword ex_kdf h ''open'' \<and> \<not> VerifyPassword ex_kdf h ''guess''"
proof -
  obtain h where h: "HashPassword ex_kdf (Some (replicate 16 (CHR ''s''))) ''open'' = Some h"
    by (simp add: HashPassword_def ex_kdf_def)
  have v: "VerifyPassword ex_kdf h q \<longleftrightarrow> ex_kdf q (replicate 16 (CHR ''s'')) (int pbkdf2Iter) 32 = ex_kdf ''open'' (replicate 16 (CHR ''s'')) (int pbkdf2Iter) 32" for q
    by (rule password_roundtrip [OF h]) (auto simp: ex_kdf_def)
  have "VerifyPassword ex_kdf h ''open''" "\<not> VerifyPassword ex_kdf h ''guess''"
    unfolding v by (simp_all add: ex_kdf_def numeral_eq_Suc)
  with h show ?thesis by blast
qed

section \<open>Logins\<close>

text \<open>
  JSON reads back what it wrote: the documented behaviour of \<open>encoding/json\<close> on structs of strings, booleans and
  integers whose strings are UTF-8 text, which is all a JSON body or a configuration file delivers.
\<close>

definition json_ok :: "'a json \<Rightarrow> bool" where
  "json_ok js \<longleftrightarrow> (\<forall>x. js_unmarshal js (js_marshal js x) = Some x)"

lemma Decode_Encode:
  "json_ok js \<Longrightarrow> session_Decode hm js m t (session_Encode hm js m s) = (if unix t < se_Expires s then Some s else None)"
  by (simp add: session_Decode_def session_Encode_def json_ok_def)

lemma adminSession_Issue:
  "json_ok js \<Longrightarrow> adminSession hm js (Some m) t (Some (ck_Value (Issue hm js m s))) \<longleftrightarrow> se_Admin s \<and> unix t < se_Expires s"
  by (simp add: adminSession_def SessionFrom_def Issue_def Decode_Encode)

text \<open>The two ways to log in, and who may.\<close>

datatype login =
    LocalForm "gostring + gostring \<times> gostring"
  | Callback gostring "gostring option" gostring gostring \<comment> \<open>provider, nonce cookie, state, code\<close>

fun handle_login ::
  "hmac \<Rightarrow> session json \<Rightarrow> stateClaim json \<Rightarrow> pbkdf2 \<Rightarrow> consoleServer \<Rightarrow> instant \<Rightarrow> login \<Rightarrow> console_reply \<times> cookie list" where
  "handle_login hm js jc kdf cv now (LocalForm bdy) = handleConsoleLoginLocal hm js kdf (cv_console cv) now bdy"
| "handle_login hm js jc kdf cv now (Callback provider nonce state code) =
     handleOAuthCallback hm js jc cv now provider nonce state code"

fun authorised :: "hmac \<Rightarrow> stateClaim json \<Rightarrow> pbkdf2 \<Rightarrow> consoleServer \<Rightarrow> instant \<Rightarrow> login \<Rightarrow> bool" where
  "authorised hm jc kdf cv now (LocalForm bdy) \<longleftrightarrow>
     (\<exists>u pw acct. bdy = Inr (u, pw) \<and> mget (mg_accounts (cv_console cv)) u = Some acct \<and>
        VerifyPassword kdf (ct_PWHash acct) pw \<and> ct_Admin acct)"
| "authorised hm jc kdf cv now (Callback provider nonce state code) \<longleftrightarrow>
     (\<exists>p n email nm. mget (cv_oauth cv) provider = Some p \<and> nonce = Some n \<and>
        VerifyState hm jc (cv_console cv) now state n \<noteq> None \<and>
        idp_FetchIdentity p code (oauthRedirectURI cv provider) = Inr (email, nm) \<and> email \<noteq> [] \<and>
        AdminForEmail (cv_console cv) email)"

text \<open>Trimming and lower-casing an address twice changes nothing more.\<close>

lemma to_lower_idem: "to_lower_char (to_lower_char c) = to_lower_char c"
  by (auto simp: to_lower_char_def Let_def of_char_of)

lemma is_space_lower: "is_space (to_lower_char c) = is_space c"
  by (auto simp: to_lower_char_def is_space_def Let_def of_char_of)

lemma dropWhile_lower: "dropWhile is_space (map to_lower_char s) = map to_lower_char (dropWhile is_space s)"
  by (induction s) (simp_all add: is_space_lower)

lemma Trim_lower: "TrimSpace (ToLower s) = ToLower (TrimSpace s)"
  by (simp add: TrimSpace_def ToLower_def dropWhile_lower rev_map)

lemma last_dropWhile: "dropWhile P xs \<noteq> [] \<Longrightarrow> last (dropWhile P xs) = last xs"
  by (induction xs) (auto split: if_splits)

lemma dropWhile_head: "dropWhile P (dropWhile P xs) = dropWhile P xs"
  by (induction xs) auto

lemma Trim_idem: "TrimSpace (TrimSpace s) = TrimSpace s"
proof -
  let ?d = "dropWhile is_space"
  let ?r = "rev (?d s)"
  have "?d (rev (?d ?r)) = rev (?d ?r)"
  proof (cases "rev (?d ?r)")
    case (Cons c cs)
    then have "?d ?r = rev cs @ [c]" by (metis rev.simps(2) rev_rev_ident)
    then have "last (?d ?r) = c" "?d ?r \<noteq> []" by simp_all
    then have c: "c = last ?r" "?d s \<noteq> []"
      using last_dropWhile [of is_space ?r] by (simp, metis dropWhile.simps(1) rev.simps(1))
    then have "c = hd (?d s)" by (simp add: last_rev)
    then have "\<not> is_space c" using hd_dropWhile [OF c(2)] by simp
    then show ?thesis by (simp add: Cons)
  next
    case Nil
    show ?thesis unfolding Nil by simp
  qed
  then show ?thesis unfolding TrimSpace_def by (simp add: dropWhile_head)
qed

lemma AdminForEmail_norm: "AdminForEmail m (ToLower (TrimSpace e)) = AdminForEmail m e"
proof -
  have "ToLower (TrimSpace (ToLower (TrimSpace e))) = ToLower (TrimSpace e)"
    by (simp add: Trim_lower Trim_idem) (simp add: ToLower_def to_lower_idem)
  then show ?thesis by (simp add: AdminForEmail_def)
qed


text \<open>A JSON of sessions, a state, and a server with one provider, to run the examples on.\<close>

definition ex_json :: "session json" where
  "ex_json =
     \<lparr>js_marshal = \<lambda>s. b64_encode std_alphabet (se_Subject s) @ ''$'' @ b64_encode std_alphabet (se_Name s) @ ''$'' @
        b64_encode std_alphabet (se_Provider s) @ ''$'' @ (if se_Admin s then ''1'' else ''0'') @ ''$'' @
        (if se_Expires s < 0 then ''-'' else ''+'') @ ''$'' @ itoa (nat \<bar>se_Expires s\<bar>),
      js_unmarshal = \<lambda>x. (case split_at (CHR ''$'') x of
        [a, b, c, d, e, f] \<Rightarrow>
          (case (b64_decode std_alphabet a, b64_decode std_alphabet b, b64_decode std_alphabet c) of
             (Some sub, Some nm, Some prov) \<Rightarrow>
               Some \<lparr>se_Subject = sub, se_Name = nm, se_Provider = prov, se_Admin = (d = ''1''),
                 se_Expires = (if e = ''-'' then - int (atoi f) else int (atoi f))\<rparr>
           | _ \<Rightarrow> None)
      | _ \<Rightarrow> None)\<rparr>"

lemma ex_json_ok: "json_ok ex_json"
proof -
  have last: "split_at (CHR ''$'') (itoa n) = [itoa n]" for n
  proof -
    have "CHR ''$'' \<notin> set x \<Longrightarrow> split_at (CHR ''$'') x = [x]" for x by (induction x) auto
    then show ?thesis using itoa_no_dollar by blast
  qed
  have "js_unmarshal ex_json (js_marshal ex_json s) = Some s" for s
    by (cases s) (auto simp: ex_json_def b64std.split_enc b64std.dec_enc last atoi_itoa)
  then show ?thesis by (simp add: json_ok_def)
qed

definition ex_state_json :: "stateClaim json" where
  "ex_state_json =
     \<lparr>js_marshal = \<lambda>_. ''state'', js_unmarshal = \<lambda>_. Some \<lparr>oc_Nonce = ''n'', oc_Redirect = ''/console'', oc_Expires = 600\<rparr>\<rparr>"

definition ex_console :: consoleServer where
  "ex_console =
     \<lparr>cv_console = \<lparr>mg_secret = replicate 32 (CHR ''k''), mg_ttl = 3600 * second, mg_accounts = [],
        mg_adminEmail = [''ops@acme.com''], mg_adminDom = [], mg_cookie = ''heave_console'', mg_secure = True\<rparr>,
      cv_oauth = [(''google'', \<lparr>idp_AuthCodeURL = \<lambda>st r. st, idp_FetchIdentity = \<lambda>c r. Inr (''Ops@Acme.com'', ''Op'')\<rparr>)],
      cv_baseURL = ''https://gw'', cv_secure = True\<rparr>"

definition ex_callback :: login where
  "ex_callback = Callback ''google'' (Some ''n'') (sign (\<lambda>k m. m) (mg_secret (cv_console ex_console)) ''state'') ''code''"


section \<open>The post-login redirect\<close>

text \<open>What the filter guarantees, and what it does not: a tab, which browsers drop, may hide a second slash.\<close>

lemma safeReturnPath_local:
  "hd (safeReturnPath p) = CHR ''/'' \<and> take 2 (safeReturnPath p) \<noteq> ''//'' \<and>
   (\<forall>c\<in>set (safeReturnPath p). c \<notin> {CHR 0x5C, CHR 0x0D, CHR 0x0A, NUL})"
  by (auto simp: safeReturnPath_def list_ex_iff)

lemma tab_hides_slash:
  "safeReturnPath (''/'' @ [CHR 0x09] @ ''/evil'') = ''/'' @ [CHR 0x09] @ ''/evil'' \<and>
   filter (\<lambda>c. c \<noteq> CHR 0x09) (safeReturnPath (''/'' @ [CHR 0x09] @ ''/evil'')) = ''//evil''"
  by code_simp

end
