(* ===== verification/GuardProps.thy ===== *)
theory GuardProps
  imports GuardAPI FirewallTickets ScopeStoreCaps ConsoleProps
begin

text \<open>
  The properties of the decision API: a reservation leaves no local hold behind, its token is read back exactly, and
  it is reconciled at most once across the replicas.
\<close>

section \<open>No local hold survives a reserve\<close>

text \<open>What an admission through the shared store adds to the in-flight counts: the keys of a local ticket.\<close>

definition local_keys :: "fw_error + 'w ticket \<Rightarrow> gostring list" where
  "local_keys r = (case r of Inl _ \<Rightarrow> [] | Inr tk \<Rightarrow> tk_scopeKeys tk)"

definition held_ticket :: "fw_error + 'w ticket \<Rightarrow> bool" where
  "held_ticket r \<longleftrightarrow> (\<forall>tk. r = Inr tk \<longrightarrow> \<not> tk_released tk \<and> (tk_scopeKeys tk \<noteq> [] \<longrightarrow> tk_fw tk \<and> tk_store tk = None))"

lemma reserveScopesLocal_holds:
  assumes "scopes_ok (fw_scopes f)" "0 \<le> u" "0 \<le> t" "reserveScopesLocal scs bk u t now f = (r, f')"
  shows "scopes_ok (fw_scopes f') \<and> held_ticket r \<and>
    inflight (fw_scopes f') k = inflight (fw_scopes f) k + int (count_list (local_keys r) k)"
proof (cases "checkReserveScopesLocked scs u t now (fw_scopes f)")
  case (Pair res m)
  show ?thesis
  proof (cases res)
    case (Inl e)
    note d = checkReserve_denied [OF assms(1) Pair [unfolded Inl]]
    have "inflight (adjustRunUSD bk (- u) m) k = inflight (fw_scopes f) k"
      using d(2) adjustRunUSD_load(1) [of "unix now" m bk "- u"] by (simp add: same_load_def)
    then show ?thesis using assms(4) Pair Inl d(1)
      by (auto simp: reserveScopesLocal_cases local_keys_def held_ticket_def adjustRunUSD_ok)
  next
    case (Inr ks)
    note a = checkReserve_admitted [OF assms(1) Pair [unfolded Inr] assms(2,3)]
    show ?thesis using assms(4) Pair Inr a(2) a(4) [of k]
      by (auto simp: reserveScopesLocal_cases local_keys_def held_ticket_def zero_ticket_def)
  qed
qed

lemma enterShared_holds:
  assumes "fw_ok f" "0 \<le> u" "0 \<le> t" "enterShared ss scs r h c u t hold now f w = (res, f', w')"
  shows "scopes_ok (fw_scopes f') \<and> held_ticket res \<and>
    inflight (fw_scopes f') k = inflight (fw_scopes f) k + int (count_list (local_keys res) k)"
proof -
  let ?g = "fw_gcLocked (now 1) f"
  let ?lb = "checkLoopBudgetLocked r h u c (now 1) ?g"
  let ?f1 = "snd ?lb"
  have ok: "scopes_ok (fw_scopes ?g)" using gc_ok [OF assms(1)] by (simp add: fw_ok_def)
  have lb: "scopes_ok (fw_scopes ?f1)" "same_load (unix (now 1)) (fw_scopes ?g) (fw_scopes ?f1)"
    using checkLoopBudget_load [OF ok assms(2) refl refl] by blast+
  have base: "inflight (fw_scopes ?f1) k = inflight (fw_scopes f) k"
    using lb(2) gc_load [of f "now 1"] assms(1) by (simp add: same_load_def fw_ok_def)
  obtain keys ns mu mt mc where caps: "sharedCaps scs = (keys, ns, mu, mt, mc)" by (metis prod_cases5)
  obtain adm dn dk err w1 where rsv: "ss_Reserve ss keys ns mu mt mc u t hold w = ((adm, dn, dk, err), w1)"
    by (metis prod_cases4 surj_pair)
  obtain l f2 where loc: "reserveScopesLocal scs (snd (fst ?lb)) u t (now 2) (?f1\<lparr>fw_scopeDegraded := Suc (fw_scopeDegraded ?f1)\<rparr>) = (l, f2)"
    by force
  have l: "scopes_ok (fw_scopes f2) \<and> held_ticket l \<and>
      inflight (fw_scopes f2) k = inflight (fw_scopes ?f1) k + int (count_list (local_keys l) k)"
    using reserveScopesLocal_holds [OF _ assms(2,3) loc] lb(1) by simp
  have adj: "inflight (adjustRunUSD b d m) k = inflight m k" for b d m
    using adjustRunUSD_load(1) [of 0 m b d] by (simp add: same_load_def)
  obtain fk wk where kill: "snd (doKill (now 2) r ?f1 w) = (fk, wk)" by force
  then have fk: "fw_scopes fk = fw_scopes ?f1" using doKill_frame(3) [of "now 2" r ?f1 w] by simp
  show ?thesis
    using assms(4) lb(1) base l adj fk
    unfolding enterShared_cases caps Let_def rsv case_prod_conv fst_conv snd_conv loc kill
    by (cases "fst (fst ?lb)"; cases "keys = []"; cases err; cases adm)
      (auto simp: local_keys_def held_ticket_def zero_ticket_def adjustRunUSD_ok)
qed

lemma enterChain_holds:
  assumes "fw_ok f" "fw_scopeStore f \<noteq> None" "enterChain scs r h c u t hold now f w = (res, f', w')"
  shows "scopes_ok (fw_scopes f') \<and> held_ticket res \<and>
    inflight (fw_scopes f') k = inflight (fw_scopes f) k + int (count_list (local_keys res) k)"
proof -
  obtain ss where ss: "fw_scopeStore f = Some ss" using assms(2) by auto
  obtain dead f1 w1 where dead: "isKilled (now 0) r f w = (dead, f1, w1)" by (metis prod_cases3)
  then have f1: "fw_scopes f1 = fw_scopes f" "fw_loops f1 = fw_loops f" "fw_scopeStore f1 = Some ss"
    using isKilled_frame(3,4,6) [of "now 0" r f w] ss by simp_all
  have "ks_ok (fw_localKills f1)"
    using kills_ok(1) [of f "now 0" r w] assms(1) dead by (simp add: fw_ok_def)
  then have ok: "fw_ok f1" using assms(1) f1 by (simp add: fw_ok_def)
  show ?thesis
  proof (cases dead)
    case True
    then show ?thesis using assms(1,3) dead f1 by (auto simp: enterChain_def local_keys_def held_ticket_def fw_ok_def)
  next
    case False
    then have "enterShared ss scs r h c (max 0 u) (max 0 t) hold now f1 w1 = (res, f', w')"
      using assms(3) dead f1(3) by (simp add: enterChain_def clamp_usd clamp_tok Let_def)
    from enterShared_holds [OF ok _ _ this] f1(1) show ?thesis by simp
  qed
qed

lemma guard_enter_holds:
  assumes "fw_ok (sv_firewall s)" "fw_scopeStore (sv_firewall s) \<noteq> None" "guard_enter en key b scs gov s w = (res, f', w')"
  shows "scopes_ok (fw_scopes f') \<and> held_ticket res \<and>
    inflight (fw_scopes f') k = inflight (fw_scopes (sv_firewall s)) k + int (count_list (local_keys res) k)"
proof -
  have ok: "scopes_ok (fw_scopes (sv_firewall s))" using assms(1) by (simp add: fw_ok_def)
  consider scs' r c where "enterChain scs' r [] c (gb_USD b) (gb_Tokens b) (en_random en w 1) (\<lambda>i. en_now en w (3 + i)) (sv_firewall s) w = (res, f', w')"
    | "res = Inr zero_ticket" "f' = sv_firewall s" | "res = Inl ErrBadChain" "f' = sv_firewall s"
    using assms(3) by (auto simp: guard_enter_def fw_EnterChain_def fw_Enter_def Let_def split: if_splits option.splits prod.splits)
  then show ?thesis
  proof cases
    case 1
    from enterChain_holds [OF assms(1,2) this] show ?thesis .
  qed (use ok in \<open>simp_all add: local_keys_def held_ticket_def zero_ticket_def\<close>)
qed

lemma guard_issue_holds:
  assumes "scopes_ok (fw_scopes f)" "held_ticket (Inr tk)" "guard_issue en ga nonce tk f w = (rep, f', w')"
  shows "inflight (fw_scopes f') k = max 0 (inflight (fw_scopes f) k - int (count_list (tk_scopeKeys tk) k))"
proof (cases "tk_scopeKeys tk = []")
  case True
  have rel: "inflight (fw_scopes f2) k = inflight (fw_scopes f) k" if "tk_Release n tk f w0 = (tk2, f2, w2)" for n w0 tk2 f2 w2
  proof (cases "tk_store tk")
    case None
    then show ?thesis using tk_Release_local(5) [OF None that assms(1)] inflight_nonneg [OF assms(1), of k] True by simp
  next
    case (Some ss)
    have adj: "inflight (adjustRunUSD b d m) k = inflight m k" for b d m
      using adjustRunUSD_load(1) [of 0 m b d] by (simp add: same_load_def)
    show ?thesis using that Some True adj by (auto simp: tk_Release_def Let_def split: if_splits option.splits prod.splits)
  qed
  show ?thesis using assms(3) True rel inflight_nonneg [OF assms(1), of k]
    by (auto simp: guard_issue_def tk_Reservation_def Let_def split: option.splits prod.splits)
next
  case False
  then have tk: "tk_fw tk" "tk_store tk = None" "\<not> tk_released tk" using assms(2) by (auto simp: held_ticket_def)
  obtain tk1 f1 w1 where r1: "tk_Release (en_now en w 16) tk f w = (tk1, f1, w1)" by (metis prod_cases3)
  have once: "tk1 = tk\<lparr>tk_released := True\<rparr>" using tk_Release_local(3) [OF tk(2) r1] tk(1) by simp
  have "f' = f1" using assms(3) False tk(2) r1
    by (auto simp: guard_issue_def tk_Reservation_def once tk_Release_def [of _ "tk\<lparr>tk_released := True\<rparr>"] Let_def split: option.splits)
  then show ?thesis using tk_Release_local(5) [OF tk(2) r1 assms(1), of k] tk by simp
qed

lemma handleGuardReserve_cases:
  assumes "handleGuardReserve en ga nonce ca bdy s w = Some (rep, s', w')"
  obtains (stopped) "s' = s" "\<And>r. rep = Verdict r \<Longrightarrow> \<not> gr_Admitted r"
  | (denied) key b scs gov e f w1 where "guard_enter en key b scs gov s w = (Inl e, f, w1)" "s' = s\<lparr>sv_firewall := f\<rparr>"
      "rep = Verdict (guardDeny e)"
  | (admitted) key b scs gov tk f w1 f2 where "guard_enter en key b scs gov s w = (Inr tk, f, w1)"
      "guard_issue en ga nonce tk f w1 = (rep, f2, w')" "s' = s\<lparr>sv_firewall := f2\<rparr>"
proof -
  show thesis
  proof (cases "admin_gate en ca s")
    case (Some r)
    then show thesis using assms by (intro stopped) (auto simp: handleGuardReserve_def)
  next
    case gate: None
    show thesis
    proof (cases "decodeAdmin bdy")
      case (Inl r)
      then show thesis using assms gate by (intro stopped) (auto simp: handleGuardReserve_def)
    next
      case (Inr b)
      let ?key = "ToLower (TrimSpace (gb_KeySHA256 b))"
      let ?bad = "gb_RunID b \<noteq> [] \<and> \<not> validRunID (gb_RunID b) \<or> ?key = [] \<or>
        gb_USD b < 0 \<or> gb_USD b > maxGuardEstUSD \<or> gb_Tokens b < 0 \<or> gb_Tokens b > maxGuardEstTokens"
      show thesis
      proof (cases ?bad)
        case True
        then show thesis using assms gate Inr by (intro stopped) (auto simp: handleGuardReserve_def Let_def split: if_splits)
      next
        case ok: False
        then obtain scopes killedBy governed rerr where chain: "resolveChain ?key (gb_RunID b) s = Some (scopes, killedBy, governed, rerr)"
          using assms gate Inr by (cases "resolveChain ?key (gb_RunID b) s") (auto simp: handleGuardReserve_def Let_def)
        show thesis
        proof (cases "rerr \<noteq> None \<or> governed \<and> killedBy \<noteq> []")
          case True
          then show thesis using assms gate Inr ok chain
            by (intro stopped) (auto simp: handleGuardReserve_def Let_def denial_def split: if_splits)
        next
          case False
          have run: "handleGuardReserve en ga nonce ca bdy s w = (case guard_enter en ?key b scopes governed s w of
              (Inl ferr, f, w1) \<Rightarrow> Some (Verdict (guardDeny ferr), s\<lparr>sv_firewall := f\<rparr>, w1)
            | (Inr tk, f, w1) \<Rightarrow>
                (let (rep, f2, w2) = guard_issue en ga nonce tk f w1 in Some (rep, s\<lparr>sv_firewall := f2\<rparr>, w2)))"
            using gate Inr ok chain False by (auto simp: handleGuardReserve_def Let_def)
          obtain res f w1 where enter: "guard_enter en ?key b scopes governed s w = (res, f, w1)" by (metis prod_cases3)
          show thesis
          proof (cases res)
            case (Inl e)
            then show thesis using assms denied run enter by simp
          next
            case (Inr tk)
            obtain r2 f2 w2 where "guard_issue en ga nonce tk f w1 = (r2, f2, w2)" by (metis prod_cases3)
            then show thesis using assms admitted run enter Inr by simp
          qed
        qed
      qed
    qed
  qed
qed

text \<open>
  C28. A reserve leaves no local hold. The decision API runs only with a shared store, whose holds expire by
  themselves; when the store is unreachable the firewall falls back to a local hold, which nothing would ever reap.
  Whatever a reserve answers - admitted through the store, admitted in the fallback, denied, or unable to issue the
  token - every in-flight count of the replica is afterwards what it was before the call.
\<close>
theorem guard_leaves_no_local_hold:
  assumes "handleGuardReserve en ga nonce ca bdy s w = Some (rep, s', w')"
    and "fw_ok (sv_firewall s)" "fw_scopeStore (sv_firewall s) \<noteq> None"
  shows "inflight (fw_scopes (sv_firewall s')) k = inflight (fw_scopes (sv_firewall s)) k"
proof -
  have nn: "0 \<le> inflight (fw_scopes (sv_firewall s)) k"
    by (rule inflight_nonneg) (use assms(2) in \<open>simp add: fw_ok_def\<close>)
  from assms(1) show ?thesis
  proof (cases rule: handleGuardReserve_cases)
    case stopped
    then show ?thesis by simp
  next
    case (denied key b scs gov e f w1)
    from guard_enter_holds [OF assms(2,3) denied(1), of k] denied(2) show ?thesis by (simp add: local_keys_def)
  next
    case (admitted key b scs gov tk f w1 f2)
    from guard_enter_holds [OF assms(2,3) admitted(1), of k]
    have h: "scopes_ok (fw_scopes f)" "held_ticket (Inr tk :: fw_error + 'a ticket)"
      "inflight (fw_scopes f) k = inflight (fw_scopes (sv_firewall s)) k + int (count_list (tk_scopeKeys tk) k)"
      by (simp_all add: local_keys_def)
    from guard_issue_holds [OF h(1,2) admitted(2), of k] h(3) admitted(3) nn show ?thesis by simp
  qed
qed

section \<open>Reservation tokens\<close>

definition claim_of :: "'w guardAPI \<Rightarrow> gostring \<Rightarrow> instant \<Rightarrow> reservation \<Rightarrow> reservationClaim" where
  "claim_of ga n t0 r = \<lparr>rc_R = r, rc_Nonce = n, rc_Exp = unix (t0 + reservationTTL ga)\<rparr>"

text \<open>JSON reads this claim back: the documented behaviour of \<open>encoding/json\<close>.\<close>

definition claim_json :: "'w guardAPI \<Rightarrow> reservationClaim \<Rightarrow> bool" where
  "claim_json ga c \<longleftrightarrow> js_unmarshal (ga_json ga) (js_marshal (ga_json ga) c) = Some c"

lemma verify_reservation:
  assumes "signReservation ga (Some n) t0 r = Some token" "claim_json ga (claim_of ga n t0 r)"
  shows "verifyReservation ga t token = Some (claim_of ga n t0 r, unix (t0 + reservationTTL ga) \<le> unix t)"
proof -
  have "token = sign (ga_hmac ga) (ga_secret ga) (js_marshal (ga_json ga) (claim_of ga n t0 r))"
    using assms(1) by (simp add: signReservation_def claim_of_def Let_def)
  then show ?thesis using assms(2) by (simp add: verifyReservation_def claim_json_def) (simp add: claim_of_def)
qed

section \<open>Reconciling\<close>

datatype reconcile = SettleCall usd int | ReleaseCall

fun handle_reconcile ::
  "'w env \<Rightarrow> 'w guardAPI \<Rightarrow> caller \<Rightarrow> gostring \<Rightarrow> reconcile \<Rightarrow> 'w server \<Rightarrow> 'w \<Rightarrow> guard_reply \<times> 'w server \<times> 'w" where
  "handle_reconcile en ga ca token (SettleCall u t) s w =
     handleGuardSettle en ga ca (Inr \<lparr>gs_ReservationID = token, gs_USD = u, gs_Tokens = t\<rparr>) s w"
| "handle_reconcile en ga ca token ReleaseCall s w = handleGuardRelease en ga ca (Inr token) s w"

lemma reconcile_claims:
  assumes "handle_reconcile en ga ca token rq s w = (rep, s', w')"
    and "verifyReservation ga (en_now en w 0) token = Some (c, expired)"
  shows "rep \<noteq> Reconciled True \<and> s' = s \<or> rep = Reconciled True \<and> \<not> expired \<and> fst (claimReconcile ga (rc_Nonce c) w)"
proof (cases "admin_gate en ca s")
  case (Some r)
  then show ?thesis using assms(1) by (cases rq) (auto simp: handleGuardSettle_def handleGuardRelease_def)
next
  case None
  obtain claimed w1 where cl: "claimReconcile ga (rc_Nonce c) w = (claimed, w1)" by force
  show ?thesis
  proof (cases rq)
    case (SettleCall u t)
    then show ?thesis using assms None cl
      by (cases expired; cases claimed) (auto simp: handleGuardSettle_def decodeAdmin_def Let_def split: prod.splits)
  next
    case ReleaseCall
    then show ?thesis using assms None cl
      by (cases expired; cases claimed) (auto simp: handleGuardRelease_def decodeAdmin_def Let_def split: prod.splits)
  qed
qed

lemma claimReconcile_reply:
  assumes "ga_dedup ga = ClaimReconcile st" "ClaimReconcile st n (seconds_of (reservationTTL ga)) w = (Inr b, v)"
  shows "claimReconcile ga n w = (b, v)"
  using assms by (simp add: claimReconcile_def)


text \<open>A replica with authentication off, on the in-memory store.\<close>

definition ex_guard :: "mem_world guardAPI" where
  "ex_guard = \<lparr>ga_secret = replicate 32 (CHR ''k''), ga_dedup = ClaimReconcile ex_store, ga_timeout = 120 * second,
     ga_hmac = \<lambda>k m. m,
     ga_json = \<lparr>js_marshal = \<lambda>_. ''claim'',
       js_unmarshal = \<lambda>_. Some \<lparr>rc_R = empty_reservation, rc_Nonce = ''n'', rc_Exp = 180\<rparr>\<rparr>\<rparr>"

definition ex_genv :: "mem_world env" where
  "ex_genv = \<lparr>en_chat = \<lambda>_ _ w. (Inl (OtherError [] False), w), en_stream = \<lambda>_ _ w. (([], Inl (OtherError [] False)), w),
     en_ctx_done = \<lambda>_. False, en_now = \<lambda>w _. mem_T w, en_random = \<lambda>_ _. ''h'', en_sha256hex = \<lambda>x. x, en_flusher = True\<rparr>"

definition ex_replica :: "mem_world server" where
  "ex_replica = server_New (router_New [] []) {} ledger_New None None None None None None"

definition ex_gworld :: "int \<Rightarrow> (gostring \<times> instant) list \<Rightarrow> mem_world" where
  "ex_gworld n ks = \<lparr>mw_hash = (\<lambda>_. []), mw_zset = (\<lambda>_. []), mw_keys = ks, mw_now = n\<rparr>"


text \<open>A denied request on the same replica.\<close>

theorem guard_leaves_no_local_hold_witness:
  "\<exists>rep s' w'. handleGuardReserve ex_genv ex_guard (Some ''n'') \<lparr>ca_authorization = [], ca_adminSession = False\<rparr>
       (Inr \<lparr>gb_KeySHA256 = ''ab'', gb_RunID = ''r'', gb_USD = 1, gb_Tokens = 10\<rparr>)
       (ex_replica\<lparr>sv_firewall := ex_shared_fw\<rparr>) ex_world = Some (rep, s', w') \<and>
     inflight (fw_scopes (sv_firewall s')) ''key:ab'' = inflight (fw_scopes ex_shared_fw) ''key:ab''"
proof -
  let ?s = "ex_replica\<lparr>sv_firewall := ex_shared_fw\<rparr>"
  let ?h = "handleGuardReserve ex_genv ex_guard (Some ''n'') \<lparr>ca_authorization = [], ca_adminSession = False\<rparr>
       (Inr \<lparr>gb_KeySHA256 = ''ab'', gb_RunID = ''r'', gb_USD = 1, gb_Tokens = 10\<rparr>) ?s ex_world"
  have "sv_resolver ?s = None" by (simp add: ex_replica_def server_New_def)
  then have "?h \<noteq> None"
    by (auto simp: handleGuardReserve_def resolveChain_def Let_def simp del: not_None_eq split: option.splits sum.splits prod.splits)
  then obtain rep s' w' where h: "?h = Some (rep, s', w')" by auto
  have "fw_ok ex_shared_fw" "fw_scopeStore ex_shared_fw \<noteq> None" 
    using fw_New_ok [of True zero_limits, where 'a = mem_world] by (simp_all add: fw_ok_def ex_shared_fw_def WithScopeStore_def)
  with guard_leaves_no_local_hold [OF h, of "''key:ab''"] h show ?thesis by simp
qed

end
