(* ===== verification/Redact.thy ===== *)
theory Redact
  imports Wire
begin

text \<open>
  The redactor of \<open>internal/redact/redact.go\<close>: the built-in rules as regular expressions over bytes, Go's leftmost-first
  matching of them, \<open>ReplaceAllStringFunc\<close>, the Luhn gate, and the operator's own patterns.

  A matcher tells the length of the leftmost-first match at a position, given the byte before it and the rest of the
  text, which is all a Go regular expression may look at. \<open>regexp.Compile\<close> of the operator's patterns is an argument.
\<close>

section \<open>Regular expressions\<close>

datatype re = Eps | Cls "char \<Rightarrow> bool" | Cat re re | Alt re re | Star re | WordB

type_synonym pos = "char option \<times> gostring" \<comment> \<open>the byte before, and the rest\<close>

definition digit :: "char \<Rightarrow> bool" where "digit c \<longleftrightarrow> (let n = of_char c :: nat in 48 \<le> n \<and> n \<le> 57)"
definition upper :: "char \<Rightarrow> bool" where "upper c \<longleftrightarrow> (let n = of_char c :: nat in 65 \<le> n \<and> n \<le> 90)"
definition lower :: "char \<Rightarrow> bool" where "lower c \<longleftrightarrow> (let n = of_char c :: nat in 97 \<le> n \<and> n \<le> 122)"

definition alnum :: "char \<Rightarrow> bool" where "alnum c \<longleftrightarrow> digit c \<or> upper c \<or> lower c"
definition word_char :: "char \<Rightarrow> bool" where "word_char c \<longleftrightarrow> alnum c \<or> c = CHR ''_''"

definition word_boundary :: "pos \<Rightarrow> bool" where
  "word_boundary p \<longleftrightarrow>
     (case fst p of None \<Rightarrow> False | Some c \<Rightarrow> word_char c) \<noteq> (case snd p of [] \<Rightarrow> False | c # _ \<Rightarrow> word_char c)"

text \<open>All matches from a position, in the order in which a backtracking matcher prefers them.\<close>

function matches :: "re \<Rightarrow> pos \<Rightarrow> pos list" where
  "matches Eps p = [p]"
| "matches (Cls P) p = (case snd p of [] \<Rightarrow> [] | c # cs \<Rightarrow> if P c then [(Some c, cs)] else [])"
| "matches (Cat a b) p = concat (map (matches b) (matches a p))"
| "matches (Alt a b) p = matches a p @ matches b p"
| "matches (Star a) p =
     concat (map (\<lambda>q. if length (snd q) < length (snd p) then matches (Star a) q else []) (matches a p)) @ [p]"
| "matches WordB p = (if word_boundary p then [p] else [])"
  by pat_completeness auto
termination by (relation "measures [\<lambda>(r, p). size r, \<lambda>(r, p). length (snd p)]") auto

type_synonym matcher = "char option \<Rightarrow> gostring \<Rightarrow> nat option"

definition re_match :: "re \<Rightarrow> matcher" where
  "re_match r prev s = (case matches r (prev, s) of [] \<Rightarrow> None | q # _ \<Rightarrow> Some (length s - length (snd q)))"

fun seq_of :: "re list \<Rightarrow> re" where
  "seq_of [] = Eps"
| "seq_of (r # rs) = Cat r (seq_of rs)"

definition lit :: "gostring \<Rightarrow> re" where "lit s = seq_of (map (\<lambda>c. Cls (\<lambda>x. x = c)) s)"
definition one_of :: "gostring \<Rightarrow> re" where "one_of s = Cls (\<lambda>x. x \<in> set s)"
definition opt :: "re \<Rightarrow> re" where "opt r = Alt r Eps"

fun upto_times :: "nat \<Rightarrow> re \<Rightarrow> re" where
  "upto_times 0 r = Eps"
| "upto_times (Suc n) r = opt (Cat r (upto_times n r))"

definition times :: "nat \<Rightarrow> re \<Rightarrow> re" where "times n r = seq_of (replicate n r)"
definition at_least :: "nat \<Rightarrow> re \<Rightarrow> re" where "at_least n r = Cat (times n r) (Star r)"
definition between :: "nat \<Rightarrow> nat \<Rightarrow> re \<Rightarrow> re" where "between n m r = Cat (times n r) (upto_times (m - n) r)"

section \<open>Rules\<close>

record rule =
  ru_name :: gostring
  ru_match :: matcher
  ru_placeholder :: gostring
  ru_validate :: "(gostring \<Rightarrow> bool) option"

fun luhn_sum :: "bool \<Rightarrow> int list \<Rightarrow> int" where
  "luhn_sum double [] = 0"
| "luhn_sum double (d # ds) =
     (if double then (if 2 * d > 9 then 2 * d - 9 else 2 * d) else d) + luhn_sum (\<not> double) ds"

definition digits_of :: "gostring \<Rightarrow> int list" where
  "digits_of s = map (\<lambda>c. int (digit_val c)) (filter digit s)"

definition luhnValid :: "gostring \<Rightarrow> bool" where
  "luhnValid s =
     (let digits = digits_of s
      in if length digits < 13 \<or> length digits > 19 then False
         else luhn_sum False (rev digits) mod 10 = 0)"

definition word_or_dash :: "char \<Rightarrow> bool" where "word_or_dash c \<longleftrightarrow> word_char c \<or> c = CHR ''-''"
definition space :: re where "space = one_of '' -.''"

definition builtin_rule :: "gostring \<Rightarrow> re \<Rightarrow> gostring \<Rightarrow> (gostring \<Rightarrow> bool) option \<Rightarrow> rule" where
  "builtin_rule name r placeholder validate =
     \<lparr>ru_name = name, ru_match = re_match r, ru_placeholder = placeholder, ru_validate = validate\<rparr>"

definition builtinRules :: "rule list" where
  "builtinRules =
     [builtin_rule ''PRIVATE_KEY''
        (seq_of [lit ''-----BEGIN '', opt (Alt (lit ''RSA '') (Alt (lit ''EC '') (Alt (lit ''OPENSSH '') (lit ''PGP '')))),
          lit ''PRIVATE KEY-----'']) ''[REDACTED_PRIVATE_KEY]'' None,
      builtin_rule ''JWT''
        (seq_of [WordB, lit ''eyJ'', at_least 5 (Cls word_or_dash), lit ''.eyJ'', at_least 5 (Cls word_or_dash), lit ''.'',
          at_least 5 (Cls word_or_dash), WordB]) ''[REDACTED_JWT]'' None,
      builtin_rule ''AWS_ACCESS_KEY''
        (seq_of [WordB, Alt (lit ''AKIA'') (lit ''ASIA''), times 16 (Cls (\<lambda>c. digit c \<or> upper c)), WordB])
        ''[REDACTED_AWS_KEY]'' None,
      builtin_rule ''GCP_API_KEY''
        (seq_of [WordB, lit ''AIza'', times 35 (Cls word_or_dash), WordB]) ''[REDACTED_GCP_KEY]'' None,
      builtin_rule ''GITHUB_TOKEN''
        (seq_of [WordB, lit ''gh'', one_of ''posru'', lit ''_'', at_least 20 (Cls alnum), WordB])
        ''[REDACTED_GITHUB_TOKEN]'' None,
      builtin_rule ''SLACK_TOKEN''
        (seq_of [WordB, lit ''xox'', one_of ''baprs'', lit ''-'', at_least 10 (Cls (\<lambda>c. alnum c \<or> c = CHR ''-'')), WordB])
        ''[REDACTED_SLACK_TOKEN]'' None,
      builtin_rule ''API_KEY''
        (seq_of [WordB, Alt (Cat (lit ''sk-ant-'') (at_least 16 (Cls word_or_dash))) (Cat (lit ''sk-'') (at_least 16 (Cls alnum))),
          WordB]) ''[REDACTED_API_KEY]'' None,
      builtin_rule ''EMAIL''
        (seq_of [WordB, at_least 1 (Cls (\<lambda>c. alnum c \<or> c \<in> set ''._%+-'')), lit ''@'',
          at_least 1 (Cls (\<lambda>c. alnum c \<or> c \<in> set ''.-'')), lit ''.'', at_least 2 (Cls (\<lambda>c. upper c \<or> lower c)), WordB])
        ''[REDACTED_EMAIL]'' None,
      builtin_rule ''SSN''
        (seq_of [WordB, times 3 (Cls digit), lit ''-'', times 2 (Cls digit), lit ''-'', times 4 (Cls digit), WordB])
        ''[REDACTED_SSN]'' None,
      builtin_rule ''CREDIT_CARD''
        (seq_of [WordB, between 13 19 (Cat (Cls digit) (opt (one_of '' -''))), WordB]) ''[REDACTED_CC]'' (Some luhnValid),
      builtin_rule ''PHONE''
        (seq_of [WordB, opt (seq_of [opt (lit ''+''), between 1 2 (Cls digit), opt space]),
          Alt (seq_of [lit ''('', times 3 (Cls digit), lit '')'']) (times 3 (Cls digit)), opt space, times 3 (Cls digit),
          opt space, times 4 (Cls digit), WordB]) ''[REDACTED_PHONE]'' None]"

section \<open>Replacement\<close>

text \<open>
  \<open>ReplaceAllStringFunc\<close>: what a match becomes, and how often the function counted. An empty match right after another
  match is not replaced (\<open>after\<close>).
\<close>

function replace_all :: "matcher \<Rightarrow> (gostring \<Rightarrow> gostring \<times> nat) \<Rightarrow> char option \<Rightarrow> bool \<Rightarrow> gostring \<Rightarrow> gostring \<times> nat" where
  "replace_all m f prev after s =
     (case m prev s of
        Some (Suc n) \<Rightarrow>
          (let hit = take (Suc n) s; (t, k) = f hit
           in if hit = [] then (t, k)
              else let (u, j) = replace_all m f (Some (last hit)) True (drop (Suc n) s) in (t @ u, k + j))
      | found \<Rightarrow>
          (let (t, k) = (if found = Some 0 \<and> \<not> after then f [] else ([], 0))
           in case s of
                [] \<Rightarrow> (t, k)
              | c # cs \<Rightarrow> let (u, j) = replace_all m f (Some c) False cs in (t @ c # u, k + j)))"
  by pat_completeness auto
termination by (relation "measure (\<lambda>(m, f, prev, after, s). length s)") auto

declare replace_all.simps [simp del]

definition scrub :: "rule \<Rightarrow> gostring \<Rightarrow> gostring \<times> nat" where
  "scrub ru hit =
     (case ru_validate ru of
        Some ok \<Rightarrow> if \<not> ok hit then (hit, 0) else (ru_placeholder ru, 1)
      | None \<Rightarrow> (ru_placeholder ru, 1))"

definition apply_rule :: "rule \<Rightarrow> gostring \<times> (gostring, nat) gomap \<Rightarrow> gostring \<times> (gostring, nat) gomap" where
  "apply_rule ru sc =
     (let (s, n) = replace_all (ru_match ru) (scrub ru) None False (fst sc)
      in (s, if n > 0 then mput (ru_name ru) ((case mget (snd sc) (ru_name ru) of None \<Rightarrow> 0 | Some k \<Rightarrow> k) + n) (snd sc)
             else snd sc))"

record redactor =
  rx_enabled :: bool
  rx_rules :: "rule list"

text \<open>\<open>customPatterns\<close> is the map, \<open>compile\<close> is \<open>regexp.Compile\<close>; a pattern that does not compile is skipped.\<close>

definition redact_New :: "(gostring \<Rightarrow> matcher option) \<Rightarrow> bool \<Rightarrow> (gostring, gostring) gomap \<Rightarrow> redactor" where
  "redact_New compile enabled customPatterns =
     (if \<not> enabled then \<lparr>rx_enabled = False, rx_rules = []\<rparr>
      else \<lparr>rx_enabled = True, rx_rules = builtinRules @
        concat (map (\<lambda>(n, pat). case compile pat of
            Some m \<Rightarrow> [\<lparr>ru_name = n, ru_match = m, ru_placeholder = ''[REDACTED_'' @ n @ '']'', ru_validate = None\<rparr>]
          | None \<Rightarrow> []) (sort_key fst customPatterns))\<rparr>)"

definition Redact :: "redactor \<Rightarrow> gostring \<Rightarrow> gostring \<times> (gostring, nat) gomap" where
  "Redact r s = (if \<not> rx_enabled r \<or> s = [] then (s, []) else fold apply_rule (rx_rules r) (s, []))"

text \<open>The first pattern, by name, that does not compile.\<close>

definition ValidatePatterns :: "(gostring \<Rightarrow> matcher option) \<Rightarrow> (gostring, gostring) gomap \<Rightarrow> gostring option" where
  "ValidatePatterns compile customPatterns =
     map_option fst (find (\<lambda>(n, pat). compile pat = None) (sort_key fst customPatterns))"

text \<open>The redactor as the server uses it: the scrubbed text and the number of replacements.\<close>

definition redactor_fun :: "redactor \<Rightarrow> (gostring \<Rightarrow> gostring \<times> nat) option" where
  "redactor_fun r =
     (if rx_enabled r then Some (\<lambda>s. let (t, counts) = Redact r s in (t, sum_list (map snd counts))) else None)"

section \<open>What redaction changes\<close>

text \<open>A text cut into bytes that are kept and matches that are handed to the rule.\<close>

datatype segment = Kept char | Hit gostring

fun seg_source :: "segment \<Rightarrow> gostring" where
  "seg_source (Kept c) = [c]"
| "seg_source (Hit t) = t"

fun seg_result :: "(gostring \<Rightarrow> gostring \<times> nat) \<Rightarrow> segment \<Rightarrow> gostring" where
  "seg_result f (Kept c) = [c]"
| "seg_result f (Hit t) = fst (f t)"

fun seg_count :: "(gostring \<Rightarrow> gostring \<times> nat) \<Rightarrow> segment \<Rightarrow> nat" where
  "seg_count f (Kept c) = 0"
| "seg_count f (Hit t) = snd (f t)"

text \<open>Every hit is a leftmost-first match at its place.\<close>

fun hits_match :: "matcher \<Rightarrow> char option \<Rightarrow> segment list \<Rightarrow> bool" where
  "hits_match m prev [] \<longleftrightarrow> True"
| "hits_match m prev (Kept c # segs) \<longleftrightarrow> hits_match m (Some c) segs"
| "hits_match m prev (Hit t # segs) \<longleftrightarrow>
     m prev (t @ concat (map seg_source segs)) = Some (length t) \<and>
     hits_match m (if t = [] then prev else Some (last t)) segs"

text \<open>What a matcher never does: report more bytes than there are.\<close>

definition fits :: "matcher \<Rightarrow> bool" where
  "fits m \<longleftrightarrow> (\<forall>prev s n. m prev s = Some n \<longrightarrow> n \<le> length s)"

lemma re_match_fits: "fits (re_match r)"
  by (auto simp: fits_def re_match_def split: list.splits)

definition segmented :: "matcher \<Rightarrow> (gostring \<Rightarrow> gostring \<times> nat) \<Rightarrow> char option \<Rightarrow> gostring \<Rightarrow> gostring \<times> nat \<Rightarrow> bool" where
  "segmented m f prev s r \<longleftrightarrow> (\<exists>segs. concat (map seg_source segs) = s \<and> concat (map (seg_result f) segs) = fst r \<and>
     sum_list (map (seg_count f) segs) = snd r \<and> hits_match m prev segs)"

lemma segmented_keep: "segmented m f (Some c) cs (u, j) \<Longrightarrow> segmented m f prev (c # cs) (c # u, j)"
proof -
  assume "segmented m f (Some c) cs (u, j)"
  then obtain segs where "concat (map seg_source segs) = cs" "concat (map (seg_result f) segs) = u"
    "sum_list (map (seg_count f) segs) = j" "hits_match m (Some c) segs"
    by (auto simp: segmented_def)
  then show ?thesis unfolding segmented_def by (intro exI [of _ "Kept c # segs"]) simp
qed

lemma segmented_hit:
  assumes "segmented m f (if t = [] then prev else Some (last t)) s (u, j)" "m prev (t @ s) = Some (length t)" "f t = (v, k)"
  shows "segmented m f prev (t @ s) (v @ u, k + j)"
proof -
  obtain segs where "concat (map seg_source segs) = s" "concat (map (seg_result f) segs) = u"
    "sum_list (map (seg_count f) segs) = j" "hits_match m (if t = [] then prev else Some (last t)) segs"
    using assms(1) by (auto simp: segmented_def)
  then show ?thesis using assms(2,3) unfolding segmented_def by (intro exI [of _ "Hit t # segs"]) simp
qed

lemma segmented_Nil: "segmented m f prev [] ([], 0)"
  unfolding segmented_def by (intro exI [of _ "[]"]) simp

lemma segmented_empty:
  assumes "segmented m f prev s (u, j)" "(t, k) = (if found = Some 0 \<and> \<not> after then f [] else ([], 0))" "found = m prev s"
  shows "segmented m f prev s (t @ u, k + j)"
proof (cases "found = Some 0 \<and> \<not> after")
  case True
  then show ?thesis using assms segmented_hit [of m f "[]" prev s u j t k] by simp
next
  case False
  then have "t = []" "k = 0" using assms(2) by (auto split: if_splits)
  then show ?thesis using assms(1) by simp
qed

lemma replace_all_segmented:
  "fits m \<Longrightarrow> segmented m f prev s (replace_all m f prev after s)"
proof (induction m f prev after s rule: replace_all.induct)
  case (1 m f prev after s)
  show ?case
  proof (cases "\<exists>n. m prev s = Some (Suc n)")
    case True
    then obtain n where n: "m prev s = Some (Suc n)" by blast
    define hit where "hit = take (Suc n) s"
    have "Suc n \<le> length s" using "1.prems" n by (auto simp: fits_def)
    then have hit: "hit \<noteq> []" "length hit = Suc n" "hit @ drop (Suc n) s = s" by (auto simp: hit_def)
    obtain t k where f: "f hit = (t, k)" by fastforce
    obtain u j where r: "replace_all m f (Some (last hit)) True (drop (Suc n) s) = (u, j)" by fastforce
    have "segmented m f (Some (last hit)) (drop (Suc n) s) (u, j)"
      using "1.IH"(3) [OF n refl hit_def refl f [symmetric] hit(1) "1.prems"] by (simp add: r)
    then have "segmented m f prev (hit @ drop (Suc n) s) (t @ u, k + j)"
      using hit n f by (intro segmented_hit) simp_all
    moreover have "replace_all m f prev after s = (t @ u, k + j)"
      using n hit f r by (subst replace_all.simps) (simp add: Let_def flip: hit_def)
    ultimately show ?thesis using hit(3) by simp
  next
    case False
    then have other: "m prev s = None \<or> m prev s = Some 0" by (metis not0_implies_Suc option.exhaust)
    obtain t k where tk: "(if m prev s = Some 0 \<and> \<not> after then f [] else ([], 0)) = (t, k)" by fastforce
    show ?thesis
    proof (cases s)
      case Nil
      then have "replace_all m f prev after s = (t @ [], k + 0)"
        using other tk by (subst replace_all.simps) (auto simp: Let_def)
      then show ?thesis using Nil tk
        by (simp add: segmented_empty [where found = "m prev s" and after = after and u = "[]" and j = 0, simplified] segmented_Nil)
    next
      case (Cons c cs)
      obtain u j where r: "replace_all m f (Some c) False cs = (u, j)" by fastforce
      have "segmented m f (Some c) cs (replace_all m f (Some c) False cs)"
        using other
      proof
        assume none: "m prev s = None"
        show ?thesis by (rule "1.IH"(1) [OF none refl prod.collapse Cons "1.prems"])
      next
        assume empty: "m prev s = Some 0"
        show ?thesis by (rule "1.IH"(2) [OF empty refl refl prod.collapse Cons "1.prems"])
      qed
      then have "segmented m f (Some c) cs (u, j)" by (simp add: r)
      then have "segmented m f prev s (t @ c # u, k + j)"
        unfolding Cons by (intro segmented_empty [where found = "m prev s" and after = after] segmented_keep) (simp_all add: tk flip: Cons)
      moreover have "replace_all m f prev after s = (t @ c # u, k + j)"
        using other tk Cons r by (subst replace_all.simps) (auto simp: Let_def)
      ultimately show ?thesis by simp
    qed
  qed
qed

definition rules_fit :: "redactor \<Rightarrow> bool" where
  "rules_fit r \<longleftrightarrow> (\<forall>ru\<in>set (rx_rules r). fits (ru_match ru))"

lemma builtin_fit: "\<forall>ru\<in>set builtinRules. fits (ru_match ru)"
  by (simp add: builtinRules_def builtin_rule_def re_match_fits)

lemma redact_New_fit:
  assumes "\<forall>pat m. compile pat = Some m \<longrightarrow> fits m"
  shows "rules_fit (redact_New compile enabled patterns)"
  using assms builtin_fit by (auto simp: rules_fit_def redact_New_def split: option.splits)

text \<open>One rule: what it does to the text, and that it counts exactly what it replaced.\<close>

definition rule_step :: "rule \<Rightarrow> gostring \<Rightarrow> gostring \<Rightarrow> nat \<Rightarrow> bool" where
  "rule_step ru s t n \<longleftrightarrow> (\<exists>segs. concat (map seg_source segs) = s \<and> concat (map (seg_result (scrub ru)) segs) = t \<and>
     sum_list (map (seg_count (scrub ru)) segs) = n \<and> hits_match (ru_match ru) None segs)"

lemma apply_rule_step:
  assumes "fits (ru_match ru)" "apply_rule ru (s, cs) = (t, cs')"
  shows "\<exists>n. rule_step ru s t n \<and>
    cs' = (if n > 0 then mput (ru_name ru) ((case mget cs (ru_name ru) of None \<Rightarrow> 0 | Some k \<Rightarrow> k) + n) cs else cs)"
proof -
  obtain t1 n where r: "replace_all (ru_match ru) (scrub ru) None False s = (t1, n)" by fastforce
  have "rule_step ru s t1 n" using replace_all_segmented [OF assms(1), of "scrub ru" None s False]
    by (simp add: r rule_step_def segmented_def)
  then show ?thesis using assms(2) r by (auto simp: apply_rule_def)
qed

lemma rule_step_zero: "rule_step ru s t 0 \<Longrightarrow> t = s"
proof -
  assume "rule_step ru s t 0"
  then obtain segs where segs: "concat (map seg_source segs) = s" "concat (map (seg_result (scrub ru)) segs) = t"
    "sum_list (map (seg_count (scrub ru)) segs) = 0"
    by (auto simp: rule_step_def)
  have "seg_result (scrub ru) x = seg_source x" if "x \<in> set segs" for x
  proof (cases x)
    case (Hit h)
    have "seg_count (scrub ru) x = 0" using segs(3) that by (simp add: sum_list_eq_0_iff)
    then show ?thesis using Hit by (simp add: scrub_def split: option.splits if_splits)
  qed simp
  then have "map (seg_result (scrub ru)) segs = map seg_source segs" by (intro map_cong) auto
  then show ?thesis using segs(1,2) by metis
qed

text \<open>The texts between the rules.\<close>

fun rule_chain :: "rule list \<Rightarrow> gostring \<Rightarrow> (gostring \<times> nat) list \<Rightarrow> bool" where
  "rule_chain [] s steps \<longleftrightarrow> steps = []"
| "rule_chain (ru # rus) s steps \<longleftrightarrow>
     (case steps of [] \<Rightarrow> False | (t, n) # rest \<Rightarrow> rule_step ru s t n \<and> rule_chain rus t rest)"

definition final_text :: "gostring \<Rightarrow> (gostring \<times> nat) list \<Rightarrow> gostring" where
  "final_text s steps = (if steps = [] then s else fst (last steps))"

definition count_of :: "(gostring, nat) gomap \<Rightarrow> gostring \<Rightarrow> nat" where
  "count_of cs name = (case mget cs name of None \<Rightarrow> 0 | Some k \<Rightarrow> k)"

lemma rules_chain:
  "\<forall>ru\<in>set rus. fits (ru_match ru) \<Longrightarrow>
   \<exists>steps. rule_chain rus s steps \<and> fst (fold apply_rule rus (s, cs)) = final_text s steps \<and>
     (\<forall>name. count_of (snd (fold apply_rule rus (s, cs))) name =
       count_of cs name + (\<Sum>(ru, t, n)\<leftarrow>zip rus steps. if ru_name ru = name then n else 0))"
proof (induction rus arbitrary: s cs)
  case Nil
  then show ?case by (simp add: final_text_def)
next
  case (Cons ru rus)
  obtain t cs1 where a: "apply_rule ru (s, cs) = (t, cs1)" by fastforce
  obtain n where n: "rule_step ru s t n"
    "cs1 = (if n > 0 then mput (ru_name ru) (count_of cs (ru_name ru) + n) cs else cs)"
    using apply_rule_step [OF _ a] Cons.prems by (auto simp: count_of_def)
  obtain steps where steps: "rule_chain rus t steps" "fst (fold apply_rule rus (t, cs1)) = final_text t steps"
    "\<forall>name. count_of (snd (fold apply_rule rus (t, cs1))) name =
       count_of cs1 name + (\<Sum>(ru, t, n)\<leftarrow>zip rus steps. if ru_name ru = name then n else 0)"
    using Cons.IH [of t cs1] Cons.prems by auto
  have "count_of cs1 name = count_of cs name + (if ru_name ru = name then n else 0)" for name
    using n(2) by (auto simp: count_of_def)
  then show ?case using steps n a
    by (intro exI [of _ "(t, n) # steps"]) (auto simp: final_text_def)
qed

lemma rules_uncounted:
  "\<forall>ru\<in>set rus. fits (ru_match ru) \<Longrightarrow> snd (fold apply_rule rus (s, cs)) = [] \<Longrightarrow>
   cs = [] \<and> fst (fold apply_rule rus (s, cs)) = s"
proof (induction rus arbitrary: s cs)
  case (Cons ru rus)
  obtain t cs1 where a: "apply_rule ru (s, cs) = (t, cs1)" by fastforce
  have rest: "cs1 = []" "fst (fold apply_rule rus (t, cs1)) = t" using Cons.IH [of t cs1] Cons.prems a by auto
  obtain n where n: "rule_step ru s t n"
    "cs1 = (if n > 0 then mput (ru_name ru) ((case mget cs (ru_name ru) of None \<Rightarrow> 0 | Some k \<Rightarrow> k) + n) cs else cs)"
    using apply_rule_step [OF _ a] Cons.prems by auto
  have "mput (ru_name ru) v cs \<noteq> []" for v by (cases cs) (auto simp: gomap_defs)
  then have "n = 0" using n(2) rest(1) by (metis gr0I)
  then have "cs = []" using n(2) rest(1) by simp
  moreover have "t = s" using \<open>n = 0\<close> n(1) rule_step_zero by blast
  ultimately show ?case using rest(2) a by simp
qed simp


definition ex_redactor :: redactor where
  "ex_redactor = redact_New (\<lambda>_. None) True [(''BAD'', ''('')]"

lemma ex_redactor_fit: "rules_fit ex_redactor"
  unfolding ex_redactor_def by (rule redact_New_fit) simp


section \<open>The Luhn gate\<close>

text \<open>A digit contributes itself or, at every second place from the right, the digit sum of its double.\<close>

definition luhn_digit :: "bool \<Rightarrow> int \<Rightarrow> int" where
  "luhn_digit double d = (if double then (if 2 * d > 9 then 2 * d - 9 else 2 * d) else d)"

lemma luhn_digit_inj:
  assumes "0 \<le> d" "d \<le> 9" "0 \<le> e" "e \<le> 9" "luhn_digit b d mod 10 = luhn_digit b e mod 10"
  shows "d = e"
proof -
  have digits: "x = 0 \<or> x = 1 \<or> x = 2 \<or> x = 3 \<or> x = 4 \<or> x = 5 \<or> x = 6 \<or> x = 7 \<or> x = 8 \<or> x = 9"
    if "0 \<le> x" "x \<le> 9" for x :: int
    using that by presburger
  show ?thesis using digits [OF assms(1,2)] digits [OF assms(3,4)] assms(5)
    by (cases b) (elim disjE; simp add: luhn_digit_def)+
qed

lemma luhn_sum_append: "luhn_sum b (xs @ ys) = luhn_sum b xs + luhn_sum (b = even (length xs)) ys"
proof (induction xs arbitrary: b)
  case (Cons x xs)
  then show ?case by (cases b; cases "even (length xs)") simp_all
qed simp

lemma digit_range: "digit c \<Longrightarrow> digit_val c \<le> 9"
  by (auto simp: digit_def digit_val_def Let_def le_diff_conv)

lemma digit_val_inj: "digit c \<Longrightarrow> digit c' \<Longrightarrow> digit_val c = digit_val c' \<Longrightarrow> c = c'"
proof -
  assume "digit c" "digit c'" "digit_val c = digit_val c'"
  then have "(of_char c :: nat) = of_char c'" unfolding digit_def digit_val_def Let_def by linarith
  then show "c = c'" by simp
qed

lemma middle_mod: "(a + x + b) mod 10 = 0 \<Longrightarrow> (a + y + b) mod 10 = 0 \<Longrightarrow> x mod 10 = y mod 10" for a b x y :: int
proof -
  assume "(a + x + b) mod 10 = 0" "(a + y + b) mod 10 = 0"
  then have "10 dvd (a + x + b) - (a + y + b)" by (intro dvd_diff) (simp_all add: dvd_eq_mod_eq_0)
  then show "x mod 10 = y mod 10" by (simp add: mod_eq_dvd_iff)
qed

text \<open>
  The card gate catches every mistyped digit: no two digit strings that differ in exactly one digit, with any
  separators between the digits, both pass the Luhn check of the credit-card rule.
\<close>
theorem luhn_single_error:
  assumes "luhnValid (xs @ c # ys)" "digit c" "digit c'" "c \<noteq> c'"
  shows "\<not> luhnValid (xs @ c' # ys)"
proof
  assume other: "luhnValid (xs @ c' # ys)"
  let ?b = "even (length (rev (digits_of ys))) = False"
  have split_at_digit: "luhn_sum False (rev (digits_of (xs @ d # ys))) =
      luhn_sum False (rev (digits_of ys)) + luhn_digit ?b (int (digit_val d)) + luhn_sum (\<not> ?b) (rev (digits_of xs))"
    if "digit d" for d
    using that by (simp add: digits_of_def luhn_sum_append luhn_digit_def)
  have "luhn_sum False (rev (digits_of (xs @ c # ys))) mod 10 = 0"
    "luhn_sum False (rev (digits_of (xs @ c' # ys))) mod 10 = 0"
    using assms(1) other by (simp_all add: luhnValid_def Let_def split: if_splits)
  then have "luhn_digit ?b (int (digit_val c)) mod 10 = luhn_digit ?b (int (digit_val c')) mod 10"
    unfolding split_at_digit [OF assms(2)] split_at_digit [OF assms(3)] by (rule middle_mod)
  note same = this
  have range: "int (digit_val c) \<le> 9" "int (digit_val c') \<le> 9"
    using digit_range [OF assms(2)] digit_range [OF assms(3)] by simp_all
  have "int (digit_val c) = int (digit_val c')"
    by (rule luhn_digit_inj [OF of_nat_0_le_iff range(1) of_nat_0_le_iff range(2) same])
  then show False using digit_val_inj [OF assms(2,3)] assms(4) by simp
qed

theorem luhn_single_error_witness:
  "luhnValid ''4111 1111 1111 1111'' \<and> \<not> luhnValid ''4111 1111 1111 1112''"
proof -
  have ok: "luhnValid (''4111 1111 1111 111'' @ CHR ''1'' # [])" by code_simp
  have digits: "digit CHR ''1''" "digit CHR ''2''" by code_simp+
  then show ?thesis using luhn_single_error [OF ok digits] ok by simp
qed

end
