(* ===== verification/Config.thy ===== *)
theory Config
  imports Redact Controls
begin

text \<open>
  The configuration of \<open>internal/config/config.go\<close>: its types, \<open>Load\<close> with the defaults and checks of \<open>validate\<close>, and
  the API key a provider names. The file system, the YAML decoder, the environment and \<open>regexp.Compile\<close> are arguments;
  \<open>hex.DecodeString\<close> is modelled. Error messages quote ASCII text; the message of a pattern that does not compile leaves
  out the reason.
\<close>

section \<open>Types\<close>

record cfgServer =
  cs_Addr :: gostring
  cs_RequestTimeout :: duration
  cs_MaxRequestBytes :: int

record cfgProvider =
  cp_Name :: gostring
  cp_Type :: gostring
  cp_BaseURL :: gostring
  cp_APIKeyEnv :: gostring
  cp_RateLimitRPM :: int
  cp_RateLimitTPM :: int

record cfgModel =
  cm_ID :: gostring
  cm_Provider :: gostring
  cm_Upstream :: gostring
  cm_Price :: price
  cm_MaxOutputTokens :: int
  cm_Sampling :: "bool option"
  cm_Fallbacks :: "gostring list"

record cfgFirewall =
  cf_Enabled :: bool
  cf_MaxUSDPerMin :: usd
  cf_MaxTokensPerMin :: int
  cf_MaxConcurrent :: int
  cf_LoopThreshold :: int
  cf_MaxUSDPerRun :: usd
  cf_RedisURL :: gostring
  cf_KillTTL :: duration

record cfgFailover =
  co_ConsecutiveFailures :: int
  co_Cooldown :: duration

record cfgRedaction =
  cx_Enabled :: bool
  cx_CustomPatterns :: "(gostring, gostring) gomap"

record oauthApp =
  oa_ClientID :: gostring
  oa_ClientSecretEnv :: gostring

record consoleAccount =
  cn_Username :: gostring
  cn_PasswordHash :: gostring
  cn_Admin :: bool

record cfgConsole =
  cc_Enabled :: bool
  cc_SessionSecretEnv :: gostring
  cc_SessionTTL :: duration
  cc_BaseURL :: gostring
  cc_AllowInsecure :: bool
  cc_AdminEmails :: "gostring list"
  cc_AdminDomains :: "gostring list"
  cc_Accounts :: "consoleAccount list"
  cc_Google :: oauthApp
  cc_GitHub :: oauthApp

record cfgControlPlane =
  cl_Enabled :: bool
  cl_GuardSecretEnv :: gostring
  cl_Console :: cfgConsole

record config =
  c_Server :: cfgServer
  c_Providers :: "cfgProvider list"
  c_Models :: "cfgModel list"
  c_DefaultModel :: gostring
  c_AuthEnabled :: bool
  c_Clients :: "client list"
  c_Failover :: cfgFailover
  c_Redaction :: cfgRedaction
  c_Firewall :: cfgFirewall
  c_DatabaseURLEnv :: gostring
  c_ControlPlane :: cfgControlPlane

definition AcceptsSampling :: "cfgModel \<Rightarrow> bool" where
  "AcceptsSampling m = (case cm_Sampling m of None \<Rightarrow> True | Some b \<Rightarrow> b)"

definition APIKey :: "(gostring \<Rightarrow> gostring) \<Rightarrow> cfgProvider \<Rightarrow> gostring" where
  "APIKey getenv p = (if cp_APIKeyEnv p = [] then [] else getenv (cp_APIKeyEnv p))"

section \<open>Validation\<close>

definition config_error :: "gostring \<Rightarrow> gostring" where "config_error msg = ''config: '' @ msg"

definition set_defaults :: "cfgServer \<Rightarrow> cfgServer" where
  "set_defaults s =
     \<lparr>cs_Addr = (if cs_Addr s = [] then '':8080'' else cs_Addr s),
      cs_RequestTimeout = (if cs_RequestTimeout s \<le> 0 then 120 * second else cs_RequestTimeout s),
      cs_MaxRequestBytes = (if cs_MaxRequestBytes s \<le> 0 then 1048576 else cs_MaxRequestBytes s)\<rparr>"

fun validate_providers :: "cfgProvider list \<Rightarrow> gostring list \<Rightarrow> gostring + gostring list" where
  "validate_providers [] names = Inr names"
| "validate_providers (p # ps) names =
     (if cp_Name p = [] \<or> cp_Type p = [] then Inl (config_error ''provider missing name or type'')
      else if cp_Type p \<noteq> ''anthropic'' \<and> cp_Type p \<noteq> ''openai'' then
        Inl (config_error (''provider '' @ quoted (cp_Name p) @ '' has unknown type '' @ quoted (cp_Type p)))
      else if cp_Name p \<in> set names then Inl (config_error (''duplicate provider name '' @ quoted (cp_Name p)))
      else if cp_RateLimitRPM p < 0 \<or> cp_RateLimitTPM p < 0 then
        Inl (config_error (''provider '' @ quoted (cp_Name p) @ '' rate limits must be >= 0''))
      else validate_providers ps (cp_Name p # names))"

fun validate_models :: "gostring list \<Rightarrow> cfgModel list \<Rightarrow> gostring list \<Rightarrow> gostring + gostring list" where
  "validate_models provNames [] aliases = Inr aliases"
| "validate_models provNames (m # ms) aliases =
     (if cm_ID m = [] then Inl (config_error ''model missing id'')
      else if cm_ID m \<in> set aliases then Inl (config_error (''duplicate model id '' @ quoted (cm_ID m)))
      else if cm_Provider m \<notin> set provNames then
        Inl (config_error (''model '' @ quoted (cm_ID m) @ '' references unknown provider '' @ quoted (cm_Provider m)))
      else validate_models provNames ms (cm_ID m # aliases))"

fun validate_fallbacks :: "gostring list \<Rightarrow> gostring \<Rightarrow> gostring list \<Rightarrow> gostring option" where
  "validate_fallbacks aliases mid [] = None"
| "validate_fallbacks aliases mid (fb # fbs) =
     (if fb = mid then Some (config_error (''model '' @ quoted mid @ '' lists itself as a fallback''))
      else if fb \<notin> set aliases then
        Some (config_error (''model '' @ quoted mid @ '' has unknown fallback '' @ quoted fb))
      else validate_fallbacks aliases mid fbs)"

fun validate_all_fallbacks :: "gostring list \<Rightarrow> cfgModel list \<Rightarrow> gostring option" where
  "validate_all_fallbacks aliases [] = None"
| "validate_all_fallbacks aliases (m # ms) =
     (case validate_fallbacks aliases (cm_ID m) (cm_Fallbacks m) of
        Some e \<Rightarrow> Some e
      | None \<Rightarrow> validate_all_fallbacks aliases ms)"

definition hex_char :: "char \<Rightarrow> bool" where
  "hex_char c \<longleftrightarrow> (let n = of_char c :: nat in 48 \<le> n \<and> n \<le> 57 \<or> 65 \<le> n \<and> n \<le> 70 \<or> 97 \<le> n \<and> n \<le> 102)"

text \<open>\<open>hex.DecodeString\<close> succeeds.\<close>

definition hex_decodes :: "gostring \<Rightarrow> bool" where
  "hex_decodes s \<longleftrightarrow> list_all hex_char s \<and> even (length s)"

fun check_clients :: "client list \<Rightarrow> gostring list \<Rightarrow> gostring list \<Rightarrow> gostring option" where
  "check_clients [] names hashes = None"
| "check_clients (c # cs) names hashes =
     (if cl_Name c = [] then Some (config_error ''client missing name'')
      else if cl_Name c \<in> set names then Some (config_error (''duplicate client name '' @ quoted (cl_Name c)))
      else if length (cl_KeySHA256 c) \<noteq> 64 then
        Some (config_error (''client '' @ quoted (cl_Name c) @ '' key_sha256 must be a 64-char hex SHA-256''))
      else if \<not> hex_decodes (cl_KeySHA256 c) then
        Some (config_error (''client '' @ quoted (cl_Name c) @ '' key_sha256 is not valid hex''))
      else if cl_KeySHA256 c \<in> set hashes then
        Some (config_error (''duplicate client key_sha256 (client '' @ quoted (cl_Name c) @ '')''))
      else if cl_MonthlyBudgetUSD c < 0 \<or> cl_RateLimitRPM c < 0 then
        Some (config_error (''client '' @ quoted (cl_Name c) @ '' has a negative budget or rate limit''))
      else check_clients cs (cl_Name c # names) (cl_KeySHA256 c # hashes))"

definition validateClients :: "config \<Rightarrow> gostring option" where
  "validateClients c =
     (if c_AuthEnabled c \<and> c_Clients c = [] then
        Some (config_error ''auth.enabled is true but no clients are defined'')
      else check_clients (c_Clients c) [] [])"

text \<open>The pattern map is visited in the order of its list, as Go visits it in some order.\<close>

definition validate_patterns :: "(gostring \<Rightarrow> matcher option) \<Rightarrow> (gostring, gostring) gomap \<Rightarrow> gostring option" where
  "validate_patterns compile pats =
     map_option (\<lambda>(n, pat). config_error (''redaction custom_pattern '' @ quoted n @ '' is not a valid regexp''))
       (find (\<lambda>(n, pat). compile pat = None) pats)"

definition validate_limits :: "config \<Rightarrow> gostring option" where
  "validate_limits c =
     (let f = c_Firewall c
      in if co_ConsecutiveFailures (c_Failover c) < 0 then
           Some (config_error ''failover.consecutive_failures must be >= 0'')
         else if cf_MaxUSDPerMin f < 0 \<or> cf_MaxTokensPerMin f < 0 \<or> cf_MaxConcurrent f < 0 \<or> cf_LoopThreshold f < 0
             \<or> cf_MaxUSDPerRun f < 0 then
           Some (config_error ''firewall limits must be >= 0'')
         else if cf_KillTTL f < 0 then Some (config_error ''firewall.kill_ttl must be >= 0'')
         else None)"

definition validate :: "(gostring \<Rightarrow> matcher option) \<Rightarrow> config \<Rightarrow> gostring + config" where
  "validate compile c0 =
     (let c = c0\<lparr>c_Server := set_defaults (c_Server c0)\<rparr>
      in if c_Providers c = [] then Inl (config_error ''no providers defined'')
         else if c_Models c = [] then Inl (config_error ''no models defined'')
         else case validate_providers (c_Providers c) [] of
           Inl e \<Rightarrow> Inl e
         | Inr provNames \<Rightarrow>
             (case validate_models provNames (c_Models c) [] of
                Inl e \<Rightarrow> Inl e
              | Inr aliases \<Rightarrow>
                  (case validate_all_fallbacks aliases (c_Models c) of
                     Some e \<Rightarrow> Inl e
                   | None \<Rightarrow>
                       if c_DefaultModel c \<noteq> [] \<and> c_DefaultModel c \<notin> set aliases then
                         Inl (config_error (''default_model '' @ quoted (c_DefaultModel c) @ '' is not a defined model''))
                       else case validateClients c of
                         Some e \<Rightarrow> Inl e
                       | None \<Rightarrow>
                           (case validate_patterns compile (cx_CustomPatterns (c_Redaction c)) of
                              Some e \<Rightarrow> Inl e
                            | None \<Rightarrow>
                                (case validate_limits c of Some e \<Rightarrow> Inl e | None \<Rightarrow> Inr c)))))"

text \<open>\<open>Load\<close>: \<open>readFile\<close> and \<open>decode\<close> answer the content or the text of an error.\<close>

definition Load ::
  "(gostring \<Rightarrow> gostring + gostring) \<Rightarrow> (gostring \<Rightarrow> gostring + config) \<Rightarrow> (gostring \<Rightarrow> matcher option) \<Rightarrow> gostring \<Rightarrow>
   gostring + config" where
  "Load readFile decode compile path =
     (case readFile path of
        Inl e \<Rightarrow> Inl (''read config: '' @ e)
      | Inr data \<Rightarrow>
          (case decode data of Inl e \<Rightarrow> Inl (''parse config: '' @ e) | Inr c \<Rightarrow> validate compile c))"

section \<open>What a valid configuration is\<close>

definition provider_ok :: "cfgProvider \<Rightarrow> bool" where
  "provider_ok p \<longleftrightarrow> cp_Name p \<noteq> [] \<and> cp_Type p \<in> {''anthropic'', ''openai''} \<and> 0 \<le> cp_RateLimitRPM p \<and> 0 \<le> cp_RateLimitTPM p"

definition client_ok :: "client \<Rightarrow> bool" where
  "client_ok c \<longleftrightarrow> cl_Name c \<noteq> [] \<and> length (cl_KeySHA256 c) = 64 \<and> list_all hex_char (cl_KeySHA256 c)
     \<and> 0 \<le> cl_MonthlyBudgetUSD c \<and> 0 \<le> cl_RateLimitRPM c"

definition models_valid :: "config \<Rightarrow> bool" where
  "models_valid c \<longleftrightarrow> c_Models c \<noteq> [] \<and> distinct (map cm_ID (c_Models c)) \<and>
     (\<forall>m\<in>set (c_Models c). cm_ID m \<noteq> [] \<and> cm_Provider m \<in> set (map cp_Name (c_Providers c)) \<and>
       cm_ID m \<notin> set (cm_Fallbacks m) \<and> set (cm_Fallbacks m) \<subseteq> set (map cm_ID (c_Models c))) \<and>
     (c_DefaultModel c = [] \<or> c_DefaultModel c \<in> set (map cm_ID (c_Models c)))"

definition clients_valid :: "config \<Rightarrow> bool" where
  "clients_valid c \<longleftrightarrow> (c_AuthEnabled c \<longrightarrow> c_Clients c \<noteq> []) \<and> (\<forall>cl\<in>set (c_Clients c). client_ok cl) \<and>
     distinct (map cl_Name (c_Clients c)) \<and> distinct (map cl_KeySHA256 (c_Clients c))"

definition firewall_valid :: "cfgFirewall \<Rightarrow> bool" where
  "firewall_valid f \<longleftrightarrow> 0 \<le> cf_MaxUSDPerMin f \<and> 0 \<le> cf_MaxTokensPerMin f \<and> 0 \<le> cf_MaxConcurrent f
     \<and> 0 \<le> cf_LoopThreshold f \<and> 0 \<le> cf_MaxUSDPerRun f \<and> 0 \<le> cf_KillTTL f"

definition config_valid :: "(gostring \<Rightarrow> matcher option) \<Rightarrow> config \<Rightarrow> bool" where
  "config_valid compile c \<longleftrightarrow>
     c_Providers c \<noteq> [] \<and> (\<forall>p\<in>set (c_Providers c). provider_ok p) \<and> distinct (map cp_Name (c_Providers c)) \<and>
     models_valid c \<and> clients_valid c \<and>
     (\<forall>(n, pat)\<in>set (cx_CustomPatterns (c_Redaction c)). compile pat \<noteq> None) \<and>
     0 \<le> co_ConsecutiveFailures (c_Failover c) \<and> firewall_valid (c_Firewall c)"

lemma validate_providers_iff:
  "validate_providers ps names = Inr names' \<longleftrightarrow>
   (\<forall>p\<in>set ps. provider_ok p) \<and> distinct (map cp_Name ps) \<and> set names \<inter> cp_Name ` set ps = {} \<and>
   names' = rev (map cp_Name ps) @ names"
  by (induction ps arbitrary: names) (auto simp: provider_ok_def)

lemma validate_models_iff:
  "validate_models provNames ms aliases = Inr aliases' \<longleftrightarrow>
   (\<forall>m\<in>set ms. cm_ID m \<noteq> [] \<and> cm_Provider m \<in> set provNames) \<and> distinct (map cm_ID ms) \<and>
   set aliases \<inter> cm_ID ` set ms = {} \<and> aliases' = rev (map cm_ID ms) @ aliases"
  by (induction ms arbitrary: aliases) auto

lemma validate_fallbacks_iff:
  "validate_fallbacks aliases mid fbs = None \<longleftrightarrow> mid \<notin> set fbs \<and> set fbs \<subseteq> set aliases"
  by (induction fbs) auto

lemma validate_all_fallbacks_iff:
  "validate_all_fallbacks aliases ms = None \<longleftrightarrow>
   (\<forall>m\<in>set ms. cm_ID m \<notin> set (cm_Fallbacks m) \<and> set (cm_Fallbacks m) \<subseteq> set aliases)"
proof (induction ms)
  case (Cons m ms)
  then show ?case
    using validate_fallbacks_iff [of aliases "cm_ID m" "cm_Fallbacks m"]
    by (cases "validate_fallbacks aliases (cm_ID m) (cm_Fallbacks m)") auto
qed simp

lemma check_clients_iff:
  "check_clients cs names hashes = None \<longleftrightarrow>
   (\<forall>c\<in>set cs. client_ok c) \<and> distinct (map cl_Name cs) \<and> distinct (map cl_KeySHA256 cs) \<and>
   set names \<inter> cl_Name ` set cs = {} \<and> set hashes \<inter> cl_KeySHA256 ` set cs = {}"
  by (induction cs arbitrary: names hashes) (auto simp: client_ok_def hex_decodes_def)

lemma validate_patterns_iff:
  "validate_patterns compile pats = None \<longleftrightarrow> (\<forall>(n, pat)\<in>set pats. compile pat \<noteq> None)"
  by (auto simp: validate_patterns_def find_None_iff)

lemma validate_limits_iff:
  "validate_limits c = None \<longleftrightarrow> 0 \<le> co_ConsecutiveFailures (c_Failover c) \<and> firewall_valid (c_Firewall c)"
  by (auto simp: validate_limits_def firewall_valid_def Let_def)

lemma validateClients_iff: "validateClients c = None \<longleftrightarrow> clients_valid c"
  by (auto simp: validateClients_def clients_valid_def check_clients_iff)

lemmas validate_iffs = validate_patterns_iff validate_limits_iff validateClients_iff

lemma validate_passes:
  "validate compile c0 = Inr c' \<longleftrightarrow>
   (\<exists>c. c = c0\<lparr>c_Server := set_defaults (c_Server c0)\<rparr> \<and> c_Providers c \<noteq> [] \<and> c_Models c \<noteq> [] \<and>
     (\<exists>provNames aliases. validate_providers (c_Providers c) [] = Inr provNames \<and>
       validate_models provNames (c_Models c) [] = Inr aliases \<and> validate_all_fallbacks aliases (c_Models c) = None \<and>
       (c_DefaultModel c = [] \<or> c_DefaultModel c \<in> set aliases)) \<and>
     validateClients c = None \<and> validate_patterns compile (cx_CustomPatterns (c_Redaction c)) = None \<and>
     validate_limits c = None \<and> c' = c)"
  by (auto simp: validate_def Let_def split: sum.splits option.splits if_splits)

lemma validate_valid:
  "validate compile c = Inr c' \<longleftrightarrow> config_valid compile c \<and> c' = c\<lparr>c_Server := set_defaults (c_Server c)\<rparr>"
proof -
  define c1 where "c1 = c\<lparr>c_Server := set_defaults (c_Server c)\<rparr>"
  have same: "config_valid compile c1 = config_valid compile c"
    by (simp add: c1_def config_valid_def models_valid_def clients_valid_def)
  have "validate compile c = Inr c' \<longleftrightarrow> config_valid compile c1 \<and> c' = c1"
    unfolding validate_passes c1_def [symmetric] validate_providers_iff validate_models_iff validate_all_fallbacks_iff
      validate_iffs config_valid_def models_valid_def
    by auto
  then show ?thesis by (simp add: same) (simp add: c1_def)
qed

lemma validate_result:
  assumes "validate compile c = Inr c'"
  shows "c' = c\<lparr>c_Server := c_Server c'\<rparr> \<and> config_valid compile c' \<and> cs_Addr (c_Server c') \<noteq> [] \<and>
    0 < cs_RequestTimeout (c_Server c') \<and> 0 < cs_MaxRequestBytes (c_Server c')"
proof -
  have "c' = c\<lparr>c_Server := set_defaults (c_Server c)\<rparr>" "config_valid compile c" using assms validate_valid by blast+
  then show ?thesis
    by (simp add: set_defaults_def second_def config_valid_def models_valid_def clients_valid_def)
qed


definition ex_config :: config where
  "ex_config = \<lparr>c_Server = \<lparr>cs_Addr = [], cs_RequestTimeout = 0, cs_MaxRequestBytes = 0\<rparr>,
     c_Providers = [\<lparr>cp_Name = ''p'', cp_Type = ''openai'', cp_BaseURL = [], cp_APIKeyEnv = ''K'', cp_RateLimitRPM = 60,
       cp_RateLimitTPM = 0\<rparr>],
     c_Models = [\<lparr>cm_ID = ''m'', cm_Provider = ''p'', cm_Upstream = ''u'', cm_Price = \<lparr>InputPerMTok = 1, OutputPerMTok = 2\<rparr>,
       cm_MaxOutputTokens = 100, cm_Sampling = None, cm_Fallbacks = []\<rparr>],
     c_DefaultModel = ''m'', c_AuthEnabled = False, c_Clients = [],
     c_Failover = \<lparr>co_ConsecutiveFailures = 0, co_Cooldown = 0\<rparr>,
     c_Redaction = \<lparr>cx_Enabled = False, cx_CustomPatterns = []\<rparr>,
     c_Firewall = \<lparr>cf_Enabled = True, cf_MaxUSDPerMin = 1, cf_MaxTokensPerMin = 0, cf_MaxConcurrent = 2, cf_LoopThreshold = 3,
       cf_MaxUSDPerRun = 0, cf_RedisURL = [], cf_KillTTL = 0\<rparr>,
     c_DatabaseURLEnv = [],
     c_ControlPlane = \<lparr>cl_Enabled = True, cl_GuardSecretEnv = [],
       cl_Console = \<lparr>cc_Enabled = False, cc_SessionSecretEnv = [], cc_SessionTTL = 0, cc_BaseURL = [], cc_AllowInsecure = False,
         cc_AdminEmails = [], cc_AdminDomains = [], cc_Accounts = [],
         cc_Google = \<lparr>oa_ClientID = [], oa_ClientSecretEnv = []\<rparr>, cc_GitHub = \<lparr>oa_ClientID = [], oa_ClientSecretEnv = []\<rparr>\<rparr>\<rparr>\<rparr>"

lemma ex_config_valid: "config_valid (\<lambda>_. None) ex_config"
  by (simp add: ex_config_def config_valid_def provider_ok_def models_valid_def clients_valid_def firewall_valid_def)


text \<open>
  The duplicate check compares the hashes as they are written, the guard compares them in lower case: two clients whose
  hashes differ only in case load, and the guard keeps the limits of the last one only.
\<close>

lemma case_variant_clients_load:
  assumes "client_ok a" "client_ok b" "cl_Name a \<noteq> cl_Name b" "cl_KeySHA256 a \<noteq> cl_KeySHA256 b"
    and "ToLower (cl_KeySHA256 a) = ToLower (cl_KeySHA256 b)"
  shows "clients_valid (c\<lparr>c_Clients := [a, b]\<rparr>) \<and>
    g_byHash (guard_New True [a, b]) = g_byHash (guard_New True [b])"
  using assms by (simp add: clients_valid_def guard_New_def gomap_defs)

end
