(* ===== verification/Adapters.thy ===== *)
theory Adapters
  imports Wire
begin

text \<open>
  The vendor adapters of \<open>internal/provider\<close>: \<open>anthropic.go\<close> (message normalization, the Messages API through the
  vendor's SDK) and \<open>openaicompat.go\<close> (a relay over HTTP with its own parser of the event stream).

  The SDK, the HTTP transport and JSON coding are arguments. A stream is handed on through the callback \<open>onDelta\<close>, which
  works on a state \<open>'c\<close> of its own (the response writer) and may fail. A response body is the bytes that arrive and the
  error that ends them, if any; \<open>bufio.Scanner\<close> and \<open>io.LimitReader\<close> are modelled with their bounds.
\<close>

section \<open>Error types\<close>

definition statusToType :: "int \<Rightarrow> gostring" where
  "statusToType status =
     (if status = 400 then ''invalid_request_error''
      else if status = 401 then ''authentication_error''
      else if status = 403 then ''permission_error''
      else if status = 404 then ''not_found_error''
      else if status = 429 then ''rate_limit_error''
      else ''api_error'')"

section \<open>Anthropic\<close>

definition defaultMaxTokens :: int where "defaultMaxTokens = 4096"

type_synonym turn = "gostring \<times> gostring" \<comment> \<open>role and text\<close>

definition user_role :: gostring where "user_role = ''user''"
definition assistant_role :: gostring where "assistant_role = ''assistant''"
definition blank_line :: gostring where "blank_line = [CHR 0x0A, CHR 0x0A]"

definition add_turn :: "gostring \<times> gostring \<Rightarrow> turn list \<Rightarrow> turn list" where
  "add_turn m turns =
     (if snd m = [] then turns
      else let role = (if fst m = assistant_role then assistant_role else user_role)
           in if turns \<noteq> [] \<and> fst (last turns) = role
              then butlast turns @ [(role, snd (last turns) @ blank_line @ snd m)]
              else turns @ [(role, snd m)])"

definition toAnthropicMessages :: "(gostring \<times> gostring) list \<Rightarrow> gostring + turn list" where
  "toAnthropicMessages msgs =
     (let turns = fold add_turn msgs []
      in if turns = [] then Inl ''at least one non-empty user or assistant message is required''
         else if fst (hd turns) \<noteq> user_role then Inl ''the first message must be a user message''
         else Inr turns)"

record anthropicParams =
  ap_Model :: gostring
  ap_MaxTokens :: int
  ap_Messages :: "turn list"
  ap_System :: "gostring list" \<comment> \<open>text blocks\<close>
  ap_Temperature :: "real option"
  ap_TopP :: "real option"

datatype contentBlock = TextBlock gostring | OtherBlock

record anthropicMessage =
  am_Content :: "contentBlock list"
  am_InputTokens :: int
  am_OutputTokens :: int
  am_CacheReadInputTokens :: int
  am_CacheCreationInputTokens :: int
  am_StopReason :: gostring

datatype sdk_error = ApiError int gostring | TransportError gostring

text \<open>
  The SDK: a message call; a streaming call, which yields events and then an error or not; the accumulation of events,
  which may fail; and the text delta of an event, if it is one.
\<close>

record ('ev, 'w) anthropicSDK =
  an_New :: "anthropicParams \<Rightarrow> 'w \<Rightarrow> (sdk_error + anthropicMessage) \<times> 'w"
  an_NewStreaming :: "anthropicParams \<Rightarrow> 'w \<Rightarrow> ('ev list \<times> sdk_error option) \<times> 'w"
  an_Accumulate :: "'ev \<Rightarrow> anthropicMessage \<Rightarrow> gostring + anthropicMessage"
  an_TextDelta :: "'ev \<Rightarrow> gostring option"

definition anthropic_params :: "providerRequest \<Rightarrow> provider_error + anthropicParams" where
  "anthropic_params req =
     (case toAnthropicMessages (pr_Messages req) of
        Inl e \<Rightarrow> Inl (ProviderError 400 ''invalid_request_error'' e [])
      | Inr msgs \<Rightarrow> Inr \<lparr>ap_Model = pr_Model req,
          ap_MaxTokens = (if pr_MaxTokens req \<le> 0 then defaultMaxTokens else pr_MaxTokens req),
          ap_Messages = msgs, ap_System = (if pr_System req \<noteq> [] then [pr_System req] else []),
          ap_Temperature = pr_Temperature req, ap_TopP = pr_TopP req\<rparr>)"

definition mapAnthropicError :: "sdk_error \<Rightarrow> provider_error" where
  "mapAnthropicError e =
     (case e of ApiError status msg \<Rightarrow> ProviderError status (statusToType status) msg []
      | TransportError msg \<Rightarrow> ProviderError 0 ''api_error'' msg [])"

definition mapAnthropicStop :: "gostring \<Rightarrow> gostring" where
  "mapAnthropicStop reason =
     (if reason = ''end_turn'' \<or> reason = ''stop_sequence'' then ''stop''
      else if reason = ''max_tokens'' then ''length''
      else if reason = ''tool_use'' then ''tool_calls''
      else ''stop'')"

definition block_text :: "contentBlock \<Rightarrow> gostring" where
  "block_text b = (case b of TextBlock t \<Rightarrow> t | OtherBlock \<Rightarrow> [])"

definition anthropic_response :: "gostring \<Rightarrow> anthropicMessage \<Rightarrow> providerResponse" where
  "anthropic_response text m =
     \<lparr>rsp_Content = text, rsp_InputTokens = am_InputTokens m, rsp_OutputTokens = am_OutputTokens m,
      rsp_CacheReadInputTokens = am_CacheReadInputTokens m,
      rsp_CacheWriteInputTokens = am_CacheCreationInputTokens m,
      rsp_FinishReason = mapAnthropicStop (am_StopReason m)\<rparr>"

definition anthropic_ChatCompletion ::
  "('ev, 'w) anthropicSDK \<Rightarrow> providerRequest \<Rightarrow> 'w \<Rightarrow> (provider_error + providerResponse) \<times> 'w" where
  "anthropic_ChatCompletion sdk req w =
     (case anthropic_params req of
        Inl e \<Rightarrow> (Inl e, w)
      | Inr params \<Rightarrow>
          (case an_New sdk params w of
             (Inl e, w1) \<Rightarrow> (Inl (mapAnthropicError e), w1)
           | (Inr m, w1) \<Rightarrow> (Inr (anthropic_response (concat (map block_text (am_Content m))) m), w1)))"

text \<open>The callback: \<open>None\<close> when the delta was written, otherwise the error that ends the stream.\<close>

type_synonym 'c streamFunc = "gostring \<Rightarrow> 'c \<Rightarrow> provider_error option \<times> 'c"

fun anthropic_events ::
  "('ev, 'w) anthropicSDK \<Rightarrow> 'c streamFunc \<Rightarrow> 'ev list \<Rightarrow> anthropicMessage \<Rightarrow> gostring \<Rightarrow> 'c \<Rightarrow>
   (provider_error + anthropicMessage \<times> gostring) \<times> 'c" where
  "anthropic_events sdk onDelta [] acc text c = (Inr (acc, text), c)"
| "anthropic_events sdk onDelta (ev # evs) acc text c =
     (case an_Accumulate sdk ev acc of
        Inl e \<Rightarrow> (Inl (ProviderError 0 ''api_error'' (''anthropic: accumulate: '' @ e) []), c)
      | Inr acc1 \<Rightarrow>
          (case an_TextDelta sdk ev of
             Some d \<Rightarrow>
               (if d \<noteq> [] then
                  (case onDelta d c of
                     (Some e, c1) \<Rightarrow> (Inl e, c1)
                   | (None, c1) \<Rightarrow> anthropic_events sdk onDelta evs acc1 (text @ d) c1)
                else anthropic_events sdk onDelta evs acc1 text c)
           | None \<Rightarrow> anthropic_events sdk onDelta evs acc1 text c))"

definition zero_message :: anthropicMessage where
  "zero_message = \<lparr>am_Content = [], am_InputTokens = 0, am_OutputTokens = 0, am_CacheReadInputTokens = 0,
     am_CacheCreationInputTokens = 0, am_StopReason = []\<rparr>"

definition anthropic_ChatCompletionStream ::
  "('ev, 'w) anthropicSDK \<Rightarrow> providerRequest \<Rightarrow> 'c streamFunc \<Rightarrow> 'c \<Rightarrow> 'w \<Rightarrow>
   (provider_error + providerResponse) \<times> 'c \<times> 'w" where
  "anthropic_ChatCompletionStream sdk req onDelta c w =
     (case anthropic_params req of
        Inl e \<Rightarrow> (Inl e, c, w)
      | Inr params \<Rightarrow>
          (case an_NewStreaming sdk params w of
             ((evs, err), w1) \<Rightarrow>
               (case anthropic_events sdk onDelta evs zero_message [] c of
                  (Inl e, c1) \<Rightarrow> (Inl e, c1, w1)
                | (Inr (acc, text), c1) \<Rightarrow>
                    (case err of
                       Some e \<Rightarrow> (Inl (mapAnthropicError e), c1, w1)
                     | None \<Rightarrow> (Inr (anthropic_response text acc), c1, w1)))))"

section \<open>OpenAI-compatible endpoints\<close>

definition maxRespBytes :: nat where "maxRespBytes = 16 * 1024 * 1024"
definition maxLineBytes :: nat where "maxLineBytes = 1024 * 1024"

record ocRequest =
  oq_Model :: gostring
  oq_Messages :: "(gostring \<times> gostring) list"
  oq_MaxTokens :: int
  oq_Temperature :: "real option"
  oq_TopP :: "real option"
  oq_Stream :: bool
  oq_IncludeUsage :: bool

record ocChoice =
  oc_DeltaContent :: gostring
  oc_FinishReason :: "gostring option"

record ocChunk =
  ok_Choices :: "ocChoice list"
  ok_Usage :: "(int \<times> int) option" \<comment> \<open>prompt and completion tokens\<close>
  ok_Error :: "(gostring \<times> gostring) option" \<comment> \<open>message and type\<close>

record ocResponse =
  or_Choices :: "(gostring \<times> gostring) list" \<comment> \<open>content and finish reason\<close>
  or_Usage :: "(int \<times> int) option"

record httpResponse =
  hr_StatusCode :: int
  hr_RetryAfter :: gostring
  hr_Body :: gostring
  hr_ReadErr :: "gostring option"

text \<open>
  The adapter with its transport and JSON coding: what one POST to the endpoint with the bearer token answers, the
  request it encodes, and the three documents it decodes.
\<close>

record 'w openAICompat =
  oa_name :: gostring
  oa_apiKey :: gostring
  oa_baseURL :: gostring
  oa_Post :: "gostring \<Rightarrow> gostring \<Rightarrow> gostring \<Rightarrow> 'w \<Rightarrow> (gostring + httpResponse) \<times> 'w" \<comment> \<open>URL, \<open>Authorization\<close>, body\<close>
  oa_Marshal :: "ocRequest \<Rightarrow> gostring + gostring"
  oa_decodeResponse :: "gostring \<Rightarrow> gostring + ocResponse"
  oa_decodeChunk :: "gostring \<Rightarrow> ocChunk option"
  oa_decodeError :: "gostring \<Rightarrow> (gostring \<times> gostring) option"

definition oc_request :: "providerRequest \<Rightarrow> bool \<Rightarrow> ocRequest" where
  "oc_request req stream =
     \<lparr>oq_Model = pr_Model req,
      oq_Messages = (if pr_System req \<noteq> [] then [(''system'', pr_System req)] else []) @ pr_Messages req,
      oq_MaxTokens = pr_MaxTokens req, oq_Temperature = pr_Temperature req, oq_TopP = pr_TopP req,
      oq_Stream = stream, oq_IncludeUsage = stream\<rparr>"

definition named :: "'w openAICompat \<Rightarrow> gostring \<Rightarrow> gostring" where
  "named oa msg = oa_name oa @ '': '' @ msg"

definition truncate_bytes :: "gostring \<Rightarrow> nat \<Rightarrow> gostring" where
  "truncate_bytes b n = (if length b > n then take n b else b)"

text \<open>\<open>io.ReadAll(io.LimitReader(body, maxRespBytes))\<close>.\<close>

definition read_limited :: "httpResponse \<Rightarrow> gostring \<times> gostring option" where
  "read_limited resp =
     (if length (hr_Body resp) \<ge> maxRespBytes then (take maxRespBytes (hr_Body resp), None)
      else (hr_Body resp, hr_ReadErr resp))"

definition httpError :: "'w openAICompat \<Rightarrow> httpResponse \<Rightarrow> gostring \<Rightarrow> provider_error" where
  "httpError oa resp data =
     (let prefix = ''upstream '' @ itoa (nat (hr_StatusCode resp)) @ '': '';
          typ0 = statusToType (hr_StatusCode resp)
      in case oa_decodeError oa data of
           Some (msg, etype) \<Rightarrow>
             (if msg \<noteq> [] then ProviderError (hr_StatusCode resp) (if etype \<noteq> [] then etype else typ0)
                (named oa (prefix @ msg)) (hr_RetryAfter resp)
              else ProviderError (hr_StatusCode resp) typ0 (named oa (prefix @ truncate_bytes data 512)) (hr_RetryAfter resp))
         | None \<Rightarrow> ProviderError (hr_StatusCode resp) typ0 (named oa (prefix @ truncate_bytes data 512)) (hr_RetryAfter resp))"

text \<open>The part the unary and the streaming call share: encode, post, and turn a transport failure into an error.\<close>

definition oc_send ::
  "'w openAICompat \<Rightarrow> ocRequest \<Rightarrow> 'w \<Rightarrow> (provider_error + httpResponse) \<times> 'w" where
  "oc_send oa q w =
     (case oa_Marshal oa q of
        Inl e \<Rightarrow> (Inl (ProviderError 0 ''api_error'' (named oa (''marshal: '' @ e)) []), w)
      | Inr body \<Rightarrow>
          (case oa_Post oa (oa_baseURL oa @ ''/chat/completions'') (''Bearer '' @ oa_apiKey oa) body w of
             (Inl e, w1) \<Rightarrow> (Inl (ProviderError 0 ''api_error'' (named oa e) []), w1)
           | (Inr resp, w1) \<Rightarrow> (Inr resp, w1)))"

definition oc_reply :: "'w openAICompat \<Rightarrow> httpResponse \<Rightarrow> provider_error + providerResponse" where
  "oc_reply oa resp =
     (let (data, err) = read_limited resp
      in case err of
           Some e \<Rightarrow> Inl (ProviderError 0 ''api_error'' (named oa (''read body: '' @ e)) [])
         | None \<Rightarrow>
             (if hr_StatusCode resp \<ge> 400 then Inl (httpError oa resp data)
              else case oa_decodeResponse oa data of
                Inl e \<Rightarrow> Inl (ProviderError 0 ''api_error'' (named oa (''decode: '' @ e)) [])
              | Inr parsed \<Rightarrow>
                  (case or_Choices parsed of
                     [] \<Rightarrow> Inl (ProviderError 502 ''api_error'' (named oa ''upstream returned no choices'') [])
                   | (content, finish) # _ \<Rightarrow>
                       (let (inTok, outTok) = (case or_Usage parsed of Some u \<Rightarrow> u | None \<Rightarrow> (0, 0))
                        in Inr \<lparr>rsp_Content = content, rsp_InputTokens = inTok, rsp_OutputTokens = outTok,
                             rsp_CacheReadInputTokens = 0, rsp_CacheWriteInputTokens = 0, rsp_FinishReason = finish\<rparr>))))"

definition oc_ChatCompletion ::
  "'w openAICompat \<Rightarrow> providerRequest \<Rightarrow> 'w \<Rightarrow> (provider_error + providerResponse) \<times> 'w" where
  "oc_ChatCompletion oa req w =
     (case oc_send oa (oc_request req False) w of
        (Inl e, w1) \<Rightarrow> (Inl e, w1)
      | (Inr resp, w1) \<Rightarrow> (oc_reply oa resp, w1))"

subsection \<open>The event stream\<close>

text \<open>
  \<open>bufio.Scanner\<close> with \<open>ScanLines\<close>: the lines of the body without their line ends; a line that does not fit the buffer
  ends the scan with an error, a read error is reported after the last line.
\<close>

definition dropCR :: "gostring \<Rightarrow> gostring" where
  "dropCR l = (if l \<noteq> [] \<and> last l = CHR 0x0D then butlast l else l)"

function scan_lines :: "gostring \<Rightarrow> gostring option \<Rightarrow> gostring list \<times> gostring option" where
  "scan_lines body err =
     (if body = [] then ([], err)
      else let l = takeWhile (\<lambda>c. c \<noteq> CHR 0x0A) body
           in if length l \<ge> maxLineBytes then ([], Some ''bufio.Scanner: token too long'')
              else let (ls, e) = scan_lines (drop (Suc (length l)) body) err in (dropCR l # ls, e))"
  by pat_completeness auto
termination by (relation "measure (length \<circ> fst)") auto

declare scan_lines.simps [simp del]

record streamState =
  ss_content :: gostring
  ss_finish :: gostring
  ss_in :: int
  ss_out :: int
  ss_terminated :: bool

definition cut_data :: "gostring \<Rightarrow> gostring option" where
  "cut_data line = (if take 5 line = ''data:'' then Some (drop 5 line) else None)"

definition note_choice :: "ocChoice \<Rightarrow> streamState \<Rightarrow> streamState" where
  "note_choice x st =
     (let st1 = st\<lparr>ss_content := ss_content st @ oc_DeltaContent x\<rparr>
      in case oc_FinishReason x of
           None \<Rightarrow> st1
         | Some f \<Rightarrow> if f \<noteq> [] then st1\<lparr>ss_finish := f, ss_terminated := True\<rparr> else st1)"

fun oc_choices ::
  "'c streamFunc \<Rightarrow> ocChoice list \<Rightarrow> streamState \<Rightarrow> 'c \<Rightarrow> (provider_error + streamState) \<times> 'c" where
  "oc_choices onDelta [] st c = (Inr st, c)"
| "oc_choices onDelta (x # xs) st c =
     (let (written, c1) = (if oc_DeltaContent x \<noteq> [] then onDelta (oc_DeltaContent x) c else (None, c))
      in case written of
           Some e \<Rightarrow> (Inl e, c1)
         | None \<Rightarrow> oc_choices onDelta xs (note_choice x st) c1)"

definition set_usage :: "(int \<times> int) option \<Rightarrow> streamState \<Rightarrow> streamState" where
  "set_usage u st = (case u of None \<Rightarrow> st | Some (p, q) \<Rightarrow> st\<lparr>ss_in := p, ss_out := q\<rparr>)"

fun oc_lines ::
  "'w openAICompat \<Rightarrow> 'c streamFunc \<Rightarrow> gostring list \<Rightarrow> streamState \<Rightarrow> 'c \<Rightarrow>
   (provider_error + streamState \<times> bool) \<times> 'c" where
  "oc_lines oa onDelta [] st c = (Inr (st, False), c)"
| "oc_lines oa onDelta (l # ls) st c =
     (case cut_data (TrimSpace l) of
        None \<Rightarrow> oc_lines oa onDelta ls st c
      | Some payload0 \<Rightarrow>
          (let payload = TrimSpace payload0
           in if payload = ''[DONE]'' then (Inr (st\<lparr>ss_terminated := True\<rparr>, True), c)
              else case oa_decodeChunk oa payload of
                None \<Rightarrow> oc_lines oa onDelta ls st c
              | Some chunk \<Rightarrow>
                  (case ok_Error chunk of
                     Some (msg, typ) \<Rightarrow> (Inl (ProviderError 502 typ (named oa (''upstream stream error: '' @ msg)) []), c)
                   | None \<Rightarrow>
                       (case oc_choices onDelta (ok_Choices chunk) st c of
                          (Inl e, c1) \<Rightarrow> (Inl e, c1)
                        | (Inr st1, c1) \<Rightarrow> oc_lines oa onDelta ls (set_usage (ok_Usage chunk) st1) c1))))"

text \<open>The second component of \<open>oc_lines\<close> tells that the loop was left at \<open>[DONE]\<close>, before the scanner ended.\<close>

definition oc_stream ::
  "'w openAICompat \<Rightarrow> 'c streamFunc \<Rightarrow> httpResponse \<Rightarrow> 'c \<Rightarrow> (provider_error + providerResponse) \<times> 'c" where
  "oc_stream oa onDelta resp c =
     (let (ls, err) = scan_lines (hr_Body resp) (hr_ReadErr resp)
      in case oc_lines oa onDelta ls \<lparr>ss_content = [], ss_finish = ''stop'', ss_in = 0, ss_out = 0, ss_terminated = False\<rparr> c of
           (Inl e, c1) \<Rightarrow> (Inl e, c1)
         | (Inr (st, left), c1) \<Rightarrow>
             (case (if left then None else err) of
                Some e \<Rightarrow> (Inl (ProviderError 0 ''api_error'' (named oa (''stream: '' @ e)) []), c1)
              | None \<Rightarrow>
                  (if \<not> ss_terminated st then
                     (Inl (ProviderError 502 ''api_error'' (named oa ''stream truncated (no completion marker)'') []), c1)
                   else
                     (Inr \<lparr>rsp_Content = ss_content st, rsp_InputTokens = ss_in st, rsp_OutputTokens = ss_out st,
                        rsp_CacheReadInputTokens = 0, rsp_CacheWriteInputTokens = 0, rsp_FinishReason = ss_finish st\<rparr>,
                      c1))))"

definition oc_ChatCompletionStream ::
  "'w openAICompat \<Rightarrow> providerRequest \<Rightarrow> 'c streamFunc \<Rightarrow> 'c \<Rightarrow> 'w \<Rightarrow>
   (provider_error + providerResponse) \<times> 'c \<times> 'w" where
  "oc_ChatCompletionStream oa req onDelta c w =
     (case oc_send oa (oc_request req True) w of
        (Inl e, w1) \<Rightarrow> (Inl e, c, w1)
      | (Inr resp, w1) \<Rightarrow>
          (if hr_StatusCode resp \<ge> 400 then (Inl (httpError oa resp (fst (read_limited resp))), c, w1)
           else let (r, c1) = oc_stream oa onDelta resp c in (r, c1, w1)))"

section \<open>Normalized conversations\<close>

fun blank_join :: "gostring list \<Rightarrow> gostring" where
  "blank_join [] = []"
| "blank_join [x] = x"
| "blank_join (x # y # ys) = x @ blank_line @ blank_join (y # ys)"

definition turns_ok :: "turn list \<Rightarrow> bool" where
  "turns_ok turns \<longleftrightarrow> distinct_adj (map fst turns) \<and> set (map fst turns) \<subseteq> {user_role, assistant_role}
     \<and> [] \<notin> set (map snd turns)"

lemma roles_differ: "user_role \<noteq> assistant_role"
  by (simp add: user_role_def assistant_role_def)

lemma blank_join_append: "xs \<noteq> [] \<Longrightarrow> ys \<noteq> [] \<Longrightarrow> blank_join (xs @ ys) = blank_join xs @ blank_line @ blank_join ys"
proof (induction xs rule: blank_join.induct)
  case (2 x)
  then show ?case by (cases ys) auto
qed auto

lemma blank_join_merge: "blank_join (xs @ [a @ blank_line @ b] @ ys) = blank_join (xs @ [a, b] @ ys)"
  by (cases ys; cases "xs = []") (simp_all add: blank_join_append)

lemma last_split: "turns \<noteq> [] \<Longrightarrow> turns = butlast turns @ [(fst (last turns), snd (last turns))]"
  by simp

lemma add_turn_ok:
  assumes "turns_ok turns"
  shows "turns_ok (add_turn m turns)"
proof (cases "snd m = [] \<or> turns = []")
  case True
  then show ?thesis using assms by (auto simp: add_turn_def turns_ok_def Let_def)
next
  case False
  then obtain ts r t where ts: "turns = ts @ [(r, t)]" using last_split by blast
  have "distinct_adj (map fst ts @ [r])" using assms ts by (simp add: turns_ok_def)
  then show ?thesis using False assms
    by (auto simp: ts add_turn_def turns_ok_def Let_def distinct_adj_append_iff)
qed

definition texts :: "(gostring \<times> gostring) list \<Rightarrow> gostring list" where
  "texts msgs = filter (\<lambda>t. t \<noteq> []) (map snd msgs)"

lemma add_turn_text: "blank_join (map snd (add_turn m turns) @ rest) = blank_join (map snd turns @ texts [m] @ rest)"
proof (cases "snd m = [] \<or> turns = []")
  case True
  then show ?thesis by (auto simp: add_turn_def texts_def Let_def)
next
  case False
  then obtain ts r t where ts: "turns = ts @ [(r, t)]" using last_split by blast
  then show ?thesis using False blank_join_merge [of "map snd ts" t "snd m" rest]
    by (auto simp: add_turn_def texts_def Let_def)
qed

lemma turns_text: "blank_join (map snd (fold add_turn msgs turns)) = blank_join (map snd turns @ texts msgs)"
proof (induction msgs arbitrary: turns)
  case (Cons m msgs)
  have "texts [m] @ texts msgs = texts (m # msgs)" by (simp add: texts_def)
  then show ?case using Cons add_turn_text [of m turns "texts msgs"] by simp
qed (simp add: texts_def)

lemma turns_fold_ok: "turns_ok turns \<Longrightarrow> turns_ok (fold add_turn msgs turns)"
  by (induction msgs arbitrary: turns) (auto intro: add_turn_ok)

lemma add_turn_hd: "turns \<noteq> [] \<Longrightarrow> add_turn m turns \<noteq> [] \<and> fst (hd (add_turn m turns)) = fst (hd turns)"
  by (cases turns rule: rev_cases; cases "butlast turns") (auto simp: add_turn_def Let_def hd_append)

lemma fold_turn_hd: "turns \<noteq> [] \<Longrightarrow> fold add_turn msgs turns \<noteq> [] \<and> fst (hd (fold add_turn msgs turns)) = fst (hd turns)"
  by (induction msgs arbitrary: turns) (simp_all add: add_turn_hd)

lemma turns_first:
  "case filter (\<lambda>m. snd m \<noteq> []) msgs of
     [] \<Rightarrow> fold add_turn msgs [] = []
   | m # _ \<Rightarrow> fold add_turn msgs [] \<noteq> [] \<and>
       fst (hd (fold add_turn msgs [])) = (if fst m = assistant_role then assistant_role else user_role)"
proof (induction msgs)
  case (Cons m msgs)
  show ?case
  proof (cases "snd m = []")
    case False
    then have "add_turn m [] = [(if fst m = assistant_role then assistant_role else user_role, snd m)]"
      by (simp add: add_turn_def)
    then show ?thesis using False fold_turn_hd [of "add_turn m []" msgs] by simp
  next
    case True
    then have same: "fold add_turn (m # msgs) [] = fold add_turn msgs []" by (simp add: add_turn_def)
    have "filter (\<lambda>m. snd m \<noteq> []) (m # msgs) = filter (\<lambda>m. snd m \<noteq> []) msgs" using True by simp
    then show ?thesis using Cons by (simp only: same)
  qed
qed simp

text \<open>
  C36. What Anthropic is sent is well formed and complete. A conversation is refused exactly when it has no text at all or
  opens with the assistant; otherwise the turns sent start with the user, strictly alternate, are never empty, and
  their texts, joined by blank lines, are exactly the non-empty texts of the request in order.
\<close>
theorem anthropic_messages_complete:
  shows "((\<exists>e. toAnthropicMessages msgs = Inl e) \<longleftrightarrow>
      (case filter (\<lambda>m. snd m \<noteq> []) msgs of [] \<Rightarrow> True | m # _ \<Rightarrow> fst m = assistant_role)) \<and>
    (\<forall>turns. toAnthropicMessages msgs = Inr turns \<longrightarrow>
      turns \<noteq> [] \<and> fst (hd turns) = user_role \<and> distinct_adj (map fst turns) \<and>
      set (map fst turns) \<subseteq> {user_role, assistant_role} \<and> [] \<notin> set (map snd turns) \<and>
      blank_join (map snd turns) = blank_join (texts msgs))"
proof
  show "(\<exists>e. toAnthropicMessages msgs = Inl e) \<longleftrightarrow>
      (case filter (\<lambda>m. snd m \<noteq> []) msgs of [] \<Rightarrow> True | m # _ \<Rightarrow> fst m = assistant_role)"
    using turns_first [of msgs] roles_differ
    by (auto simp: toAnthropicMessages_def Let_def split: list.splits if_splits)
  have "turns_ok (fold add_turn msgs [])" by (rule turns_fold_ok) (simp add: turns_ok_def)
  then show "\<forall>turns. toAnthropicMessages msgs = Inr turns \<longrightarrow>
      turns \<noteq> [] \<and> fst (hd turns) = user_role \<and> distinct_adj (map fst turns) \<and>
      set (map fst turns) \<subseteq> {user_role, assistant_role} \<and> [] \<notin> set (map snd turns) \<and>
      blank_join (map snd turns) = blank_join (texts msgs)"
    using turns_text [of msgs "[]"]
    by (simp add: toAnthropicMessages_def turns_ok_def Let_def)
qed

theorem anthropic_messages_complete_witness:
  "\<exists>turns. toAnthropicMessages [(''user'', ''a''), (''tool'', ''b''), (''assistant'', []), (''assistant'', ''c'')] = Inr turns
    \<and> distinct_adj (map fst turns) \<and> blank_join (map snd turns) = blank_join [''a'', ''b'', ''c'']"
proof -
  let ?msgs = "[(''user'', ''a''), (''tool'', ''b''), (''assistant'', []), (''assistant'', ''c'')]"
  obtain turns where t: "toAnthropicMessages ?msgs = Inr turns"
    using anthropic_messages_complete [of ?msgs] by (cases "toAnthropicMessages ?msgs") (auto simp: assistant_role_def)
  moreover have "texts ?msgs = [''a'', ''b'', ''c'']" by (simp add: texts_def)
  ultimately show ?thesis using anthropic_messages_complete [of ?msgs] by auto
qed

section \<open>Streams\<close>

text \<open>The response writer as a collector: what it was handed, and after which writes it fails.\<close>

definition collecting :: "(gostring list \<Rightarrow> provider_error option) \<Rightarrow> gostring list streamFunc" where
  "collecting client d ds = (client (ds @ [d]), ds @ [d])"

definition accepted :: "(gostring list \<Rightarrow> provider_error option) \<Rightarrow> gostring list \<Rightarrow> bool" where
  "accepted client ds \<longleftrightarrow> [] \<notin> set ds \<and> (\<forall>k<length ds. client (take (Suc k) ds) = None)"

definition delivered :: "(gostring list \<Rightarrow> provider_error option) \<Rightarrow> gostring list \<Rightarrow> bool" where
  "delivered client ds \<longleftrightarrow> [] \<notin> set ds \<and> accepted client (butlast ds)"

lemma accepted_Nil [simp]: "accepted client []"
  by (simp add: accepted_def)

lemma accepted_snoc [simp]:
  "accepted client (ds @ [d]) \<longleftrightarrow> accepted client ds \<and> d \<noteq> [] \<and> client (ds @ [d]) = None"
  by (auto simp: accepted_def less_Suc_eq)

lemma accepted_delivered: "accepted client ds \<Longrightarrow> delivered client ds"
  by (cases ds rule: rev_cases) (auto simp: delivered_def accepted_def less_Suc_eq)

lemma accepted_delivers: "accepted client ds \<Longrightarrow> d \<noteq> [] \<Longrightarrow> delivered client (ds @ [d])"
  by (simp add: delivered_def) (simp add: accepted_def)

text \<open>A line of the stream that completes it.\<close>

definition terminal_choice :: "ocChoice \<Rightarrow> bool" where
  "terminal_choice x \<longleftrightarrow> (case oc_FinishReason x of None \<Rightarrow> False | Some f \<Rightarrow> f \<noteq> [])"

definition completion_marker :: "'w openAICompat \<Rightarrow> gostring \<Rightarrow> bool" where
  "completion_marker oa l \<longleftrightarrow>
     (case cut_data (TrimSpace l) of
        None \<Rightarrow> False
      | Some p \<Rightarrow> TrimSpace p = ''[DONE]'' \<or>
          (case oa_decodeChunk oa (TrimSpace p) of
             None \<Rightarrow> False
           | Some chunk \<Rightarrow> list_ex terminal_choice (ok_Choices chunk)))"

lemma note_choice_fields:
  "ss_content (note_choice x st) = ss_content st @ oc_DeltaContent x"
  "ss_terminated (note_choice x st) \<longleftrightarrow> ss_terminated st \<or> terminal_choice x"
  by (auto simp: note_choice_def terminal_choice_def Let_def split: option.split)

lemma oc_choices_delivers:
  "accepted client ds \<Longrightarrow> ss_content st = concat ds \<Longrightarrow>
   (case oc_choices (collecting client) xs st ds of
      (Inl e, ds') \<Rightarrow> delivered client ds'
    | (Inr st', ds') \<Rightarrow> accepted client ds' \<and> ss_content st' = concat ds' \<and>
        (ss_terminated st' \<longleftrightarrow> ss_terminated st \<or> list_ex terminal_choice xs))"
proof (induction xs arbitrary: st ds)
  case (Cons x xs)
  show ?case
  proof (cases "oc_DeltaContent x = []")
    case True
    then show ?thesis using Cons.IH [OF Cons.prems(1), of "note_choice x st"] Cons.prems(2)
      by (auto simp: note_choice_fields split: prod.splits sum.splits)
  next
    case False
    then show ?thesis
      using Cons.IH [of "ds @ [oc_DeltaContent x]" "note_choice x st"] Cons.prems
        accepted_delivers [OF Cons.prems(1) False]
      by (cases "client (ds @ [oc_DeltaContent x])")
        (auto simp: collecting_def note_choice_fields split: prod.splits sum.splits)
  qed
qed simp

lemma oc_lines_delivers:
  "accepted client ds \<Longrightarrow> ss_content st = concat ds \<Longrightarrow>
   (case oc_lines oa (collecting client) ls st ds of
      (Inl e, ds') \<Rightarrow> delivered client ds'
    | (Inr (st', left), ds') \<Rightarrow> accepted client ds' \<and> ss_content st' = concat ds' \<and>
        (ss_terminated st' \<longrightarrow> ss_terminated st \<or> (\<exists>l\<in>set ls. completion_marker oa l)))"
proof (induction ls arbitrary: st ds)
  case (Cons l ls)
  show ?case
  proof (cases "cut_data (TrimSpace l)")
    case None
    then show ?thesis using Cons.IH [OF Cons.prems] by (auto split: prod.splits sum.splits)
  next
    case (Some p)
    show ?thesis
    proof (cases "TrimSpace p = ''[DONE]''")
      case True
      then show ?thesis using Some Cons.prems by (simp add: Let_def completion_marker_def)
    next
      case not_done: False
      show ?thesis
      proof (cases "oa_decodeChunk oa (TrimSpace p)")
        case None
        then show ?thesis using Some not_done Cons.IH [OF Cons.prems] by (auto simp: Let_def split: prod.splits sum.splits)
      next
        case chunk: (Some chunk)
        show ?thesis
        proof (cases "ok_Error chunk")
          case (Some err)
          then show ?thesis using \<open>cut_data _ = _\<close> not_done chunk accepted_delivered [OF Cons.prems(1)]
            by (cases err) (simp add: Let_def)
        next
          case no_err: None
          obtain r ds1 where r: "oc_choices (collecting client) (ok_Choices chunk) st ds = (r, ds1)" by fastforce
          note step = oc_choices_delivers [OF Cons.prems, of "ok_Choices chunk", unfolded r]
          show ?thesis
          proof (cases r)
            case (Inl e)
            then show ?thesis using step r Some not_done chunk no_err by (simp add: Let_def)
          next
            case (Inr st1)
            have keep: "ss_content (set_usage u st1) = ss_content st1" "ss_terminated (set_usage u st1) = ss_terminated st1" for u
              by (simp_all add: set_usage_def split: option.split)
            have marker: "ss_terminated st1 \<Longrightarrow> ss_terminated st \<or> completion_marker oa l"
              using step Inr Some chunk by (auto simp: completion_marker_def)
            show ?thesis
              using Cons.IH [of ds1 "set_usage (ok_Usage chunk) st1"] step r Inr Some not_done chunk no_err keep marker
              by (auto simp: Let_def split: prod.splits sum.splits)
          qed
        qed
      qed
    qed
  qed
qed simp

lemma anthropic_events_delivers:
  "accepted client ds \<Longrightarrow> content = concat ds \<Longrightarrow>
   (case anthropic_events sdk (collecting client) evs acc content ds of
      (Inl e, ds') \<Rightarrow> delivered client ds'
    | (Inr (acc', content'), ds') \<Rightarrow> accepted client ds' \<and> content' = concat ds')"
proof (induction evs arbitrary: acc content ds)
  case (Cons ev evs)
  show ?case
  proof (cases "an_Accumulate sdk ev acc")
    case (Inl e)
    then show ?thesis using accepted_delivered [OF Cons.prems(1)] by simp
  next
    case (Inr acc1)
    show ?thesis
    proof (cases "an_TextDelta sdk ev")
      case None
      then show ?thesis using Inr Cons.IH [OF Cons.prems] by simp
    next
      case (Some d)
      show ?thesis
      proof (cases "d = []")
        case True
        then show ?thesis using Inr Some Cons.IH [OF Cons.prems] by simp
      next
        case False
        then show ?thesis using Inr Some Cons.IH [of "ds @ [d]" "content @ d" acc1] Cons.prems
            accepted_delivers [OF Cons.prems(1) False]
          by (cases "client (ds @ [d])") (simp_all add: collecting_def)
      qed
    qed
  qed
qed simp

definition stream_ok ::
  "(gostring list \<Rightarrow> provider_error option) \<Rightarrow> provider_error + providerResponse \<Rightarrow> gostring list \<Rightarrow> bool" where
  "stream_ok client r ds \<longleftrightarrow> delivered client ds \<and>
     (case r of Inl _ \<Rightarrow> True | Inr p \<Rightarrow> accepted client ds \<and> rsp_Content p = concat ds)"

definition completes :: "'w openAICompat \<Rightarrow> httpResponse \<Rightarrow> bool" where
  "completes oa resp \<longleftrightarrow> list_ex (completion_marker oa) (fst (scan_lines (hr_Body resp) (hr_ReadErr resp)))"

lemma stream_ok_error: "stream_ok client (Inl e) []"
  by (simp add: stream_ok_def delivered_def)

lemma oc_stream_ok:
  assumes "oc_stream oa (collecting client) resp [] = (r, ds)"
  shows "stream_ok client r ds \<and> (isl r \<or> completes oa resp)"
proof -
  let ?st = "\<lparr>ss_content = [], ss_finish = ''stop'', ss_in = 0, ss_out = 0, ss_terminated = False\<rparr>"
  obtain ls err where scan: "scan_lines (hr_Body resp) (hr_ReadErr resp) = (ls, err)" by fastforce
  obtain q ds1 where q: "oc_lines oa (collecting client) ls ?st [] = (q, ds1)" by fastforce
  have step: "case (q, ds1) of (Inl e, ds') \<Rightarrow> delivered client ds'
    | (Inr (st', left0), ds') \<Rightarrow> accepted client ds' \<and> ss_content st' = concat ds' \<and>
        (ss_terminated st' \<longrightarrow> (\<exists>l\<in>set ls. completion_marker oa l))"
    using oc_lines_delivers [where client = client and ds = "[]" and st = ?st and oa = oa and ls = ls]
    by (auto simp: q split: sum.splits)
  show ?thesis
  proof (cases q)
    case (Inl e)
    then show ?thesis using assms step scan q by (auto simp: oc_stream_def stream_ok_def)
  next
    case (Inr sl)
    obtain st left0 where sl: "sl = (st, left0)" by fastforce
    have "accepted client ds1" "delivered client ds1" "ss_content st = concat ds1"
      "ss_terminated st \<Longrightarrow> completes oa resp"
      using step Inr sl scan accepted_delivered by (auto simp: completes_def list_ex_iff)
    then show ?thesis using assms scan q Inr sl
      by (auto simp: oc_stream_def stream_ok_def split: option.splits if_splits)
  qed
qed

lemma oc_call_ok:
  assumes "oc_ChatCompletionStream oa req (collecting client) [] w = (r, ds, w')"
  shows "stream_ok client r ds \<and>
    (isl r \<or> (\<exists>resp. fst (oc_send oa (oc_request req True) w) = Inr resp \<and> completes oa resp))"
proof -
  obtain q w1 where q: "oc_send oa (oc_request req True) w = (q, w1)" by fastforce
  show ?thesis
  proof (cases q)
    case (Inl e)
    then have "r = Inl e" "ds = []" using assms q by (simp_all add: oc_ChatCompletionStream_def)
    then show ?thesis by (simp add: stream_ok_error)
  next
    case (Inr resp)
    obtain r1 ds1 where st: "oc_stream oa (collecting client) resp [] = (r1, ds1)" by fastforce
    show ?thesis
    proof (cases "hr_StatusCode resp \<ge> 400")
      case True
      then have "isl r" "stream_ok client r ds" using assms q Inr stream_ok_error
        by (auto simp: oc_ChatCompletionStream_def)
      then show ?thesis by simp
    next
      case False
      then have "r = r1" "ds = ds1" using assms q Inr st by (simp_all add: oc_ChatCompletionStream_def)
      then show ?thesis using oc_stream_ok [OF st] q Inr by simp
    qed
  qed
qed

lemma anthropic_call_ok:
  assumes "anthropic_ChatCompletionStream sdk req (collecting client) [] w = (r, ds, w')"
  shows "stream_ok client r ds"
proof (cases "anthropic_params req")
  case (Inl e)
  then show ?thesis using assms stream_ok_error by (auto simp: anthropic_ChatCompletionStream_def)
next
  case (Inr params)
  obtain evs err w1 where calls: "an_NewStreaming sdk params w = ((evs, err), w1)" by (metis prod.exhaust)
  obtain q ds1 where q: "anthropic_events sdk (collecting client) evs zero_message [] [] = (q, ds1)" by fastforce
  have step: "case (q, ds1) of (Inl e, ds') \<Rightarrow> delivered client ds'
      | (Inr (acc', content'), ds') \<Rightarrow> accepted client ds' \<and> content' = concat ds'"
    using anthropic_events_delivers [where client = client and ds = "[]" and content = "[]" and sdk = sdk and evs = evs and acc = zero_message] by (simp add: q)
  show ?thesis
  proof (cases q)
    case (Inl e)
    then show ?thesis using assms step Inr calls q by (auto simp: anthropic_ChatCompletionStream_def stream_ok_def)
  next
    case good: (Inr m)
    obtain acc content where m: "m = (acc, content)" by fastforce
    have "accepted client ds1" "delivered client ds1" "content = concat ds1"
      using step good m accepted_delivered by auto
    then show ?thesis using assms Inr calls q good m
      by (auto simp: anthropic_ChatCompletionStream_def stream_ok_def anthropic_response_def split: option.splits)
  qed
qed

text \<open>
  C35. A streamed answer is what the client was sent. Through either adapter, whatever the vendor answers and whenever
  the client stops reading: no empty delta and nothing after a failed write is handed to the response writer; a
  successful response has as its content exactly the concatenation of the deltas, all of which the writer accepted;
  and an OpenAI-compatible stream succeeds only after a completion marker (\<open>[DONE]\<close> or a finish reason) arrived, so a
  truncated stream is never taken for a complete answer.
\<close>
theorem stream_content_is_deltas:
  assumes "oc_ChatCompletionStream oa req (collecting client) [] w = (r1, ds1, w1)"
    and "anthropic_ChatCompletionStream sdk req (collecting client) [] w = (r2, ds2, w2)"
  shows "stream_ok client r1 ds1 \<and> stream_ok client r2 ds2 \<and>
    (\<forall>p. r1 = Inr p \<longrightarrow> (\<exists>resp. fst (oc_send oa (oc_request req True) w) = Inr resp \<and> completes oa resp))"
  using oc_call_ok [OF assms(1)] anthropic_call_ok [OF assms(2)] by auto

definition ex_endpoint :: "unit openAICompat" where
  "ex_endpoint = \<lparr>oa_name = ''v'', oa_apiKey = ''k'', oa_baseURL = ''u'',
     oa_Post = (\<lambda>_ _ body w. (Inr \<lparr>hr_StatusCode = 200, hr_RetryAfter = [],
        hr_Body = ''data: hi'' @ [CHR 0x0D, CHR 0x0A] @ ''data: [DONE]'', hr_ReadErr = None\<rparr>, w)),
     oa_Marshal = (\<lambda>_. Inr []), oa_decodeResponse = (\<lambda>_. Inl []),
     oa_decodeChunk = (\<lambda>p. Some \<lparr>ok_Choices = [\<lparr>oc_DeltaContent = p, oc_FinishReason = None\<rparr>], ok_Usage = None,
        ok_Error = None\<rparr>),
     oa_decodeError = (\<lambda>_. None)\<rparr>"

definition ex_sdk :: "(gostring, unit) anthropicSDK" where
  "ex_sdk = \<lparr>an_New = (\<lambda>_ w. (Inr zero_message, w)), an_NewStreaming = (\<lambda>_ w. (([''a'', [], ''b''], None), w)),
     an_Accumulate = (\<lambda>_ m. Inr m), an_TextDelta = Some\<rparr>"

definition ex_preq :: providerRequest where
  "ex_preq = \<lparr>pr_Model = ''m'', pr_System = [], pr_Messages = [(''user'', ''x'')], pr_MaxTokens = 5,
     pr_Temperature = None, pr_TopP = None\<rparr>"

theorem stream_content_is_deltas_witness:
  "\<exists>p ds. oc_ChatCompletionStream ex_endpoint ex_preq (collecting (\<lambda>_. None)) [] () = (Inr p, ds, ()) \<and>
    rsp_Content p = concat ds \<and> ds = [''hi'']"
proof -
  have lines: "scan_lines (''data: hi'' @ [CHR 0x0D, CHR 0x0A] @ ''data: [DONE]'') None = ([''data: hi'', ''data: [DONE]''], None)"
    by (simp add: scan_lines.simps maxLineBytes_def dropCR_def)
  have send: "oc_send ex_endpoint q () = (Inr \<lparr>hr_StatusCode = 200, hr_RetryAfter = [],
      hr_Body = ''data: hi'' @ [CHR 0x0D, CHR 0x0A] @ ''data: [DONE]'', hr_ReadErr = None\<rparr>, ())" for q
    by (simp add: oc_send_def ex_endpoint_def)
  have step: "oc_lines ex_endpoint (collecting (\<lambda>_. None)) [''data: hi'', ''data: [DONE]''] st [] =
      (Inr ((note_choice \<lparr>oc_DeltaContent = ''hi'', oc_FinishReason = None\<rparr> st)\<lparr>ss_terminated := True\<rparr>, True), [''hi''])" for st
    by (simp add: ex_endpoint_def cut_data_def TrimSpace_def is_space_def collecting_def set_usage_def Let_def)
  obtain p where oc: "oc_ChatCompletionStream ex_endpoint ex_preq (collecting (\<lambda>_. None)) [] () = (Inr p, [''hi''], ())"
    using lines by (auto simp: oc_ChatCompletionStream_def send oc_stream_def step simp del: oc_lines.simps)
  obtain r ds w where an: "anthropic_ChatCompletionStream ex_sdk ex_preq (collecting (\<lambda>_. None)) [] () = (r, ds, w)"
    by (metis prod.exhaust)
  show ?thesis using stream_content_is_deltas [OF oc an] oc by (auto simp: stream_ok_def)
qed

end
