(* ===== verification/Gateway.thy ===== *)
theory Gateway
  imports Config Adapters PolicyAdmin
begin

text \<open>
  The wiring of \<open>cmd/heave/main.go\<close>: how \<open>run\<close> builds the gateway from a loaded configuration and the environment,
  with \<open>buildProviders\<close> and \<open>buildConsole\<close>, up to the HTTP server. Serving, signals and logging are left out.

  The environment variables, the Redis client (URL parsing and \<open>PING\<close>), the Postgres sink's connection, the identity
  providers' clients and \<open>regexp.Compile\<close> are arguments.
\<close>

section \<open>Components\<close>

datatype adapter =
    AnthropicAdapter (ad_name: gostring) (ad_key: gostring) (ad_baseURL: gostring)
  | OpenAIAdapter (ad_name: gostring) (ad_key: gostring) (ad_baseURL: gostring)

definition adapter_of :: "(gostring \<Rightarrow> gostring) \<Rightarrow> cfgProvider \<Rightarrow> adapter option" where
  "adapter_of getenv p =
     (let key = APIKey getenv p
      in if cp_Type p = ''anthropic'' then Some (AnthropicAdapter (cp_Name p) key (cp_BaseURL p))
         else if cp_Type p = ''openai'' then
           Some (OpenAIAdapter (cp_Name p) key (if cp_BaseURL p = [] then ''https://api.openai.com/v1'' else cp_BaseURL p))
         else None)"

definition add_provider :: "(gostring \<Rightarrow> gostring) \<Rightarrow> (gostring, adapter) gomap \<Rightarrow> cfgProvider \<Rightarrow> (gostring, adapter) gomap" where
  "add_provider getenv m p = (case adapter_of getenv p of None \<Rightarrow> m | Some a \<Rightarrow> mput (cp_Name p) a m)"

definition buildProviders :: "(gostring \<Rightarrow> gostring) \<Rightarrow> config \<Rightarrow> (gostring, adapter) gomap" where
  "buildProviders getenv cfg = foldl (add_provider getenv) [] (c_Providers cfg)"

definition modelConfig_of :: "cfgModel \<Rightarrow> modelConfig" where
  "modelConfig_of m =
     \<lparr>mc_Alias = cm_ID m, mc_Provider = cm_Provider m, mc_Upstream = cm_Upstream m, mc_Price = cm_Price m,
      mc_MaxOutputTokens = cm_MaxOutputTokens m, mc_AcceptsSampling = AcceptsSampling m, mc_Fallbacks = cm_Fallbacks m\<rparr>"

definition provider_limits :: "config \<Rightarrow> (gostring, quota) gomap" where
  "provider_limits cfg =
     foldl (\<lambda>m p. if cp_RateLimitRPM p > 0 \<or> cp_RateLimitTPM p > 0
         then mput (cp_Name p) \<lparr>q_RPM = cp_RateLimitRPM p, q_TPM = cp_RateLimitTPM p\<rparr> m else m) [] (c_Providers cfg)"

record idp_clients =
  ic_google :: "gostring \<Rightarrow> gostring \<Rightarrow> idp" \<comment> \<open>client id and secret\<close>
  ic_github :: "gostring \<Rightarrow> gostring \<Rightarrow> idp"

text \<open>\<open>None\<close> stands for the nils of a console that is off.\<close>

definition buildConsole :: "(gostring \<Rightarrow> gostring) \<Rightarrow> idp_clients \<Rightarrow> cfgConsole \<Rightarrow> consoleServer option" where
  "buildConsole getenv ic cc =
     (if \<not> cc_Enabled cc then None
      else let secret = getenv (cc_SessionSecretEnv cc)
           in if length secret < 32 then None
              else case console_New \<lparr>oo_Secret = secret, oo_TTL = cc_SessionTTL cc,
                  oo_Accounts = map (\<lambda>a. \<lparr>ct_Username = cn_Username a, ct_PWHash = cn_PasswordHash a, ct_Admin = cn_Admin a\<rparr>)
                    (cc_Accounts cc),
                  oo_AdminEmails = cc_AdminEmails cc, oo_AdminDomains = cc_AdminDomains cc, oo_CookieName = [],
                  oo_AllowInsecure = cc_AllowInsecure cc\<rparr> of
                Inl _ \<Rightarrow> None
              | Inr mgr \<Rightarrow>
                  (let provs = (if oa_ClientID (cc_Google cc) \<noteq> [] then
                         mput ''google'' (ic_google ic (oa_ClientID (cc_Google cc)) (getenv (oa_ClientSecretEnv (cc_Google cc)))) []
                       else []);
                       provs2 = (if oa_ClientID (cc_GitHub cc) \<noteq> [] then
                         mput ''github'' (ic_github ic (oa_ClientID (cc_GitHub cc)) (getenv (oa_ClientSecretEnv (cc_GitHub cc)))) provs
                       else provs)
                   in Some \<lparr>cv_console = mgr, cv_oauth = provs2, cv_baseURL = cc_BaseURL cc, cv_secure = \<not> cc_AllowInsecure cc\<rparr>))"

section \<open>The gateway\<close>

record 'w outside =
  ow_getenv :: "gostring \<Rightarrow> gostring"
  ow_redis :: "gostring \<Rightarrow> gostring + 'w redis" \<comment> \<open>\<open>redis.ParseURL\<close> and \<open>NewClient\<close>\<close>
  ow_clock :: "'w \<Rightarrow> int"
  ow_ping :: "'w redis \<Rightarrow> 'w \<Rightarrow> gostring option \<times> 'w"
  ow_postgres :: "gostring \<Rightarrow> 'w \<Rightarrow> bool \<times> 'w" \<comment> \<open>\<open>pgledger.New\<close>\<close>
  ow_compile :: "gostring \<Rightarrow> matcher option"
  ow_idps :: idp_clients

record 'w gateway =
  gw_server :: "'w server"
  gw_adapters :: "(gostring, adapter) gomap"
  gw_policy :: "policy_store option"
  gw_guard :: "(gostring \<times> 'w redisStore) option" \<comment> \<open>secret and reconcile dedup of the decision API, when it is on\<close>
  gw_console :: "consoleServer option"
  gw_store :: "'w redisStore option"
  gw_durable :: bool
  gw_maxBody :: int
  gw_requestTimeout :: duration
  gw_writeTimeout :: duration

definition kill_ttl :: "config \<Rightarrow> duration" where
  "kill_ttl cfg = (if cf_KillTTL (c_Firewall cfg) \<le> 0 then DefaultKillTTL else cf_KillTTL (c_Firewall cfg))"

definition firewall_of :: "config \<Rightarrow> 'w firewall" where
  "firewall_of cfg =
     (let f = c_Firewall cfg
      in fw_New (cf_Enabled f) \<lparr>MaxUSDPerMin = cf_MaxUSDPerMin f, MaxTokensPerMin = cf_MaxTokensPerMin f,
           MaxConcurrent = cf_MaxConcurrent f, LoopThreshold = cf_LoopThreshold f, MaxUSDPerRun = cf_MaxUSDPerRun f,
           KillTTL = kill_ttl cfg\<rparr>)"

text \<open>The durable ledger: whether it is on, or the error of a database that cannot be reached.\<close>

definition connect_ledger :: "'w outside \<Rightarrow> config \<Rightarrow> 'w \<Rightarrow> (gostring + bool) \<times> 'w" where
  "connect_ledger ow cfg w =
     (let env = c_DatabaseURLEnv cfg; url = ow_getenv ow env
      in if env = [] \<or> url = [] then (Inr False, w)
         else case ow_postgres ow url w of
           (True, w1) \<Rightarrow> (Inr True, w1)
         | (False, w1) \<Rightarrow> (Inl ''durable ledger: could not connect to the configured database'', w1))"

text \<open>The shared store: none, a reachable Redis, or an error.\<close>

definition connect_redis :: "'w outside \<Rightarrow> config \<Rightarrow> 'w \<Rightarrow> (gostring + 'w redisStore option) \<times> 'w" where
  "connect_redis ow cfg w =
     (if cf_RedisURL (c_Firewall cfg) = [] then (Inr None, w)
      else case ow_redis ow (cf_RedisURL (c_Firewall cfg)) of
        Inl e \<Rightarrow> (Inl (''firewall redis: '' @ e), w)
      | Inr rdb \<Rightarrow>
          (let st = SetHoldTTL (seconds_of (cs_RequestTimeout (c_Server cfg)) + 60) (NewClient rdb (kill_ttl cfg) (ow_clock ow))
           in case ow_ping ow rdb w of
                (Some e, w1) \<Rightarrow> (Inl (''firewall redis unreachable: '' @ e), w1)
              | (None, w1) \<Rightarrow> (Inr (Some st), w1)))"

definition guard_secret :: "'w outside \<Rightarrow> config \<Rightarrow> 'w redisStore option \<Rightarrow> (gostring \<times> 'w redisStore) option" where
  "guard_secret ow cfg shared =
     (let cp = c_ControlPlane cfg; secret = ow_getenv ow (cl_GuardSecretEnv cp)
      in if \<not> cl_Enabled cp \<or> cl_GuardSecretEnv cp = [] \<or> length secret < 32 then None
         else case shared of None \<Rightarrow> None | Some st \<Rightarrow> Some (secret, st))"

definition broker_of :: "config \<Rightarrow> 'w redisStore option \<Rightarrow> 'w broker" where
  "broker_of cfg shared =
     (case shared of
        Some st \<Rightarrow> if provider_limits cfg \<noteq> [] then broker_New (Some (redis_scope_store st)) (provider_limits cfg)
                   else broker_New None []
      | None \<Rightarrow> broker_New None [])"

definition gateway_of :: "'w outside \<Rightarrow> config \<Rightarrow> bool \<Rightarrow> 'w redisStore option \<Rightarrow> 'w gateway" where
  "gateway_of ow cfg durable shared =
     (let adapters = buildProviders (ow_getenv ow) cfg;
          fw = WithScopeStore (map_option redis_scope_store shared)
            (WithKillStore (map_option redis_kill_store shared) (firewall_of cfg));
          pol = (if cl_Enabled (c_ControlPlane cfg) then Some policy_New else None);
          timeout = (if cs_RequestTimeout (c_Server cfg) \<le> 0 then 120 * second else cs_RequestTimeout (c_Server cfg));
          guardAPI = guard_secret ow cfg shared
      in \<lparr>gw_server = server_New (router_New (map modelConfig_of (c_Models cfg)) (c_DefaultModel cfg))
            (fst ` set adapters) ledger_New (Some (guard_New (c_AuthEnabled cfg) (c_Clients cfg)))
            (Some (health_New (co_ConsecutiveFailures (c_Failover cfg)) (co_Cooldown (c_Failover cfg))))
            (redactor_fun (redact_New (ow_compile ow) (cx_Enabled (c_Redaction cfg)) (cx_CustomPatterns (c_Redaction cfg))))
            (Some fw) (Some (broker_of cfg shared)) (map_option resolver_Resolve pol),
          gw_adapters = adapters, gw_policy = pol,
          gw_guard = (case guardAPI of
              Some (secret, st) \<Rightarrow> if guardReady secret (Some st) fw then guardAPI else None
            | None \<Rightarrow> None),
          gw_console = buildConsole (ow_getenv ow) (ow_idps ow) (cl_Console (c_ControlPlane cfg)),
          gw_store = shared, gw_durable = durable,
          gw_maxBody = (if cs_MaxRequestBytes (c_Server cfg) \<le> 0 then 1048576 else cs_MaxRequestBytes (c_Server cfg)),
          gw_requestTimeout = timeout,
          gw_writeTimeout = wrap64 (cs_RequestTimeout (c_Server cfg) + 30 * second)\<rparr>)"

definition heave_run :: "'w outside \<Rightarrow> config \<Rightarrow> 'w \<Rightarrow> (gostring + 'w gateway) \<times> 'w" where
  "heave_run ow cfg w =
     (case connect_ledger ow cfg w of
        (Inl e, w1) \<Rightarrow> (Inl e, w1)
      | (Inr durable, w1) \<Rightarrow>
          (case connect_redis ow cfg w1 of
             (Inl e, w2) \<Rightarrow> (Inl e, w2)
           | (Inr shared, w2) \<Rightarrow> (Inr (gateway_of ow cfg durable shared), w2)))"

section \<open>Maps built from lists\<close>

lemma fold_put_get:
  "distinct (map key xs) \<Longrightarrow> x \<in> set xs \<Longrightarrow> mget (foldl (\<lambda>m x. mput (key x) (val x) m) m xs) (key x) = Some (val x)"
proof (induction xs rule: rev_induct)
  case (snoc y xs)
  have "key x \<noteq> key y" if "x \<noteq> y"
  proof -
    have "x \<in> set xs" using snoc.prems(2) that by simp
    then show ?thesis using snoc.prems(1) by (auto simp: image_iff)
  qed
  then show ?case using snoc by (cases "x = y") auto
qed simp

lemma fold_put_other:
  "a \<notin> set (map key xs) \<Longrightarrow> mget (foldl (\<lambda>m x. mput (key x) (val x) m) m xs) a = mget m a"
  by (induction xs rule: rev_induct) auto

lemma mget_keys: "a \<in> fst ` set m \<longleftrightarrow> mget m a \<noteq> None"
  by (auto simp: mget_def map_of_eq_None_iff)

lemma adapter_known: "provider_ok p \<Longrightarrow> adapter_of getenv p \<noteq> None"
  by (auto simp: provider_ok_def adapter_of_def Let_def)

lemma buildProviders_get:
  assumes "config_valid compile c" "p \<in> set (c_Providers c)"
  shows "mget (buildProviders getenv c) (cp_Name p) = adapter_of getenv p"
proof -
  have known: "adapter_of getenv q \<noteq> None" if "q \<in> set (c_Providers c)" for q
    using assms(1) that adapter_known by (auto simp: config_valid_def)
  have "foldl (add_provider getenv) m ps = foldl (\<lambda>m p. mput (cp_Name p) (the (adapter_of getenv p)) m) m ps"
    if "set ps \<subseteq> set (c_Providers c)" for m ps
    by (rule foldl_cong) (use that known in \<open>fastforce simp: add_provider_def\<close>)+
  then have "mget (buildProviders getenv c) (cp_Name p) = Some (the (adapter_of getenv p))"
    using assms fold_put_get [of cp_Name "c_Providers c" p "\<lambda>p. the (adapter_of getenv p)"]
    by (simp add: buildProviders_def config_valid_def)
  then show ?thesis using known [OF assms(2)] by simp
qed

lemma router_model:
  assumes "models_valid c" "m \<in> set (c_Models c)"
  shows "mget (rt_models (router_New (map modelConfig_of (c_Models c)) d)) (cm_ID m) = Some (modelConfig_of m)"
proof -
  have "distinct (map mc_Alias (map modelConfig_of (c_Models c)))"
    using assms(1) by (simp add: models_valid_def modelConfig_of_def comp_def)
  from fold_put_get [OF this, of "modelConfig_of m" "\<lambda>mc. mc" "[]"] show ?thesis
    using assms(2) by (simp add: router_New_def modelConfig_of_def)
qed

lemma router_known:
  assumes "mget (rt_models (router_New (map modelConfig_of ms) d)) a = Some mc"
  shows "\<exists>m\<in>set ms. cm_ID m = a \<and> mc = modelConfig_of m"
proof -
  have "mget (foldl (\<lambda>m mc. mput (mc_Alias mc) mc m) M mcs) a = Some mc \<Longrightarrow>
      mget M a = Some mc \<or> (\<exists>x\<in>set mcs. mc_Alias x = a \<and> mc = x)" for M mcs
    by (induction mcs rule: rev_induct) (auto split: if_splits)
  from this [of "[]" "map modelConfig_of ms"] assms show ?thesis
    by (auto simp: router_New_def modelConfig_of_def)
qed

section \<open>The gateway serves what is configured\<close>

lemma heave_run_built:
  assumes "heave_run ow c w = (Inr gw, w')"
  shows "\<exists>durable shared w1. connect_redis ow c w1 = (Inr shared, w') \<and> gw = gateway_of ow c durable shared"
  using assms by (auto simp: heave_run_def split: prod.splits sum.splits)

lemma gateway_fields:
  "sv_router (gw_server (gateway_of ow c durable shared)) = router_New (map modelConfig_of (c_Models c)) (c_DefaultModel c)"
  "sv_providers (gw_server (gateway_of ow c durable shared)) = fst ` set (buildProviders (ow_getenv ow) c)"
  "gw_adapters (gateway_of ow c durable shared) = buildProviders (ow_getenv ow) c"
  "gw_store (gateway_of ow c durable shared) = shared"
  "sv_firewall (gw_server (gateway_of ow c durable shared)) =
     WithScopeStore (map_option redis_scope_store shared) (WithKillStore (map_option redis_kill_store shared) (firewall_of c))"
  by (simp_all add: gateway_of_def server_New_def Let_def)

lemma Candidates_decisions:
  assumes "Candidates a (router_New (map modelConfig_of ms) d) = Inr ds" "x \<in> set ds"
  shows "\<exists>m\<in>set ms. x = decisionFor (modelConfig_of m)"
proof -
  let ?r = "router_New (map modelConfig_of ms) d"
  have "\<exists>b mc. mget (rt_models ?r) b = Some mc \<and> x = decisionFor mc"
    using assms chase_decisions [of x "rt_models ?r"]
    by (fastforce simp: Candidates_def Let_def split: option.splits)
  then show ?thesis using router_known by blast
qed


definition ex_outside :: "unit outside" where
  "ex_outside = \<lparr>ow_getenv = (\<lambda>_. ''secret''), ow_redis = (\<lambda>_. Inl ''no redis''), ow_clock = (\<lambda>_. 0), ow_ping = (\<lambda>_ w. (None, w)),
     ow_postgres = (\<lambda>_ w. (False, w)), ow_compile = (\<lambda>_. None),
     ow_idps = \<lparr>ic_google = (\<lambda>_ _. \<lparr>idp_AuthCodeURL = (\<lambda>_ _. []), idp_FetchIdentity = (\<lambda>_ _. Inl [])\<rparr>),
       ic_github = (\<lambda>_ _. \<lparr>idp_AuthCodeURL = (\<lambda>_ _. []), idp_FetchIdentity = (\<lambda>_ _. Inl [])\<rparr>)\<rparr>\<rparr>"

lemma ex_config_loads:
  "validate (ow_compile ex_outside) ex_config = Inr (ex_config\<lparr>c_Server := set_defaults (c_Server ex_config)\<rparr>)"
  using ex_config_valid by (simp add: validate_valid ex_outside_def)


section \<open>The shared store\<close>

lemma connect_redis_store:
  assumes "connect_redis ow c w = (Inr (Some st), w')"
  shows "rs_ttl st = kill_ttl c \<and> 0 < kill_ttl c \<and> 300 \<le> rs_holdTTL st \<and>
    (0 \<le> cs_RequestTimeout (c_Server c) \<longrightarrow> cs_RequestTimeout (c_Server c) div second + 60 \<le> rs_holdTTL st)"
proof -
  obtain rdb where st: "st = SetHoldTTL (seconds_of (cs_RequestTimeout (c_Server c)) + 60) (NewClient rdb (kill_ttl c) (ow_clock ow))"
    using assms by (auto simp: connect_redis_def Let_def split: if_splits sum.splits option.splits prod.splits)
  have "0 < kill_ttl c" by (simp add: kill_ttl_def DefaultKillTTL_def second_def)
  then show ?thesis
    by (simp add: st SetHoldTTL_def NewClient_def holdTTLSecs_def seconds_of_def)
qed

text \<open>
  C33. The shared store is wired so that it holds what it promises. In a gateway started from a loaded configuration with
  Redis: the firewall enforces and kills through that store, a kill lives in Redis exactly as long as in the local map
  and never without expiry, and a concurrency hold taken at the start of a request outlives the request timeout by at
  least 59 seconds, so no live request is reaped as a crashed one. The decision API is on only with a secret of 32
  bytes or more, and it deduplicates through the same store.
\<close>
theorem shared_store_wired:
  assumes "validate (ow_compile ow) c0 = Inr c" "heave_run ow c w = (Inr gw, w')" "gw_store gw = Some st"
  shows "fw_scopeStore (sv_firewall (gw_server gw)) = Some (redis_scope_store st) \<and>
    fw_sharedKills (sv_firewall (gw_server gw)) = Some (redis_kill_store st) \<and>
    rs_ttl st = ks_ttl (fw_localKills (sv_firewall (gw_server gw))) \<and> 0 < rs_ttl st \<and>
    gw_requestTimeout gw + 59 * second < rs_holdTTL st * second \<and>
    (\<forall>secret st'. gw_guard gw = Some (secret, st') \<longrightarrow> st' = st \<and> 32 \<le> length secret)"
proof -
  obtain durable shared w1 where run: "connect_redis ow c w1 = (Inr shared, w')" "gw = gateway_of ow c durable shared"
    using heave_run_built [OF assms(2)] by blast
  have shared: "shared = Some st" using assms(3) by (simp add: run(2) gateway_fields)
  have timeout: "0 < cs_RequestTimeout (c_Server c)" using validate_result [OF assms(1)] by simp
  then have gwt: "gw_requestTimeout gw = cs_RequestTimeout (c_Server c)" by (simp add: run(2) gateway_of_def Let_def)
  note st = connect_redis_store [OF run(1) [unfolded shared]]
  have "cs_RequestTimeout (c_Server c) < (cs_RequestTimeout (c_Server c) div second + 1) * second"
    using pos_mod_bound [of second "cs_RequestTimeout (c_Server c)"] div_mult_mod_eq [of "cs_RequestTimeout (c_Server c)" second]
    by (simp add: second_def algebra_simps)
  moreover have "(cs_RequestTimeout (c_Server c) div second + 60) * second \<le> rs_holdTTL st * second"
    using st timeout by (intro mult_right_mono) (simp_all add: second_def)
  ultimately have hold: "gw_requestTimeout gw + 59 * second < rs_holdTTL st * second"
    by (simp add: gwt algebra_simps)
  have local: "ks_ttl (fw_localKills (sv_firewall (gw_server gw))) = kill_ttl c"
    using st by (simp add: run(2) shared gateway_fields WithScopeStore_def WithKillStore_def firewall_of_def fw_New_def newMemKillStore_def Let_def)
  have guard: "st' = st \<and> 32 \<le> length secret" if "gw_guard gw = Some (secret, st')" for secret st'
    using that by (auto simp: run(2) shared gateway_of_def guard_secret_def Let_def split: option.splits if_splits)
  show ?thesis using hold local guard st
    by (simp add: run(2) shared gateway_fields WithScopeStore_def WithKillStore_def)
qed

definition ex_shared :: config where
  "ex_shared = ex_config\<lparr>c_Firewall := (c_Firewall ex_config)\<lparr>cf_RedisURL := ''redis://r''\<rparr>,
     c_Server := set_defaults (c_Server ex_config)\<rparr>"

definition ex_cluster :: "mem_world outside" where
  "ex_cluster = \<lparr>ow_getenv = (\<lambda>_. []), ow_redis = (\<lambda>_. Inr mem_redis), ow_clock = mw_now, ow_ping = (\<lambda>_ w. (None, w)),
     ow_postgres = (\<lambda>_ w. (False, w)), ow_compile = (\<lambda>_. None), ow_idps = ow_idps ex_outside\<rparr>"

theorem shared_store_wired_witness:
  "\<exists>gw st. heave_run ex_cluster ex_shared ex_world = (Inr gw, ex_world) \<and> gw_store gw = Some st \<and>
    gw_requestTimeout gw + 59 * second < rs_holdTTL st * second"
proof -
  have "config_valid (\<lambda>_. None) ex_shared"
    by (simp add: ex_shared_def ex_config_def config_valid_def provider_ok_def models_valid_def clients_valid_def firewall_valid_def)
  then have "validate (ow_compile ex_cluster) ex_shared = Inr (ex_shared\<lparr>c_Server := set_defaults (c_Server ex_shared)\<rparr>)"
    by (simp add: validate_valid ex_cluster_def)
  moreover have "ex_shared\<lparr>c_Server := set_defaults (c_Server ex_shared)\<rparr> = ex_shared"
    by (simp add: ex_shared_def ex_config_def set_defaults_def second_def)
  ultimately have load: "validate (ow_compile ex_cluster) ex_shared = Inr ex_shared" by simp
  obtain gw where gw: "heave_run ex_cluster ex_shared ex_world = (Inr gw, ex_world)" "gw_store gw \<noteq> None"
    by (simp add: heave_run_def connect_ledger_def connect_redis_def ex_shared_def ex_config_def ex_cluster_def gateway_fields)
  then obtain st where "gw_store gw = Some st" by auto
  then show ?thesis using shared_store_wired [OF load gw(1)] gw(1) by blast
qed

text \<open>A configuration that leaves the failover section out opens a breaker after the first failure.\<close>

lemma breaker_default_is_one:
  assumes "co_ConsecutiveFailures (c_Failover c) = 0"
  shows "ht_threshold (sv_health (gw_server (gateway_of ow c durable shared))) = 1"
  using assms by (simp add: gateway_of_def server_New_def health_New_def Let_def)

end
