(* ===== verification/DurableLedger.thy ===== *)
theory DurableLedger
  imports Ledger "HOL-Library.Sublist"
begin

text \<open>
  The durable spend sink of \<open>internal/pgledger/pgledger.go\<close>: non-blocking writers, a bounded channel, one goroutine
  that batches records to the database, and a \<open>Close\<close> that drains what is left. The goroutines run concurrently,
  so the component is a step relation \<open>sink_step\<close>: every step is one atomic action of a writer, of the loop or of
  \<open>Close\<close>, and any interleaving of enabled steps is an execution.

  The database is the world \<open>'d\<close> with the injected \<open>flush\<close>, which accepts a batch or reports an error; \<open>sk_flushed\<close>
  records what it accepted. The batch, which is local to the goroutine, and the program counters are part of the
  state. The counter \<open>dropped\<close> counts calls and is unbounded here.
\<close>

section \<open>The buffered channel\<close>

definition chan_send :: "nat \<Rightarrow> 'e \<Rightarrow> 'e list \<Rightarrow> 'e list option" where
  "chan_send capacity e ch = (if length ch < capacity then Some (ch @ [e]) else None)"

definition chan_recv :: "'e list \<Rightarrow> ('e \<times> 'e list) option" where
  "chan_recv ch = (case ch of [] \<Rightarrow> None | e # es \<Rightarrow> Some (e, es))"

text \<open>
  What the sink relies on: a non-blocking send appends unless the buffer is full, a receive takes the oldest element
  unless the buffer is empty.
\<close>

locale buffered_channel =
  fixes send :: "nat \<Rightarrow> 'e \<Rightarrow> 'c \<Rightarrow> 'c option" and recv :: "'c \<Rightarrow> ('e \<times> 'c) option" and buf :: "'c \<Rightarrow> 'e list"
  assumes send_Some: "send n e c = Some c' \<Longrightarrow> length (buf c) < n \<and> buf c' = buf c @ [e]"
    and send_None: "send n e c = None \<longleftrightarrow> n \<le> length (buf c)"
    and recv_Some: "recv c = Some (e, c') \<Longrightarrow> buf c = e # buf c'"
    and recv_None: "recv c = None \<longleftrightarrow> buf c = []"
begin

lemma send_bounded: "send n e c = Some c' \<Longrightarrow> length (buf c') \<le> n"
  using send_Some by fastforce

lemma recv_bounded: "recv c = Some (e, c') \<Longrightarrow> length (buf c) \<le> n \<Longrightarrow> length (buf c') \<le> n"
  using recv_Some by fastforce

lemma recv_shrinks: "recv c = Some (e, c') \<Longrightarrow> length (buf c) = Suc (length (buf c'))"
  using recv_Some by fastforce

lemma recv_ready: "buf c \<noteq> [] \<Longrightarrow> \<exists>e c'. recv c = Some (e, c')"
  using recv_None by (metis not_Some_eq surj_pair)

end

interpretation ch: buffered_channel chan_send chan_recv "\<lambda>c. c"
  by unfold_locales (auto simp: chan_send_def chan_recv_def split: if_splits list.splits)

section \<open>State\<close>

record sinkEntry =
  se_rec :: lrecord
  se_ts :: instant

text \<open>
  The program counter of the loop: waiting in its \<open>select\<close>, in a synchronous flush that returns there, draining after
  the shutdown signal, in a flush of the drain, in the final flush, or returned (\<open>done\<close> closed).
\<close>

datatype loopPc = Collect | FlushCollect | Drain | FlushDrain | FlushStop | Stopped

text \<open>\<open>Close\<close>: not called, \<open>closed\<close> set, waiting for \<open>done\<close> after closing \<open>quit\<close>, sweeping the channel, or returned.\<close>

datatype closePc = NotClosed | Marked | Waiting | Sweeping | Returned

record 'd sink =
  sk_ch :: "sinkEntry list"
  sk_dropped :: nat
  sk_closed :: bool
  sk_quit :: bool
  sk_done :: bool
  sk_pool :: bool \<comment> \<open>the connection pool is open\<close>
  sk_batch :: "sinkEntry list"
  sk_loop :: loopPc
  sk_close :: closePc
  sk_writers :: "lrecord list" \<comment> \<open>\<open>Write\<close> calls past the check of \<open>closed\<close>, before the \<open>select\<close>\<close>
  sk_flushed :: "sinkEntry list"
  sk_db :: 'd

definition defaultBuffer :: nat where "defaultBuffer = 4096"
definition defaultBatch :: nat where "defaultBatch = 256"

definition newStore :: "'d \<Rightarrow> 'd sink" where
  "newStore db = \<lparr>sk_ch = [], sk_dropped = 0, sk_closed = False, sk_quit = False, sk_done = False, sk_pool = True,
     sk_batch = [], sk_loop = Collect, sk_close = NotClosed, sk_writers = [], sk_flushed = [], sk_db = db\<rparr>"

section \<open>Actions\<close>

definition drop_one :: "'d sink \<Rightarrow> 'd sink" where
  "drop_one s = s\<lparr>sk_dropped := sk_dropped s + 1\<rparr>"

text \<open>\<open>Write\<close>: the check of \<open>closed\<close>, and later the non-blocking send.\<close>

definition Write_check :: "lrecord \<Rightarrow> 'd sink \<Rightarrow> 'd sink" where
  "Write_check r s = (if sk_closed s then drop_one s else s\<lparr>sk_writers := sk_writers s @ [r]\<rparr>)"

definition drop_nth :: "nat \<Rightarrow> 'a list \<Rightarrow> 'a list" where
  "drop_nth i xs = take i xs @ drop (Suc i) xs"

definition Write_send :: "nat \<Rightarrow> nat \<Rightarrow> instant \<Rightarrow> 'd sink \<Rightarrow> 'd sink" where
  "Write_send capacity i now s =
     (let s1 = s\<lparr>sk_writers := drop_nth i (sk_writers s)\<rparr>
      in case chan_send capacity \<lparr>se_rec = sk_writers s ! i, se_ts = now\<rparr> (sk_ch s) of
           Some ch \<Rightarrow> s1\<lparr>sk_ch := ch\<rparr>
         | None \<Rightarrow> drop_one s1)"

text \<open>The closure \<open>doFlush\<close> of the loop.\<close>

type_synonym 'd flush = "sinkEntry list \<Rightarrow> 'd \<Rightarrow> bool \<times> 'd"

definition doFlush :: "'d flush \<Rightarrow> 'd sink \<Rightarrow> 'd sink" where
  "doFlush flush s =
     (if sk_batch s = [] then s
      else let (ok, db) = flush (sk_batch s) (sk_db s)
           in if ok then s\<lparr>sk_db := db, sk_flushed := sk_flushed s @ sk_batch s, sk_batch := []\<rparr>
              else s\<lparr>sk_db := db, sk_dropped := sk_dropped s + length (sk_batch s), sk_batch := []\<rparr>)"

text \<open>A receive of the loop, which flushes when the batch is full; \<open>wait\<close> and \<open>full\<close> are where it goes on.\<close>

definition loop_recv :: "nat \<Rightarrow> loopPc \<Rightarrow> loopPc \<Rightarrow> 'd sink \<Rightarrow> 'd sink" where
  "loop_recv batchN wait full s =
     (case chan_recv (sk_ch s) of
        None \<Rightarrow> s
      | Some (e, ch) \<Rightarrow>
          (let batch = sk_batch s @ [e]
           in s\<lparr>sk_ch := ch, sk_batch := batch, sk_loop := (if length batch \<ge> batchN then full else wait)\<rparr>))"

definition loop_flush :: "'d flush \<Rightarrow> loopPc \<Rightarrow> 'd sink \<Rightarrow> 'd sink" where
  "loop_flush flush next_pc s = (doFlush flush s)\<lparr>sk_loop := next_pc\<rparr>"

definition loop_stop :: "'d flush \<Rightarrow> 'd sink \<Rightarrow> 'd sink" where
  "loop_stop flush s = (doFlush flush s)\<lparr>sk_loop := Stopped, sk_done := True\<rparr>"

text \<open>\<open>Close\<close>, under its \<open>sync.Once\<close>.\<close>

definition Close_mark :: "'d sink \<Rightarrow> 'd sink" where
  "Close_mark s = s\<lparr>sk_closed := True, sk_close := Marked\<rparr>"

definition Close_quit :: "'d sink \<Rightarrow> 'd sink" where
  "Close_quit s = s\<lparr>sk_quit := True, sk_close := Waiting\<rparr>"

definition Close_sweep :: "'d sink \<Rightarrow> 'd sink" where
  "Close_sweep s =
     (case chan_recv (sk_ch s) of
        Some (e, ch) \<Rightarrow> drop_one (s\<lparr>sk_ch := ch\<rparr>)
      | None \<Rightarrow> s\<lparr>sk_pool := False, sk_close := Returned\<rparr>)"

section \<open>Executions\<close>

datatype sinkAct =
    ActWrite lrecord | ActSend nat instant
  | ActRecv | ActTick | ActFlush | ActQuit | ActStop
  | ActMark | ActClose | ActWaited | ActSweep

inductive sink_step :: "'d flush \<Rightarrow> nat \<Rightarrow> nat \<Rightarrow> 'd sink \<Rightarrow> sinkAct \<Rightarrow> 'd sink \<Rightarrow> bool"
  for flush capacity batchN where
  step_write: "sink_step flush capacity batchN s (ActWrite r) (Write_check r s)"
| step_send: "i < length (sk_writers s) \<Longrightarrow>
    sink_step flush capacity batchN s (ActSend i now) (Write_send capacity i now s)"
| step_recv: "sk_loop s = Collect \<Longrightarrow> sk_ch s \<noteq> [] \<Longrightarrow>
    sink_step flush capacity batchN s ActRecv (loop_recv batchN Collect FlushCollect s)"
| step_tick: "sk_loop s = Collect \<Longrightarrow> sink_step flush capacity batchN s ActTick (s\<lparr>sk_loop := FlushCollect\<rparr>)"
| step_flush: "sk_loop s = FlushCollect \<Longrightarrow> sink_step flush capacity batchN s ActFlush (loop_flush flush Collect s)"
| step_quit: "sk_loop s = Collect \<Longrightarrow> sk_quit s \<Longrightarrow>
    sink_step flush capacity batchN s ActQuit (s\<lparr>sk_loop := Drain\<rparr>)"
| step_drain: "sk_loop s = Drain \<Longrightarrow> sk_ch s \<noteq> [] \<Longrightarrow>
    sink_step flush capacity batchN s ActRecv (loop_recv batchN Drain FlushDrain s)"
| step_drained: "sk_loop s = Drain \<Longrightarrow> sk_ch s = [] \<Longrightarrow>
    sink_step flush capacity batchN s ActStop (s\<lparr>sk_loop := FlushStop\<rparr>)"
| step_drain_flush: "sk_loop s = FlushDrain \<Longrightarrow>
    sink_step flush capacity batchN s ActFlush (loop_flush flush Drain s)"
| step_stop: "sk_loop s = FlushStop \<Longrightarrow> sink_step flush capacity batchN s ActFlush (loop_stop flush s)"
| step_mark: "sk_close s = NotClosed \<Longrightarrow> sink_step flush capacity batchN s ActMark (Close_mark s)"
| step_close: "sk_close s = Marked \<Longrightarrow> sink_step flush capacity batchN s ActClose (Close_quit s)"
| step_waited: "sk_close s = Waiting \<Longrightarrow> sk_done s \<Longrightarrow>
    sink_step flush capacity batchN s ActWaited (s\<lparr>sk_close := Sweeping\<rparr>)"
| step_sweep: "sk_close s = Sweeping \<Longrightarrow> sink_step flush capacity batchN s ActSweep (Close_sweep s)"

inductive sink_run :: "'d flush \<Rightarrow> nat \<Rightarrow> nat \<Rightarrow> 'd sink \<Rightarrow> sinkAct list \<Rightarrow> 'd sink \<Rightarrow> bool"
  for flush capacity batchN s where
  run_none: "sink_run flush capacity batchN s [] s"
| run_step: "sink_run flush capacity batchN s acts s1 \<Longrightarrow> sink_step flush capacity batchN s1 a s2 \<Longrightarrow>
    sink_run flush capacity batchN s (acts @ [a]) s2"

text \<open>The records handed to \<open>Write\<close> in an execution.\<close>

fun written :: "sinkAct list \<Rightarrow> lrecord list" where
  "written [] = []"
| "written (ActWrite r # acts) = r # written acts"
| "written (_ # acts) = written acts"

lemma written_append [simp]: "written (xs @ ys) = written xs @ written ys"
  by (induction xs rule: written.induct) auto

fun send_times :: "sinkAct list \<Rightarrow> instant list" where
  "send_times [] = []"
| "send_times (ActSend i now # acts) = now # send_times acts"
| "send_times (_ # acts) = send_times acts"

lemma send_times_append [simp]: "send_times (xs @ ys) = send_times xs @ send_times ys"
  by (induction xs rule: send_times.induct) auto

inductive_cases sink_stepE: "sink_step flush capacity batchN s a s'"

lemmas sink_actions = Write_check_def Write_send_def loop_recv_def loop_flush_def loop_stop_def doFlush_def drop_one_def
  Close_mark_def Close_quit_def Close_sweep_def Let_def

lemma mset_drop_nth: "i < length xs \<Longrightarrow> mset (drop_nth i xs) + {#xs ! i#} = mset xs"
proof -
  assume "i < length xs"
  then have "mset xs = mset (take i xs @ xs ! i # drop (Suc i) xs)" by (simp flip: id_take_nth_drop)
  then show ?thesis by (simp add: drop_nth_def)
qed

lemma length_drop_nth: "i < length xs \<Longrightarrow> length (drop_nth i xs) = length xs - 1"
  by (simp add: drop_nth_def)

section \<open>Every record is accounted for\<close>

definition sink_ok :: "nat \<Rightarrow> nat \<Rightarrow> 'd sink \<Rightarrow> bool" where
  "sink_ok capacity batchN s \<longleftrightarrow>
     length (sk_ch s) \<le> capacity \<and> length (sk_batch s) \<le> batchN
     \<and> (sk_loop s \<in> {Collect, Drain} \<longrightarrow> length (sk_batch s) < batchN)
     \<and> (sk_closed s \<longleftrightarrow> sk_close s \<noteq> NotClosed) \<and> (sk_quit s \<longleftrightarrow> sk_close s \<in> {Waiting, Sweeping, Returned})
     \<and> (sk_done s \<longleftrightarrow> sk_loop s = Stopped) \<and> (sk_loop s \<in> {Drain, FlushDrain, FlushStop, Stopped} \<longrightarrow> sk_quit s)
     \<and> (sk_loop s = Stopped \<longrightarrow> sk_batch s = []) \<and> (sk_close s \<in> {Sweeping, Returned} \<longrightarrow> sk_done s)
     \<and> (sk_pool s \<longleftrightarrow> sk_close s \<noteq> Returned)"

definition held_records :: "'d sink \<Rightarrow> lrecord multiset" where
  "held_records s = mset (map se_rec (sk_flushed s)) + mset (map se_rec (sk_batch s)) + mset (map se_rec (sk_ch s))
     + mset (sk_writers s)"

definition kept_times :: "'d sink \<Rightarrow> instant list" where
  "kept_times s = map se_ts (sk_flushed s @ sk_batch s @ sk_ch s)"

lemma sink_ok_new: "0 < batchN \<Longrightarrow> sink_ok capacity batchN (newStore db)"
  by (simp add: sink_ok_def newStore_def)

lemma sink_step_ok:
  assumes "sink_step flush capacity batchN s a s'" "sink_ok capacity batchN s" "0 < batchN"
  shows "sink_ok capacity batchN s'"
  using assms
  by (cases rule: sink_step.cases)
    (auto simp: sink_ok_def sink_actions chan_send_def chan_recv_def split: list.splits option.splits if_splits prod.splits)

lemma sink_step_accounts:
  assumes "sink_step flush capacity batchN s a s'"
  shows "\<exists>lost. held_records s + mset (written [a]) = held_records s' + lost
    \<and> sk_dropped s' = sk_dropped s + size lost"
  using assms
proof (cases rule: sink_step.cases)
  case (step_write r)
  then show ?thesis
    by (auto simp: held_records_def sink_actions intro: exI [of _ "{#}"])
next
  case (step_send i now)
  note eq = mset_drop_nth [OF step_send(3)]
  show ?thesis
  proof (cases "length (sk_ch s) < capacity")
    case True
    then show ?thesis using step_send
      by (intro exI [of _ "{#}"]) (simp add: held_records_def sink_actions chan_send_def flip: eq)
  next
    case False
    then show ?thesis using step_send
      by (intro exI [of _ "{#sk_writers s ! i#}"]) (simp add: held_records_def sink_actions chan_send_def flip: eq)
  qed
next
  case step_flush
  then show ?thesis
    by (cases "fst (flush (sk_batch s) (sk_db s))")
      (force simp: held_records_def sink_actions split: prod.splits)+
next
  case step_drain_flush
  then show ?thesis
    by (cases "fst (flush (sk_batch s) (sk_db s))")
      (force simp: held_records_def sink_actions split: prod.splits)+
next
  case step_stop
  then show ?thesis
    by (cases "fst (flush (sk_batch s) (sk_db s))")
      (force simp: held_records_def sink_actions split: prod.splits)+
qed (auto simp: held_records_def sink_actions chan_recv_def split: list.splits option.splits)

lemma sink_step_order:
  assumes "sink_step flush capacity batchN s a s'" "subseq (kept_times s) ts"
  shows "subseq (kept_times s') (ts @ send_times [a])"
proof -
  have skip: "subseq xs (ts @ us)" if "subseq xs ts" for xs us :: "instant list"
    using that by (metis append.right_neutral list_emb_append_mono list_emb_Nil)
  have drop: "subseq (A @ C) us" if "subseq (A @ B @ C) us" for A B C us :: "instant list"
    using that by (meson subseq_append' subseq_order.trans list_emb_append2 subseq_order.refl)
  from assms show ?thesis
  proof (cases rule: sink_step.cases)
    case (step_send i now)
    have "subseq (kept_times s @ [now]) (ts @ [now])" using assms(2) by (simp add: list_emb_append_mono)
    then show ?thesis using step_send skip [OF assms(2), of "[now]"]
      by (simp add: kept_times_def sink_actions chan_send_def split: if_splits)
  next
    case step_sweep
    then show ?thesis
      using assms(2) drop [of "map se_ts (sk_flushed s) @ map se_ts (sk_batch s)" "[se_ts (hd (sk_ch s))]" _ ts]
      by (auto simp: kept_times_def sink_actions chan_recv_def split: list.splits)
  qed (use assms(2) in \<open>auto simp: kept_times_def sink_actions chan_recv_def
      split: list.splits option.splits prod.splits intro: drop\<close>)
qed

lemma sink_run_ok:
  "sink_run flush capacity batchN s acts s' \<Longrightarrow> sink_ok capacity batchN s \<Longrightarrow> 0 < batchN \<Longrightarrow> sink_ok capacity batchN s'"
  by (induction rule: sink_run.induct) (auto intro: sink_step_ok)

lemma sink_run_accounts:
  assumes "sink_run flush capacity batchN s acts s'"
  shows "\<exists>lost. held_records s + mset (written acts) = held_records s' + lost
    \<and> sk_dropped s' = sk_dropped s + size lost"
  using assms
proof (induction rule: sink_run.induct)
  case (run_step acts s1 a s2)
  then obtain l1 l2 where "held_records s + mset (written acts) = held_records s1 + l1" "sk_dropped s1 = sk_dropped s + size l1"
    "held_records s1 + mset (written [a]) = held_records s2 + l2" "sk_dropped s2 = sk_dropped s1 + size l2"
    using sink_step_accounts by meson
  then have "held_records s + mset (written (acts @ [a])) = held_records s2 + (l1 + l2)"
    "sk_dropped s2 = sk_dropped s + size (l1 + l2)"
    by (simp_all add: ac_simps) (metis add.assoc add.commute)
  then show ?case by blast
qed (auto intro: exI [of _ "{#}"])

lemma sink_run_order:
  "sink_run flush capacity batchN s acts s' \<Longrightarrow> kept_times s = [] \<Longrightarrow> subseq (kept_times s') (send_times acts)"
  by (induction rule: sink_run.induct) (auto intro: sink_step_order)

text \<open>
  C37. The durable sink accounts for every record. In every execution, under any interleaving of concurrent writers,
  the batching goroutine, its ticker, failing flushes and \<open>Close\<close>, the records handed to \<open>Write\<close> are exactly those the
  database accepted, those in the batch, in the channel or in a call still in flight, and as many others as
  \<open>Dropped\<close> counts. What is kept keeps the order in which it was sent, the channel never outgrows its buffer and
  the batch never outgrows its size.
\<close>
theorem sink_accounts_every_record:
  assumes "sink_run flush capacity batchN (newStore db) acts s" "0 < batchN"
  shows "(\<exists>lost. size lost = sk_dropped s \<and> mset (written acts) =
      mset (map se_rec (sk_flushed s)) + mset (map se_rec (sk_batch s)) + mset (map se_rec (sk_ch s))
      + mset (sk_writers s) + lost) \<and>
    subseq (map se_ts (sk_flushed s @ sk_batch s @ sk_ch s)) (send_times acts) \<and>
    length (sk_ch s) \<le> capacity \<and> length (sk_batch s) \<le> batchN"
proof (intro conjI)
  show "\<exists>lost. size lost = sk_dropped s \<and> mset (written acts) =
      mset (map se_rec (sk_flushed s)) + mset (map se_rec (sk_batch s)) + mset (map se_rec (sk_ch s))
      + mset (sk_writers s) + lost"
    using sink_run_accounts [OF assms(1)] by (force simp: held_records_def newStore_def)
  show "subseq (map se_ts (sk_flushed s @ sk_batch s @ sk_ch s)) (send_times acts)"
    using sink_run_order [OF assms(1)] by (simp add: kept_times_def newStore_def)
  show "length (sk_ch s) \<le> capacity" "length (sk_batch s) \<le> batchN"
    using sink_run_ok [OF assms(1) sink_ok_new assms(2)] assms(2) by (simp_all add: sink_ok_def)
qed

section \<open>Closing\<close>

definition closing_quietly :: "'d sink \<Rightarrow> bool" where
  "closing_quietly s \<longleftrightarrow> sk_closed s \<and> sk_writers s = [] \<and> sk_close s \<in> {Marked, Waiting, Sweeping, Returned}
     \<and> (sk_close s = Returned \<longrightarrow> sk_ch s = [])"

lemma closing_quietly_step:
  assumes "sink_step flush capacity batchN s a s'" "closing_quietly s" "sink_ok capacity batchN s"
  shows "closing_quietly s'"
  using assms
  by (cases rule: sink_step.cases)
    (auto simp: closing_quietly_def sink_ok_def sink_actions chan_recv_def split: list.splits option.splits prod.splits)

lemma closing_quietly_run:
  "sink_run flush capacity batchN s acts s' \<Longrightarrow> closing_quietly s \<Longrightarrow> sink_ok capacity batchN s \<Longrightarrow> 0 < batchN \<Longrightarrow>
   closing_quietly s'"
  by (induction rule: sink_run.induct) (auto intro: closing_quietly_step sink_run_ok)

lemma sink_run_append:
  "sink_run flush capacity batchN s1 acts' s' \<Longrightarrow> sink_run flush capacity batchN s acts s1 \<Longrightarrow>
   sink_run flush capacity batchN s (acts @ acts') s'"
  by (induction rule: sink_run.induct) (auto simp flip: append_assoc intro: sink_run.intros)

text \<open>
  \<open>Close\<close> loses nothing silently. If at some moment between the call of \<open>Close\<close> and its return no \<open>Write\<close> is in
  flight, then once \<open>Close\<close> has returned the channel and the batch are empty and every record ever handed to \<open>Write\<close>
  was accepted by the database or is counted by \<open>Dropped\<close>.
\<close>
theorem close_loses_nothing:
  assumes "sink_run flush capacity batchN (newStore db) acts1 s1" "0 < batchN"
    and "sk_close s1 \<in> {Marked, Waiting, Sweeping}" "sk_writers s1 = []"
    and "sink_run flush capacity batchN s1 acts2 s2" "sk_close s2 = Returned"
  shows "sk_ch s2 = [] \<and> sk_batch s2 = [] \<and> \<not> sk_pool s2 \<and>
    (\<exists>lost. size lost = sk_dropped s2 \<and> mset (written (acts1 @ acts2)) = mset (map se_rec (sk_flushed s2)) + lost)"
proof -
  have ok1: "sink_ok capacity batchN s1" by (rule sink_run_ok [OF assms(1) sink_ok_new [OF assms(2)] assms(2)])
  have ok2: "sink_ok capacity batchN s2" by (rule sink_run_ok [OF assms(5) ok1 assms(2)])
  have "sk_closed s1" using assms(3) ok1 by (cases "sk_close s1") (simp_all add: sink_ok_def)
  then have "closing_quietly s1" using assms(3,4) by (cases "sk_close s1") (simp_all add: closing_quietly_def)
  then have quiet: "closing_quietly s2" using closing_quietly_run [OF assms(5) _ ok1 assms(2)] by simp
  have empty: "sk_ch s2 = []" "sk_batch s2 = []" "sk_writers s2 = []" "\<not> sk_pool s2"
    using quiet ok2 assms(6) by (cases "sk_loop s2"; simp add: closing_quietly_def sink_ok_def)+
  obtain lost where "held_records (newStore db) + mset (written (acts1 @ acts2)) = held_records s2 + lost"
    "sk_dropped s2 = sk_dropped (newStore db) + size lost"
    using sink_run_accounts [OF sink_run_append [OF assms(5,1)]] by blast
  then show ?thesis using empty by (intro conjI exI [of _ lost]) (simp_all add: held_records_def newStore_def)
qed

text \<open>
  The comment of \<open>Close\<close> says a \<open>Write\<close> preempted between its check and its send is counted by the sweep. It is
  counted when it sends before the sweep finds the channel empty; a send after that is neither persisted nor counted.
\<close>

definition late_write :: "lrecord \<Rightarrow> instant \<Rightarrow> sinkAct list" where
  "late_write r now = [ActWrite r, ActMark, ActClose, ActQuit, ActStop, ActFlush, ActWaited, ActSweep, ActSend 0 now]"

lemma sink_run_Cons:
  assumes "sink_step flush capacity batchN s a s1" "sink_run flush capacity batchN s1 acts s2"
  shows "sink_run flush capacity batchN s (a # acts) s2"
  using sink_run_append [OF assms(2) run_step [OF run_none assms(1)]] by simp

lemma late_write_uncounted:
  assumes "0 < capacity"
  shows "\<exists>s. sink_run flush capacity batchN (newStore db) (late_write r now) s \<and> sk_close s = Returned \<and>
    sk_flushed s = [] \<and> sk_dropped s = 0 \<and> sk_ch s = [\<lparr>se_rec = r, se_ts = now\<rparr>]"
proof -
  define s1 where "s1 = Close_quit (Close_mark (Write_check r (newStore db)))"
  define s2 where "s2 = Close_sweep (loop_stop flush (s1\<lparr>sk_loop := FlushStop\<rparr>)\<lparr>sk_close := Sweeping\<rparr>)"
  note eval = sink_actions newStore_def chan_recv_def chan_send_def drop_nth_def
  have to_s1: "sink_run flush capacity batchN (newStore db) [ActWrite r, ActMark, ActClose] s1"
    unfolding s1_def
    by (intro sink_run_Cons [OF step_write] sink_run_Cons [OF step_mark] sink_run_Cons [OF step_close] run_none)
      (simp_all add: eval)
  have "sink_run flush capacity batchN s1 [ActQuit, ActStop, ActFlush, ActWaited, ActSweep] s2"
    unfolding s2_def
    by (rule sink_run_Cons [OF step_quit], (simp add: s1_def eval; fail)+,
        rule sink_run_Cons [OF step_drained], (simp add: s1_def eval; fail)+,
        simp, rule sink_run_Cons [OF step_stop], (simp add: s1_def eval; fail)+,
        rule sink_run_Cons [OF step_waited], (simp add: s1_def eval; fail)+,
        rule sink_run_Cons [OF step_sweep], (simp add: s1_def eval; fail)+, rule run_none)
  from sink_run_append [OF this to_s1]
  have before: "sink_run flush capacity batchN (newStore db)
      [ActWrite r, ActMark, ActClose, ActQuit, ActStop, ActFlush, ActWaited, ActSweep] s2" by simp
  have "0 < length (sk_writers s2)" by (simp add: s2_def s1_def eval)
  from run_step [OF before step_send [OF this]]
  have "sink_run flush capacity batchN (newStore db)
      ([ActWrite r, ActMark, ActClose, ActQuit, ActStop, ActFlush, ActWaited, ActSweep] @ [ActSend 0 now])
      (Write_send capacity 0 now s2)"
    .
  then show ?thesis using assms
    by (intro exI [of _ "Write_send capacity 0 now s2"]) (simp add: late_write_def s2_def s1_def eval)
qed

section \<open>Termination of the shutdown\<close>

text \<open>
  What is left to do once \<open>quit\<close> is closed. Every action but a new \<open>Write\<close> (which only counts a drop then) and a tick
  of the ticker makes it smaller; a tick may be picked by the \<open>select\<close> of the loop as long as it has not seen \<open>quit\<close>.
\<close>

fun loop_rank :: "loopPc \<Rightarrow> nat" where
  "loop_rank Stopped = 0"
| "loop_rank FlushStop = 1"
| "loop_rank Drain = 2"
| "loop_rank FlushDrain = 3"
| "loop_rank Collect = 4"
| "loop_rank FlushCollect = 5"

fun close_rank :: "closePc \<Rightarrow> nat" where
  "close_rank Returned = 0"
| "close_rank Sweeping = 1"
| "close_rank Waiting = 2"
| "close_rank Marked = 3"
| "close_rank NotClosed = 4"

definition closing_work :: "'d sink \<Rightarrow> nat" where
  "closing_work s = 3 * length (sk_writers s) + 2 * length (sk_ch s) + loop_rank (sk_loop s) + close_rank (sk_close s)"

fun external :: "sinkAct \<Rightarrow> bool" where
  "external (ActWrite r) = True"
| "external ActTick = True"
| "external _ = False"

lemma closing_work_decreases:
  assumes "sink_step flush capacity batchN s a s'" "\<not> external a"
  shows "closing_work s' < closing_work s"
  using assms
proof (cases rule: sink_step.cases)
  case (step_send i now)
  then show ?thesis
    by (cases "length (sk_ch s) < capacity")
      (auto simp: closing_work_def sink_actions chan_send_def length_drop_nth less_eq_Suc_le)
qed (auto simp: closing_work_def sink_actions chan_recv_def split: list.splits option.splits prod.splits)

lemma closing_enabled:
  assumes "sink_ok capacity batchN s" "sk_quit s" "sk_close s \<noteq> Returned"
  shows "\<exists>a s'. sink_step flush capacity batchN s a s' \<and> \<not> external a \<and> sk_quit s'"
proof (cases "sk_loop s = Stopped")
  case True
  with assms have "sk_close s = Waiting \<and> sk_done s \<or> sk_close s = Sweeping"
    by (cases "sk_close s") (simp_all add: sink_ok_def)
  then show ?thesis
  proof
    assume "sk_close s = Waiting \<and> sk_done s"
    then show ?thesis using assms(2) step_waited [of s flush capacity batchN] by fastforce
  next
    assume "sk_close s = Sweeping"
    moreover have "sk_quit (Close_sweep s)" using assms(2) by (simp add: sink_actions split: option.split)
    ultimately show ?thesis using step_sweep [of s flush capacity batchN] by fastforce
  qed
next
  case False
  have flushed: "sk_quit (loop_flush flush p s)" "sk_quit (loop_stop flush s)" for p
    using assms(2) by (simp_all add: sink_actions split: prod.split)
  have recv: "sk_quit (loop_recv batchN p q s)" for p q using assms(2) by (simp add: sink_actions split: option.split)
  show ?thesis
  proof (cases "sk_loop s")
    case Collect
    then show ?thesis using assms(2) step_quit [of s flush capacity batchN] by fastforce
  next
    case FlushCollect
    then show ?thesis using flushed step_flush [of s flush capacity batchN] by fastforce
  next
    case Drain
    then show ?thesis
      using assms(2) recv step_drain [of s flush capacity batchN] step_drained [of s flush capacity batchN]
      by (cases "sk_ch s = []") fastforce+
  next
    case FlushDrain
    then show ?thesis using flushed step_drain_flush [of s flush capacity batchN] by fastforce
  next
    case FlushStop
    then show ?thesis using flushed step_stop [of s flush capacity batchN] by fastforce
  qed (use False in simp)
qed

lemma closing_runs_short:
  "sink_run flush capacity batchN s acts s' \<Longrightarrow> \<forall>a\<in>set acts. \<not> external a \<Longrightarrow>
   length acts + closing_work s' \<le> closing_work s"
proof (induction rule: sink_run.induct)
  case (run_step acts s1 a s2)
  then show ?case using closing_work_decreases [OF run_step(2)] by fastforce
qed simp

lemma closing_reaches_return:
  "sink_ok capacity batchN s \<Longrightarrow> sk_quit s \<Longrightarrow> 0 < batchN \<Longrightarrow>
   \<exists>acts s'. sink_run flush capacity batchN s acts s' \<and> (\<forall>a\<in>set acts. \<not> external a) \<and> sk_close s' = Returned"
proof (induction "closing_work s" arbitrary: s rule: less_induct)
  case less
  show ?case
  proof (cases "sk_close s = Returned")
    case True
    then show ?thesis using run_none by fastforce
  next
    case False
    obtain a s1 where a: "sink_step flush capacity batchN s a s1" "\<not> external a" "sk_quit s1"
      using closing_enabled [OF less.prems(1,2) False] by blast
    from less.hyps [OF closing_work_decreases [OF a(1,2)] sink_step_ok [OF a(1) less.prems(1,3)] a(3) less.prems(3)]
    obtain acts s' where "sink_run flush capacity batchN s1 acts s'" "\<forall>a\<in>set acts. \<not> external a" "sk_close s' = Returned"
      by blast
    then show ?thesis using sink_run_Cons [OF a(1)] a(2) by (intro exI [of _ "a # acts"] exI [of _ s']) auto
  qed
qed

text \<open>
  C38. \<open>Close\<close> returns. In every state of every execution after \<open>quit\<close> was closed, the goroutines can finish, and every
  sequence of their actions that contains no further \<open>Write\<close> call and no tick is at most \<open>closing_work\<close> long (three
  per write in flight, two per buffered record and at most seven more), so none of them can delay \<open>Close\<close> for ever,
  whatever the database answers and wherever the shutdown found the loop.
\<close>
theorem close_returns:
  assumes "sink_run flush capacity batchN (newStore db) acts s" "0 < batchN" "sk_quit s"
  shows "(\<exists>acts' s'. sink_run flush capacity batchN s acts' s' \<and> (\<forall>a\<in>set acts'. \<not> external a) \<and>
      sk_close s' = Returned) \<and>
    (\<forall>acts' s'. sink_run flush capacity batchN s acts' s' \<and> (\<forall>a\<in>set acts'. \<not> external a) \<longrightarrow>
      length acts' \<le> 3 * length (sk_writers s) + 2 * length (sk_ch s) + 7) \<and>
    (sk_close s \<noteq> Returned \<longrightarrow> (\<exists>a s'. sink_step flush capacity batchN s a s' \<and> \<not> external a))"
proof -
  have ok: "sink_ok capacity batchN s" by (rule sink_run_ok [OF assms(1) sink_ok_new [OF assms(2)] assms(2)])
  have "closing_work s \<le> 3 * length (sk_writers s) + 2 * length (sk_ch s) + 7"
    using ok assms(3) by (cases "sk_loop s"; cases "sk_close s") (simp_all add: closing_work_def sink_ok_def)
  with closing_runs_short have short: "length acts' \<le> 3 * length (sk_writers s) + 2 * length (sk_ch s) + 7"
    if "sink_run flush capacity batchN s acts' s' \<and> (\<forall>a\<in>set acts'. \<not> external a)" for acts' s'
    using that by fastforce
  show ?thesis
    using closing_reaches_return [OF ok assms(3,2)] closing_enabled [OF ok assms(3)] short by blast
qed

section \<open>A complete execution\<close>

definition ex_record :: lrecord where
  "ex_record = \<lparr>lr_RequestID = ''r1'', lr_Alias = ''a'', lr_Provider = ''p'', lr_Upstream = ''u'', lr_User = ''acme'',
     lr_RunID = [], lr_InputTokens = 10, lr_OutputTokens = 5, lr_CacheReadTokens = 0, lr_CacheWriteTokens = 0,
     lr_CostUSD = 1, lr_LatencyMS = 3, lr_Status = ''ok''\<rparr>"

definition ex_flush :: "sinkEntry list flush" where
  "ex_flush batch db = (True, db @ batch)"

definition ex_open :: "sinkEntry list sink" where
  "ex_open = Close_quit (Close_mark (Write_send 2 0 7 (Write_check ex_record (newStore []))))"

definition ex_closed :: "sinkEntry list sink" where
  "ex_closed = Close_sweep (loop_stop ex_flush ((loop_flush ex_flush Drain
     (loop_recv 1 Drain FlushDrain (ex_open\<lparr>sk_loop := Drain\<rparr>)))\<lparr>sk_loop := FlushStop\<rparr>)\<lparr>sk_close := Sweeping\<rparr>)"

lemmas ex_sink_eval = ex_open_def ex_closed_def ex_flush_def sink_actions newStore_def chan_recv_def chan_send_def
  drop_nth_def

lemma ex_open_run: "sink_run ex_flush 2 1 (newStore []) [ActWrite ex_record, ActSend 0 7, ActMark, ActClose] ex_open"
  unfolding ex_open_def
  by (rule sink_run_Cons [OF step_write], rule sink_run_Cons [OF step_send], (simp add: ex_sink_eval; fail),
      rule sink_run_Cons [OF step_mark], (simp add: ex_sink_eval; fail),
      rule sink_run_Cons [OF step_close], (simp add: ex_sink_eval; fail), rule run_none)

lemma ex_closed_run:
  "sink_run ex_flush 2 1 ex_open [ActQuit, ActRecv, ActFlush, ActStop, ActFlush, ActWaited, ActSweep] ex_closed"
  unfolding ex_closed_def
  by (rule sink_run_Cons [OF step_quit], (simp add: ex_sink_eval; fail)+,
      rule sink_run_Cons [OF step_drain], (simp add: ex_sink_eval; fail)+,
      rule sink_run_Cons [OF step_drain_flush], (simp add: ex_sink_eval; fail)+,
      rule sink_run_Cons [OF step_drained], (simp add: ex_sink_eval; fail)+,
      rule sink_run_Cons [OF step_stop], (simp add: ex_sink_eval; fail)+,
      rule sink_run_Cons [OF step_waited], (simp add: ex_sink_eval; fail)+,
      rule sink_run_Cons [OF step_sweep], (simp add: ex_sink_eval; fail)+, rule run_none)

theorem sink_accounts_every_record_witness:
  "mset [ex_record] = mset (map se_rec (sk_flushed ex_open)) + mset (map se_rec (sk_ch ex_open)) \<and>
   length (sk_ch ex_open) \<le> 2"
  using sink_accounts_every_record [OF ex_open_run] by (simp add: ex_sink_eval)

theorem close_loses_nothing_witness:
  "sk_ch ex_closed = [] \<and> mset (map se_rec (sk_flushed ex_closed)) = mset [ex_record]"
  using close_loses_nothing [OF ex_open_run _ _ _ ex_closed_run] by (simp add: ex_sink_eval)

theorem close_returns_witness:
  "sk_quit ex_open \<and> (\<exists>acts s. sink_run ex_flush 2 1 ex_open acts s \<and> sk_close s = Returned)"
  using close_returns [OF ex_open_run] by (auto simp: ex_sink_eval)

section \<open>The database\<close>

text \<open>
  \<open>cleanText\<close> strips NUL bytes; \<open>writeBatch\<close> turns a batch into rows of the table \<open>spend\<close> and copies them in. The
  database is an argument: \<open>copy table columns rows\<close> copies the rows or reports an error, \<open>query sql since n\<close> answers a
  query or reports an error, also one that ends the rows early.
\<close>

datatype sqlValue = SqlTime instant | SqlText gostring | SqlInt int | SqlFloat usd

definition cleanText :: "gostring \<Rightarrow> gostring" where
  "cleanText s = (if NUL \<notin> set s then s else filter (\<lambda>c. c \<noteq> NUL) s)"

definition spend_columns :: "gostring list" where
  "spend_columns = [''ts'', ''request_id'', ''alias'', ''provider'', ''upstream'', ''client'', ''run_id'', ''input_tokens'',
     ''output_tokens'', ''cache_read_tokens'', ''cache_write_tokens'', ''cost_usd'', ''latency_ms'', ''status'']"

definition entry_row :: "sinkEntry \<Rightarrow> sqlValue list" where
  "entry_row e =
     (let r = se_rec e; text = (\<lambda>s. SqlText (cleanText s))
      in [SqlTime (se_ts e), text (lr_RequestID r), text (lr_Alias r), text (lr_Provider r), text (lr_Upstream r),
          text (lr_User r), text (lr_RunID r), SqlInt (lr_InputTokens r), SqlInt (lr_OutputTokens r),
          SqlInt (lr_CacheReadTokens r), SqlInt (lr_CacheWriteTokens r), SqlFloat (lr_CostUSD r),
          SqlInt (lr_LatencyMS r), text (lr_Status r)])"

definition writeBatch ::
  "(gostring \<Rightarrow> gostring list \<Rightarrow> sqlValue list list \<Rightarrow> 'd \<Rightarrow> bool \<times> 'd) \<Rightarrow> 'd flush" where
  "writeBatch copy batch db = copy ''spend'' spend_columns (map entry_row batch) db"

definition spend_query :: "gostring \<Rightarrow> gostring" where
  "spend_query dimension =
     (let empty = [CHR 0x27, CHR 0x27]
      in ''SELECT COALESCE('' @ dimension @ '','' @ empty
         @ ''), count(*), COALESCE(sum(input_tokens+output_tokens+cache_read_tokens+cache_write_tokens),0), COALESCE(sum(cost_usd),0)''
         @ [CHR 0x0A, CHR 0x09, CHR 0x09] @ ''FROM spend WHERE ts >= $1 AND '' @ dimension @ '' <> '' @ empty
         @ '' GROUP BY '' @ dimension @ '' ORDER BY sum(cost_usd) DESC LIMIT $2'')"

definition topBy ::
  "(gostring \<Rightarrow> instant \<Rightarrow> int \<Rightarrow> 'd \<Rightarrow> gostring + namedStat list) \<Rightarrow> gostring \<Rightarrow> instant \<Rightarrow> int \<Rightarrow> 'd \<Rightarrow>
   gostring + namedStat list" where
  "topBy query dimension since n db = query (spend_query dimension) since n db"

definition TopSpendSince ::
  "(gostring \<Rightarrow> instant \<Rightarrow> int \<Rightarrow> 'd \<Rightarrow> gostring + namedStat list) \<Rightarrow> instant \<Rightarrow> int \<Rightarrow> 'd \<Rightarrow>
   gostring + namedStat list \<times> namedStat list" where
  "TopSpendSince query since n db =
     (case topBy query ''client'' since n db of
        Inl e \<Rightarrow> Inl e
      | Inr byClient \<Rightarrow>
          (case topBy query ''run_id'' since n db of Inl e \<Rightarrow> Inl e | Inr byRun \<Rightarrow> Inr (byClient, byRun)))"

lemma cleanText_id: "NUL \<notin> set s \<Longrightarrow> cleanText s = s"
  by (simp add: cleanText_def)

lemma cleanText_no_nul: "NUL \<notin> set (cleanText s)"
  by (simp add: cleanText_def)

lemma row_has_no_nul: "SqlText t \<in> set (entry_row e) \<Longrightarrow> NUL \<notin> set t"
  using cleanText_no_nul by (auto simp: entry_row_def Let_def)

lemma row_matches_columns: "length (entry_row e) = length spend_columns"
  by (simp add: entry_row_def spend_columns_def Let_def)

end
