(* ===== verification/Observe.thy ===== *)
theory Observe
  imports Gateway DurableLedger
begin

text \<open>
  The HTTP surface of \<open>internal/server/server.go\<close> around the handlers: the routes \<open>Handler\<close> mounts and which one serves a
  request, and the read-only endpoints: \<open>/metrics\<close>, \<open>/v1/stats\<close>, the durable \<open>/v1/spend\<close> with its time window, and
  the console's session information. Go's \<open>time.ParseDuration\<close> is modelled, its floating-point fraction exactly; the
  pages and the dashboard are assets.
\<close>

section \<open>Durations\<close>

text \<open>\<open>leadingInt\<close> reads digits into an unsigned integer, \<open>leadingFraction\<close> those after the point with their scale.\<close>

fun leadingInt :: "int \<Rightarrow> gostring \<Rightarrow> (int \<times> gostring) option" where
  "leadingInt x [] = Some (x, [])"
| "leadingInt x (c # s) =
     (if \<not> digit c then Some (x, c # s)
      else if x > 2 ^ 63 div 10 then None
      else let y = x * 10 + int (digit_val c) in if y > 2 ^ 63 then None else leadingInt y s)"

fun leadingFraction :: "int \<Rightarrow> int \<Rightarrow> bool \<Rightarrow> gostring \<Rightarrow> int \<times> int \<times> gostring" where
  "leadingFraction x scale overflow [] = (x, scale, [])"
| "leadingFraction x scale overflow (c # s) =
     (if \<not> digit c then (x, scale, c # s)
      else if overflow \<or> x > max_int64 div 10 then leadingFraction x scale True s
      else let y = x * 10 + int (digit_val c)
           in if y > 2 ^ 63 then leadingFraction x scale True s else leadingFraction y (scale * 10) False s)"

definition unit_of :: "gostring \<Rightarrow> int option" where
  "unit_of u =
     (if u = ''ns'' then Some 1
      else if u \<in> {''us'', [CHR 0xC2, CHR 0xB5, CHR ''s''], [CHR 0xCE, CHR 0xBC, CHR ''s'']} then Some 1000
      else if u = ''ms'' then Some 1000000
      else if u = ''s'' then Some second
      else if u = ''m'' then Some (60 * second)
      else if u = ''h'' then Some (3600 * second)
      else None)"

definition unit_char :: "char \<Rightarrow> bool" where "unit_char c \<longleftrightarrow> c \<noteq> CHR ''.'' \<and> \<not> digit c"

definition fraction_of :: "gostring \<Rightarrow> int \<times> int \<times> gostring" where
  "fraction_of s = (case s of c # s1 \<Rightarrow> if c = CHR ''.'' then leadingFraction 0 1 False s1 else (0, 1, s) | [] \<Rightarrow> (0, 1, s))"

text \<open>One number with its unit: its nanoseconds and the rest.\<close>

definition duration_term :: "gostring \<Rightarrow> (int \<times> gostring) option" where
  "duration_term s =
     (if s = [] \<or> hd s \<noteq> CHR ''.'' \<and> \<not> digit (hd s) then None
      else case leadingInt 0 s of
        None \<Rightarrow> None
      | Some (v, s1) \<Rightarrow>
          (let (f, scale, s2) = fraction_of s1;
               pre = (length s1 \<noteq> length s);
               post = (length s2 < length s1 - 1);
               u = takeWhile unit_char s2
           in if \<not> pre \<and> \<not> post then None
              else if u = [] then None
              else case unit_of u of
                None \<Rightarrow> None
              | Some unit \<Rightarrow>
                  if v > 2 ^ 63 div unit then None
                  else let v1 = v * unit + (if f > 0 then f * unit div scale else 0)
                       in if v1 > 2 ^ 63 then None else Some (v1, dropWhile unit_char s2)))"

lemma leadingInt_length: "leadingInt x s = Some (v, s1) \<Longrightarrow> length s1 \<le> length s"
  by (induction x s rule: leadingInt.induct) (auto simp: Let_def split: if_splits)

lemma leadingFraction_length: "leadingFraction x sc ov s = (f, sc', s1) \<Longrightarrow> length s1 \<le> length s"
  by (induction x sc ov s rule: leadingFraction.induct) (auto simp: Let_def split: if_splits)

lemma fraction_of_length: "fraction_of s = (f, sc, s1) \<Longrightarrow> length s1 \<le> length s"
  by (auto simp: fraction_of_def split: list.splits if_splits dest!: leadingFraction_length)

lemma dropWhile_shorter: "takeWhile P xs \<noteq> [] \<Longrightarrow> length (dropWhile P xs) < length xs"
  by (metis append_self_conv2 length_dropWhile_le order_neq_le_trans takeWhile_dropWhile_id length_append
      add_cancel_left_left length_0_conv)

lemma duration_term_shorter: "duration_term s = Some (v, s1) \<Longrightarrow> length s1 < length s"
proof -
  assume d: "duration_term s = Some (v, s1)"
  obtain v0 r where l: "leadingInt 0 s = Some (v0, r)"
    using d by (auto simp: duration_term_def split: if_splits option.splits)
  obtain f sc r2 where f: "fraction_of r = (f, sc, r2)" by (metis prod.exhaust)
  have "takeWhile unit_char r2 \<noteq> []" and "s1 = dropWhile unit_char r2"
    using d by (auto simp: duration_term_def l f Let_def split: if_splits option.splits)
  then show ?thesis
    using dropWhile_shorter [of unit_char r2] leadingInt_length [OF l] fraction_of_length [OF f] by simp
qed

text \<open>The sum of the terms, an unsigned 64-bit integer.\<close>

function duration_terms :: "int \<Rightarrow> gostring \<Rightarrow> int option" where
  "duration_terms d s =
     (if s = [] then Some d
      else case duration_term s of
        None \<Rightarrow> None
      | Some (v, s1) \<Rightarrow>
          (let d1 = (d + v) mod 2 ^ 64 in if d1 > 2 ^ 63 then None else duration_terms d1 s1))"
  by pat_completeness auto
termination
  by (relation "measure (\<lambda>(d, s). length s)") (auto dest: duration_term_shorter)

declare duration_terms.simps [simp del]

definition ParseDuration :: "gostring \<Rightarrow> duration option" where
  "ParseDuration s =
     (let (neg, s1) = (case s of c # cs \<Rightarrow> if c = CHR ''-'' \<or> c = CHR ''+'' then (c = CHR ''-'', cs) else (False, s)
          | [] \<Rightarrow> (False, s))
      in if s1 = ''0'' then Some 0
         else if s1 = [] then None
         else case duration_terms 0 s1 of
           None \<Rightarrow> None
         | Some d \<Rightarrow> if neg then Some (wrap64 (- d)) else if d > max_int64 then None else Some d)"

section \<open>Read-only endpoints\<close>

record metrics =
  me_requests :: int
  me_tokens :: int
  me_cost :: usd
  me_liveKills :: nat
  me_killRejections :: nat
  me_sharedKillErrors :: nat
  me_scopeDegraded :: nat
  me_brokerDegraded :: nat
  me_ledgerDropped :: nat

definition SinkDropped :: "'d sink option \<Rightarrow> nat" where
  "SinkDropped sk = (case sk of None \<Rightarrow> 0 | Some q \<Rightarrow> sk_dropped q)"

definition handleMetrics :: "'w server \<Rightarrow> 'd sink option \<Rightarrow> metrics" where
  "handleMetrics s sk =
     (let (reqs, toks, cost) = ledger_Totals (sv_ledger s); fw = fw_Stats (sv_firewall s)
      in \<lparr>me_requests = reqs, me_tokens = toks, me_cost = cost, me_liveKills = LocalKills fw,
          me_killRejections = KillRejections fw, me_sharedKillErrors = SharedKillErrors fw,
          me_scopeDegraded = ScopeDegraded fw, me_brokerDegraded = Degraded (sv_broker s),
          me_ledgerDropped = SinkDropped sk\<rparr>)"

datatype observe_reply =
    Denied reply
  | StatsReport snapshot fw_stats nat
  | SpendReport instant "namedStat list" "namedStat list"

definition handleStats :: "'w env \<Rightarrow> caller \<Rightarrow> 'w server \<Rightarrow> observe_reply" where
  "handleStats en ca s =
     (case admin_gate en ca s of
        Some rep \<Rightarrow> Denied rep
      | None \<Rightarrow> StatsReport (ledger_Snapshot 10 (sv_ledger s)) (fw_Stats (sv_firewall s)) (Degraded (sv_broker s)))"

definition maxWindow :: duration where "maxWindow = 90 * 24 * 3600 * second"

definition spend_window :: "gostring \<Rightarrow> duration option" where
  "spend_window v =
     (if v = [] then Some (24 * 3600 * second)
      else case ParseDuration v of None \<Rightarrow> None | Some d \<Rightarrow> if d \<le> 0 \<or> d > maxWindow then None else Some d)"

text \<open>\<open>reader\<close> is \<open>TopSpendSince\<close> of the durable ledger, absent when there is none.\<close>

definition handleSpend ::
  "'w env \<Rightarrow> caller \<Rightarrow> (instant \<Rightarrow> int \<Rightarrow> gostring + namedStat list \<times> namedStat list) option \<Rightarrow> gostring \<Rightarrow> instant \<Rightarrow>
   'w server \<Rightarrow> observe_reply" where
  "handleSpend en ca reader v now s =
     (case admin_gate en ca s of Some rep \<Rightarrow> Denied rep | None \<Rightarrow>
     (case reader of
        None \<Rightarrow> Denied (ErrorReply 501 ''not_configured''
          ''durable ledger is not enabled; historical spend is unavailable (see /v1/stats for recent activity)'' [])
      | Some topSpend \<Rightarrow>
     (case spend_window v of
        None \<Rightarrow> Denied (bad_request (''since must be a positive Go duration '' @ [CHR 0xE2, CHR 0x89, CHR 0xA4]
          @ '' 90 days, e.g. 24h''))
      | Some window \<Rightarrow>
          (case topSpend (now - window) 20 of
             Inl _ \<Rightarrow> Denied (ErrorReply 502 ''api_error'' ''durable spend query failed'' [])
           | Inr (byClient, byRun) \<Rightarrow> SpendReport (now - window) byClient byRun))))"

record consoleInfo =
  nf_providers :: "gostring list"
  nf_authenticated :: bool
  nf_name :: gostring

definition handleConsoleInfo ::
  "hmac \<Rightarrow> session json \<Rightarrow> consoleServer \<Rightarrow> instant \<Rightarrow> gostring option \<Rightarrow> consoleInfo" where
  "handleConsoleInfo hm js cv now ck =
     (let sess = SessionFrom hm js (cv_console cv) now ck
      in \<lparr>nf_providers = sort (map fst (cv_oauth cv)),
          nf_authenticated = (case sess of None \<Rightarrow> False | Some x \<Rightarrow> se_Admin x),
          nf_name = (case sess of None \<Rightarrow> [] | Some x \<Rightarrow> se_Name x)\<rparr>)"

section \<open>Routes\<close>

datatype segment_pattern = Lit gostring | Wild

datatype mux_endpoint =
    ChatCompletions | KillRunEP | Health | Metrics | Stats | Spend | Dashboard
  | PolicyList | CreateOrgEP | CreateTeamEP | CreateAppEP | SetLimitsEP | NodeKillEP | NodeUnkillEP | IssueKeyEP
  | GuardReserveEP | GuardSettleEP | GuardReleaseEP
  | ConsolePage | ConsoleAppJS | ConsoleInfo | ConsoleLogin | ConsoleLogout | OAuthStart | OAuthCallback

datatype part = Always | ControlPlane | DecisionAPI | ConsoleUI

record mux_route =
  mr_part :: part
  mr_method :: gostring
  mr_path :: "segment_pattern list"
  mr_endpoint :: mux_endpoint

definition new_route :: "part \<Rightarrow> gostring \<Rightarrow> segment_pattern list \<Rightarrow> mux_endpoint \<Rightarrow> mux_route" where
  "new_route pt method path e = \<lparr>mr_part = pt, mr_method = method, mr_path = path, mr_endpoint = e\<rparr>"

definition all_routes :: "mux_route list" where
  "all_routes =
     [new_route Always ''POST'' [Lit ''v1'', Lit ''chat'', Lit ''completions''] ChatCompletions,
      new_route Always ''POST'' [Lit ''v1'', Lit ''runs'', Wild, Lit ''kill''] KillRunEP,
      new_route Always ''GET'' [Lit ''healthz''] Health,
      new_route Always ''GET'' [Lit ''metrics''] Metrics,
      new_route Always ''GET'' [Lit ''v1'', Lit ''stats''] Stats,
      new_route Always ''GET'' [Lit ''v1'', Lit ''spend''] Spend,
      new_route Always ''GET'' [Lit ''dashboard''] Dashboard,
      new_route ControlPlane ''GET'' [Lit ''v1'', Lit ''policy''] PolicyList,
      new_route ControlPlane ''POST'' [Lit ''v1'', Lit ''policy'', Lit ''orgs''] CreateOrgEP,
      new_route ControlPlane ''POST'' [Lit ''v1'', Lit ''policy'', Lit ''teams''] CreateTeamEP,
      new_route ControlPlane ''POST'' [Lit ''v1'', Lit ''policy'', Lit ''apps''] CreateAppEP,
      new_route ControlPlane ''PUT'' [Lit ''v1'', Lit ''policy'', Lit ''nodes'', Wild, Wild, Lit ''limits''] SetLimitsEP,
      new_route ControlPlane ''POST'' [Lit ''v1'', Lit ''policy'', Lit ''nodes'', Wild, Wild, Lit ''kill''] NodeKillEP,
      new_route ControlPlane ''POST'' [Lit ''v1'', Lit ''policy'', Lit ''nodes'', Wild, Wild, Lit ''unkill''] NodeUnkillEP,
      new_route ControlPlane ''POST'' [Lit ''v1'', Lit ''policy'', Lit ''keys''] IssueKeyEP,
      new_route DecisionAPI ''POST'' [Lit ''v1'', Lit ''guard'', Lit ''reserve''] GuardReserveEP,
      new_route DecisionAPI ''POST'' [Lit ''v1'', Lit ''guard'', Lit ''settle''] GuardSettleEP,
      new_route DecisionAPI ''POST'' [Lit ''v1'', Lit ''guard'', Lit ''release''] GuardReleaseEP,
      new_route ConsoleUI ''GET'' [Lit ''console''] ConsolePage,
      new_route ConsoleUI ''GET'' [Lit ''console'', Lit ''app.js''] ConsoleAppJS,
      new_route ConsoleUI ''GET'' [Lit ''console'', Lit ''info''] ConsoleInfo,
      new_route ConsoleUI ''POST'' [Lit ''console'', Lit ''login''] ConsoleLogin,
      new_route ConsoleUI ''POST'' [Lit ''console'', Lit ''logout''] ConsoleLogout,
      new_route ConsoleUI ''GET'' [Lit ''console'', Lit ''auth'', Wild, Lit ''start''] OAuthStart,
      new_route ConsoleUI ''GET'' [Lit ''console'', Lit ''auth'', Wild, Lit ''callback''] OAuthCallback]"

fun mounted :: "'w gateway \<Rightarrow> part \<Rightarrow> bool" where
  "mounted gw Always = True"
| "mounted gw ControlPlane = (gw_policy gw \<noteq> None)"
| "mounted gw DecisionAPI = (gw_guard gw \<noteq> None)"
| "mounted gw ConsoleUI = (gw_console gw \<noteq> None)"

definition server_Handler :: "'w gateway \<Rightarrow> mux_route list" where
  "server_Handler gw = filter (\<lambda>r. mounted gw (mr_part r)) all_routes"

text \<open>
  \<open>http.ServeMux\<close> on the decoded segments of a clean path: a wildcard stands for one segment, and \<open>GET\<close> also takes
  \<open>HEAD\<close>. A request is served by the matching route, with the values of its wildcards.
\<close>

fun path_match :: "segment_pattern list \<Rightarrow> gostring list \<Rightarrow> gostring list option" where
  "path_match [] [] = Some []"
| "path_match (Lit l # ps) (x # xs) = (if l = x then path_match ps xs else None)"
| "path_match (Wild # ps) (x # xs) = map_option (\<lambda>vs. x # vs) (path_match ps xs)"
| "path_match _ _ = None"

definition method_match :: "gostring \<Rightarrow> gostring \<Rightarrow> bool" where
  "method_match pat m \<longleftrightarrow> m = pat \<or> pat = ''GET'' \<and> m = ''HEAD''"

datatype routed = Serve mux_endpoint "gostring list" | MethodNotAllowed | RouteNotFound

definition route_match :: "gostring \<Rightarrow> gostring list \<Rightarrow> mux_route \<Rightarrow> bool" where
  "route_match m path r \<longleftrightarrow> method_match (mr_method r) m \<and> path_match (mr_path r) path \<noteq> None"

definition serve :: "mux_route list \<Rightarrow> gostring \<Rightarrow> gostring list \<Rightarrow> routed" where
  "serve rs m path =
     (case find (route_match m path) rs of
        Some r \<Rightarrow> Serve (mr_endpoint r) (the (path_match (mr_path r) path))
      | None \<Rightarrow> if \<exists>r\<in>set rs. path_match (mr_path r) path \<noteq> None then MethodNotAllowed else RouteNotFound)"

section \<open>At most one route serves a request\<close>

text \<open>Whether two patterns match a common path, and two methods a common method.\<close>

fun overlap :: "segment_pattern list \<Rightarrow> segment_pattern list \<Rightarrow> bool" where
  "overlap [] [] = True"
| "overlap (Lit l # ps) (Lit k # qs) = (l = k \<and> overlap ps qs)"
| "overlap (_ # ps) (_ # qs) = overlap ps qs"
| "overlap _ _ = False"

definition methods_overlap :: "gostring \<Rightarrow> gostring \<Rightarrow> bool" where
  "methods_overlap p q \<longleftrightarrow> p = q \<or> p = ''GET'' \<and> q = ''HEAD'' \<or> p = ''HEAD'' \<and> q = ''GET''"

definition routes_overlap :: "mux_route \<Rightarrow> mux_route \<Rightarrow> bool" where
  "routes_overlap r q \<longleftrightarrow> methods_overlap (mr_method r) (mr_method q) \<and> overlap (mr_path r) (mr_path q)"

lemma path_match_overlap: "path_match p xs \<noteq> None \<Longrightarrow> path_match q xs \<noteq> None \<Longrightarrow> overlap p q"
proof (induction p xs arbitrary: q rule: path_match.induct)
  case (2 l ps x xs)
  show ?case
  proof (cases q)
    case (Cons a qs)
    then show ?thesis using 2 by (cases a) (auto split: if_splits)
  qed (use 2 in auto)
next
  case (3 ps x xs)
  show ?case
  proof (cases q)
    case (Cons a qs)
    then show ?thesis using 3 by (cases a) (auto split: if_splits)
  qed (use 3 in auto)
qed (auto elim: path_match.elims)

lemma both_match_overlap: "route_match m path r \<Longrightarrow> route_match m path q \<Longrightarrow> routes_overlap r q"
  using path_match_overlap unfolding route_match_def routes_overlap_def
  by (auto simp: method_match_def methods_overlap_def)

lemma all_routes_apart: "sorted_wrt (\<lambda>r q. \<not> routes_overlap r q) all_routes"
  by code_simp

lemma one_match:
  "sorted_wrt (\<lambda>r q. \<not> routes_overlap r q) rs \<Longrightarrow> length (filter (route_match m path) rs) \<le> 1"
proof (induction rs)
  case (Cons r rs)
  have "filter (route_match m path) rs = []" if "route_match m path r"
    using Cons.prems that both_match_overlap by (force simp: filter_empty_conv)
  then show ?case using Cons by auto
qed simp

lemma handler_one_match: "length (filter (route_match m path) (server_Handler gw)) \<le> 1"
  unfolding server_Handler_def by (rule one_match [OF sorted_wrt_filter [OF all_routes_apart]])

lemma find_filter: "find P xs = (case filter P xs of [] \<Rightarrow> None | x # _ \<Rightarrow> Some x)"
  by (induction xs) auto

lemma short_mset_eq:
  assumes "mset xs = mset ys" and "length ys \<le> 1"
  shows "xs = ys"
proof -
  have "length xs = length ys" using assms(1) by (rule mset_eq_length)
  then show ?thesis using assms by (cases ys; cases xs) auto
qed

text \<open>
  Which handler serves a request does not depend on the order the routes are registered in: of the routes a gateway
  mounts (the control plane's, the decision API's and the console's only when they are configured) at most one matches a
  request, so every order of them serves it the same way.
\<close>

theorem routing_unambiguous:
  assumes "mset rs = mset (server_Handler gw)"
  shows "length (filter (route_match m path) rs) \<le> 1 \<and> serve rs m path = serve (server_Handler gw) m path"
proof -
  have "mset (filter (route_match m path) rs) = mset (filter (route_match m path) (server_Handler gw))"
    using assms by (metis mset_filter)
  then have "filter (route_match m path) rs = filter (route_match m path) (server_Handler gw)"
    using handler_one_match by (rule short_mset_eq)
  then have one: "length (filter (route_match m path) rs) \<le> 1"
    and first: "find (route_match m path) rs = find (route_match m path) (server_Handler gw)"
    using handler_one_match [of m path gw] by (simp_all add: find_filter)
  have "set rs = set (server_Handler gw)" using assms by (rule mset_eq_setD)
  then have "serve rs m path = serve (server_Handler gw) m path" by (simp only: serve_def first)
  then show ?thesis using one by blast
qed

section \<open>The window of a spend report\<close>

lemma leadingInt_itoa:
  "leadingInt 0 (itoa n @ r) = (if int n \<le> 2 ^ 63 then leadingInt (int n) r else None)"
proof (induction n arbitrary: r rule: itoa.induct)
  case (1 n)
  have dig: "digit (char_of (48 + k))" "digit_val (char_of (48 + k)) = k" if "k < 10" for k :: nat
    using that by (auto simp: digit_def digit_val_char_of of_char_of Let_def)
  show ?case
  proof (cases "n < 10")
    case True
    then show ?thesis using dig [of n] by (subst itoa.simps) simp
  next
    case False
    have n: "int n = int (n div 10) * 10 + int (n mod 10)" by presburger
    have "leadingInt 0 (itoa n @ r) = leadingInt 0 (itoa (n div 10) @ char_of (48 + n mod 10) # r)"
      using False by (subst itoa.simps) simp
    also have "\<dots> = (if int (n div 10) \<le> 2 ^ 63 then leadingInt (int (n div 10)) (char_of (48 + n mod 10) # r) else None)"
      using 1 False by simp
    also have "\<dots> = (if int n \<le> 2 ^ 63 then leadingInt (int n) r else None)"
    proof (cases "int n \<le> 2 ^ 63")
      case True
      then have "int (n div 10) \<le> 2 ^ 63 div 10" using n by linarith
      then show ?thesis using True dig [of "n mod 10"] n by simp
    next
      case big: False
      then show ?thesis using dig [of "n mod 10"] n by (simp add: Let_def)
    qed
    finally show ?thesis .
  qed
qed

lemma unit_of_shape:
  assumes "unit_of u = Some k"
  shows "u \<noteq> []" and "list_all unit_char u" and "0 < k" and "k \<le> 3600 * second"
  using assms by (auto simp: unit_of_def unit_char_def digit_def second_def Let_def split: if_splits)

lemma itoa_first: "\<exists>c cs. itoa n = c # cs \<and> digit c"
proof -
  obtain c cs where i: "itoa n = c # cs" using itoa_nonempty by (cases "itoa n") auto
  then have "digit c" using itoa_chars [of c n] by (auto simp: digit_def Let_def)
  then show ?thesis using i by blast
qed

lemma div_less_iff:
  fixes a k n :: int
  assumes "0 < k"
  shows "a div k < n \<longleftrightarrow> a < n * k"
proof -
  have a: "a = a div k * k + a mod k" "0 \<le> a mod k" "a mod k < k" using assms by simp_all
  show ?thesis
  proof (cases "a div k < n")
    case True
    then have "(a div k + 1) * k \<le> n * k" using assms by (intro mult_right_mono) auto
    then have "a div k * k + k \<le> n * k" by (simp add: distrib_right)
    then show ?thesis using True a by linarith
  next
    case False
    then have "n * k \<le> a div k * k" using assms by (intro mult_right_mono) auto
    then show ?thesis using False a by linarith
  qed
qed

lemma duration_term_itoa:
  assumes "unit_of u = Some k"
  shows "duration_term (itoa n @ u) = (if int n * k \<le> 2 ^ 63 then Some (int n * k, []) else None)"
proof -
  note shape = unit_of_shape [OF assms]
  obtain c cs where i: "itoa n = c # cs" "digit c" using itoa_first by blast
  obtain a as where u: "u = a # as" using shape(1) by (cases u) auto
  have a: "\<not> digit a" "a \<noteq> CHR ''.''" using shape(2) u by (auto simp: unit_char_def)
  have frac: "fraction_of u = (0, 1, u)" using a u by (simp add: fraction_of_def)
  have tw: "takeWhile unit_char u = u" "dropWhile unit_char u = []"
    using shape(2) by (auto simp: list_all_iff takeWhile_eq_all_conv dropWhile_eq_Nil_conv)
  have li: "leadingInt 0 (itoa n @ u) = (if int n \<le> 2 ^ 63 then Some (int n, u) else None)"
    using a u by (simp add: leadingInt_itoa)
  have le: "int n > 2 ^ 63 div k \<longleftrightarrow> int n * k > 2 ^ 63"
    using div_less_iff [OF shape(3)] by blast
  have big: "int n * k > 2 ^ 63" if "\<not> int n \<le> 2 ^ 63"
  proof -
    have "int n * 1 \<le> int n * k" using shape(3) by (intro mult_left_mono) auto
    then show ?thesis using that by linarith
  qed
  have "duration_term (itoa n @ u) =
      (if int n \<le> 2 ^ 63 then if int n > 2 ^ 63 div k then None else if int n * k > 2 ^ 63 then None else Some (int n * k, [])
       else None)"
    unfolding duration_term_def li using i shape(1) by (simp add: frac tw assms Let_def)
  then show ?thesis using le big by auto
qed

lemma ParseDuration_itoa:
  assumes "unit_of u = Some k"
  shows "ParseDuration (itoa n @ u) = (if int n * k < 2 ^ 63 then Some (int n * k) else None)"
proof -
  obtain c cs where i: "itoa n = c # cs" "digit c" using itoa_first by blast
  have sign: "c \<noteq> CHR ''-''" "c \<noteq> CHR ''+''" using i(2) by (auto simp: digit_def)
  have not0: "itoa n @ u \<noteq> ''0''" using i unit_of_shape(1) [OF assms] by (cases cs; cases u) auto
  have terms: "duration_terms 0 (itoa n @ u) = (if int n * k \<le> 2 ^ 63 then Some (int n * k) else None)"
  proof (cases "int n * k \<le> 2 ^ 63")
    case True
    then have "int n * k mod 2 ^ 64 = int n * k"
      using unit_of_shape(3) [OF assms] by (intro mod_pos_pos_trivial) auto
    moreover have "duration_terms (int n * k) [] = Some (int n * k)" by (subst duration_terms.simps) simp
    ultimately show ?thesis
      using True itoa_nonempty [of n] by (subst duration_terms.simps) (simp add: duration_term_itoa [OF assms] Let_def)
  next
    case False
    then show ?thesis
      using itoa_nonempty [of n] by (subst duration_terms.simps) (simp add: duration_term_itoa [OF assms])
  qed
  have "ParseDuration (itoa n @ u) =
      (case duration_terms 0 (itoa n @ u) of None \<Rightarrow> None | Some d \<Rightarrow> if d > max_int64 then None else Some d)"
    using i sign not0 unfolding ParseDuration_def by (auto simp: Let_def split: option.splits)
  then show ?thesis unfolding terms by auto
qed

lemma spend_window_range: "spend_window v = Some d \<Longrightarrow> 0 < d \<and> d \<le> maxWindow"
  by (auto simp: spend_window_def maxWindow_def second_def split: if_splits option.splits)

lemma spend_report_admin:
  assumes "handleSpend en ca reader v now s = SpendReport since byClient byRun"
  shows "admin_gate en ca s = None" and "now - maxWindow \<le> since" and "since < now"
    and "\<exists>query. reader = Some query \<and> query since 20 = Inr (byClient, byRun)"
proof -
  obtain query window where q: "admin_gate en ca s = None" "reader = Some query" "spend_window v = Some window"
    "query (now - window) 20 = Inr (byClient, byRun)" "since = now - window"
    using assms unfolding handleSpend_def by (auto split: option.splits sum.splits)
  then show "admin_gate en ca s = None" and "now - maxWindow \<le> since" and "since < now"
    and "\<exists>query. reader = Some query \<and> query since 20 = Inr (byClient, byRun)"
    using spend_window_range [OF q(3)] by auto
qed

text \<open>
  The spend endpoint asks the durable ledger for exactly the window its caller names, and never for more than ninety
  days: a number and a unit of \<open>time.ParseDuration\<close> is the window when it is positive and within the bound, and
  otherwise, also when it overflows, an admin gets 400 without a query; whoever is not an admin gets the gate's answer.
\<close>

theorem spend_window_exact:
  assumes "unit_of u = Some k"
  shows "handleSpend en ca (Some query) (itoa n @ u) now s =
    (case admin_gate en ca s of Some rep \<Rightarrow> Denied rep | None \<Rightarrow>
       if 0 < int n * k \<and> int n * k \<le> 90 * 24 * 3600 * second then
         (case query (now - int n * k) 20 of
            Inl _ \<Rightarrow> Denied (ErrorReply 502 ''api_error'' ''durable spend query failed'' [])
          | Inr (byClient, byRun) \<Rightarrow> SpendReport (now - int n * k) byClient byRun)
       else Denied (bad_request (''since must be a positive Go duration '' @ [CHR 0xE2, CHR 0x89, CHR 0xA4]
          @ '' 90 days, e.g. 24h'')))"
proof -
  have "itoa n @ u \<noteq> []" using itoa_nonempty by simp
  then have "spend_window (itoa n @ u) =
      (if 0 < int n * k \<and> int n * k \<le> 90 * 24 * 3600 * second then Some (int n * k) else None)"
    by (auto simp: spend_window_def ParseDuration_itoa [OF assms] maxWindow_def second_def)
  then show ?thesis by (simp add: handleSpend_def split: option.split)
qed

definition ex_small_gateway :: "unit gateway" where
  "ex_small_gateway = gateway_of ex_outside ex_config False None"

theorem routing_unambiguous_witness:
  "serve (rev (server_Handler ex_small_gateway)) ''GET'' [''v1'', ''stats''] =
     serve (server_Handler ex_small_gateway) ''GET'' [''v1'', ''stats'']"
  using routing_unambiguous [of "rev (server_Handler ex_small_gateway)" ex_small_gateway "''GET''" "[''v1'', ''stats'']"]
  by simp

theorem spend_window_exact_witness:
  "handleSpend ex_env \<lparr>ca_authorization = [], ca_adminSession = True\<rparr> (Some (\<lambda>since n. Inr ([], []))) (itoa 24 @ ''h'')
     (86400 * second) ex_server = SpendReport 0 [] []"
  using spend_window_exact [of "''h''" "3600 * second" ex_env "\<lparr>ca_authorization = [], ca_adminSession = True\<rparr>"
      "\<lambda>since n. Inr ([], [])" 24 "86400 * second" ex_server]
  by (simp add: unit_of_def second_def admin_gate_def requireAdmin_def)

end
