(* ===== verification/CacheBench.thy ===== *)
theory CacheBench
  imports Prelude
begin

text \<open>
  The prefix-cache state of \<open>internal/cache/state.go\<close> and the cost simulator of \<open>internal/cachebench/bench.go\<close>: which
  model's cache is warm for a conversation, the naive and the cache-aware router, the simulation of a conversation, a
  scenario and their comparison, and the generator of scenarios with the output of the command \<open>cachebench\<close>.

  SHA-256 is an argument; so is the random source, a state \<open>'g\<close> with \<open>Float64\<close> and \<open>Intn\<close>. Token counts of the simulator
  are mathematical integers (a workload's sums stay far below 64 bits), dollar amounts and probabilities reals.
\<close>

section \<open>Warm caches\<close>

record cacheEntry =
  ce_model :: gostring
  ce_lastSeen :: instant

record cacheStore =
  cs_ttl :: duration
  cs_m :: "(gostring, cacheEntry) gomap"

definition cache_New :: "duration \<Rightarrow> cacheStore" where "cache_New ttl = \<lparr>cs_ttl = ttl, cs_m = []\<rparr>"

definition Warm :: "gostring \<Rightarrow> instant \<Rightarrow> cacheStore \<Rightarrow> gostring option" where
  "Warm convKey now s =
     (case mget (cs_m s) convKey of
        None \<Rightarrow> None
      | Some e \<Rightarrow> if time_sub now (ce_lastSeen e) > cs_ttl s then None else Some (ce_model e))"

definition Touch :: "gostring \<Rightarrow> gostring \<Rightarrow> instant \<Rightarrow> cacheStore \<Rightarrow> cacheStore" where
  "Touch convKey model now s = s\<lparr>cs_m := mput convKey \<lparr>ce_model = model, ce_lastSeen = now\<rparr> (cs_m s)\<rparr>"

definition conversation_bytes :: "gostring \<Rightarrow> gostring list \<Rightarrow> gostring" where
  "conversation_bytes system priorMessages = system @ [NUL] @ concat (map (\<lambda>m. m @ [NUL]) priorMessages)"

definition ConversationKey :: "(gostring \<Rightarrow> gostring) \<Rightarrow> gostring \<Rightarrow> gostring list \<Rightarrow> gostring" where
  "ConversationKey sha256hex system priorMessages = sha256hex (conversation_bytes system priorMessages)"

section \<open>Workloads\<close>

definition cacheReadMult :: real where "cacheReadMult = 1 / 10"
definition cacheWriteMult :: real where "cacheWriteMult = 5 / 4"

record benchModel =
  bm_Name :: gostring
  bm_InputPerMTok :: usd
  bm_OutputPerMTok :: usd
  bm_Quality :: real
  bm_MinCacheTokens :: int

record benchTurn =
  bt_UserTokens :: int
  bt_OutputTokens :: int
  bt_Difficulty :: real
  bt_GapSeconds :: int

record conversation =
  cv_SystemTokens :: int
  cv_Turns :: "benchTurn list"

record scenario =
  sc_Conversations :: "conversation list"
  sc_Models :: "benchModel list"
  sc_TTL :: duration

record result =
  re_Router :: gostring
  re_CostUSD :: usd
  re_Turns :: nat
  re_WarmTurns :: nat
  re_RegretTurns :: nat
  re_WarmRate :: real
  re_RegretRate :: real

record comparison =
  cmp_Naive :: result
  cmp_CacheAware :: result
  cmp_TotalConversations :: nat
  cmp_LossConversations :: nat
  cmp_WorstLossUSD :: usd
  cmp_SavingsPct :: real

section \<open>Routers\<close>

text \<open>\<open>int(x)\<close> of a float truncates towards zero.\<close>

definition trunc :: "real \<Rightarrow> int" where "trunc x = (if x \<ge> 0 then \<lfloor>x\<rfloor> else \<lceil>x\<rceil>)"

definition byDifficulty :: "real \<Rightarrow> int \<Rightarrow> int" where
  "byDifficulty difficulty numModels =
     (if numModels \<le> 1 then 0
      else let idx = trunc (difficulty * real_of_int numModels);
               idx1 = (if idx \<ge> numModels then numModels - 1 else idx)
           in if idx1 < 0 then 0 else idx1)"

record benchRouter =
  Name :: gostring
  Choose :: "real \<Rightarrow> int \<Rightarrow> int \<Rightarrow> int"

definition NaiveRouter :: benchRouter where
  "NaiveRouter = \<lparr>Name = ''naive'', Choose = (\<lambda>difficulty warm numModels. byDifficulty difficulty numModels)\<rparr>"

definition CacheAwareRouter :: benchRouter where
  "CacheAwareRouter = \<lparr>Name = ''cache-aware'',
     Choose = (\<lambda>difficulty warm numModels. if warm \<ge> 0 then warm else byDifficulty difficulty numModels)\<rparr>"

section \<open>Simulation\<close>

record modelCache =
  ca_prefixTokens :: int
  ca_lastSeen :: duration

text \<open>The state of the loop of \<open>simulateConv\<close> and its results.\<close>

record simState =
  si_caches :: "(int, modelCache) gomap"
  si_clock :: duration
  si_prefix :: int
  si_prevModel :: int
  si_cost :: usd
  si_turns :: nat
  si_warm :: nat
  si_regret :: nat

definition live_cache :: "int \<Rightarrow> duration \<Rightarrow> duration \<Rightarrow> (int, modelCache) gomap \<Rightarrow> modelCache option" where
  "live_cache i clock ttl caches =
     (case mget caches i of None \<Rightarrow> None | Some c \<Rightarrow> if clock - ca_lastSeen c \<le> ttl then Some c else None)"

definition warm_index :: "duration \<Rightarrow> duration \<Rightarrow> simState \<Rightarrow> int" where
  "warm_index clock ttl st =
     (if si_prevModel st \<ge> 0 \<and> live_cache (si_prevModel st) clock ttl (si_caches st) \<noteq> None then si_prevModel st else - 1)"

definition cached_tokens :: "int \<Rightarrow> duration \<Rightarrow> duration \<Rightarrow> int \<Rightarrow> simState \<Rightarrow> int" where
  "cached_tokens choice clock ttl prompt st =
     (case live_cache choice clock ttl (si_caches st) of
        None \<Rightarrow> 0
      | Some c \<Rightarrow> if ca_prefixTokens c > prompt then prompt else ca_prefixTokens c)"

definition input_cost :: "benchModel \<Rightarrow> int \<Rightarrow> int \<Rightarrow> usd" where
  "input_cost m prompt cached =
     (let inRate = bm_InputPerMTok m / 1000000
      in if prompt < bm_MinCacheTokens m then real_of_int prompt * inRate
         else real_of_int cached * inRate * cacheReadMult + real_of_int (prompt - cached) * inRate * cacheWriteMult)"

definition sim_turn :: "scenario \<Rightarrow> benchRouter \<Rightarrow> benchTurn \<Rightarrow> simState \<Rightarrow> simState" where
  "sim_turn sc r turn st =
     (let n = int (length (sc_Models sc));
          clock = si_clock st + bt_GapSeconds turn * second;
          choice = Choose r (bt_Difficulty turn) (warm_index clock (sc_TTL sc) st) n;
          m = sc_Models sc ! nat choice;
          outRate = bm_OutputPerMTok m / 1000000;
          prompt = si_prefix st + bt_UserTokens turn;
          small = (prompt < bm_MinCacheTokens m);
          cached = (if small then 0 else cached_tokens choice clock (sc_TTL sc) prompt st)
      in \<lparr>si_caches = (if small then si_caches st
            else mput choice \<lparr>ca_prefixTokens = prompt + bt_OutputTokens turn, ca_lastSeen = clock\<rparr> (si_caches st)),
          si_clock = clock,
          si_prefix = si_prefix st + (bt_UserTokens turn + bt_OutputTokens turn),
          si_prevModel = choice,
          si_cost = si_cost st + (input_cost m prompt cached + real_of_int (bt_OutputTokens turn) * outRate),
          si_turns = si_turns st + 1,
          si_warm = (if \<not> small \<and> cached > 0 then si_warm st + 1 else si_warm st),
          si_regret = (if bm_Quality m < bm_Quality (sc_Models sc ! nat (byDifficulty (bt_Difficulty turn) n))
            then si_regret st + 1 else si_regret st)\<rparr>)"

definition sim_start :: "conversation \<Rightarrow> simState" where
  "sim_start conv = \<lparr>si_caches = [], si_clock = 0, si_prefix = cv_SystemTokens conv, si_prevModel = - 1, si_cost = 0,
     si_turns = 0, si_warm = 0, si_regret = 0\<rparr>"

definition simulateConv :: "conversation \<Rightarrow> scenario \<Rightarrow> benchRouter \<Rightarrow> simState" where
  "simulateConv conv sc r = fold (sim_turn sc r) (cv_Turns conv) (sim_start conv)"

definition new_result :: "benchRouter \<Rightarrow> result" where
  "new_result r = \<lparr>re_Router = Name r, re_CostUSD = 0, re_Turns = 0, re_WarmTurns = 0, re_RegretTurns = 0,
     re_WarmRate = 0, re_RegretRate = 0\<rparr>"

definition add_conv :: "simState \<Rightarrow> result \<Rightarrow> result" where
  "add_conv st res = res\<lparr>re_CostUSD := re_CostUSD res + si_cost st, re_Turns := re_Turns res + si_turns st,
     re_WarmTurns := re_WarmTurns res + si_warm st, re_RegretTurns := re_RegretTurns res + si_regret st\<rparr>"

definition finalize :: "result \<Rightarrow> result" where
  "finalize r = (if re_Turns r > 0 then r\<lparr>re_WarmRate := real (re_WarmTurns r) / real (re_Turns r),
     re_RegretRate := real (re_RegretTurns r) / real (re_Turns r)\<rparr> else r)"

definition Simulate :: "scenario \<Rightarrow> benchRouter \<Rightarrow> result" where
  "Simulate sc r =
     (if sc_Models sc = [] then new_result r
      else finalize (fold (\<lambda>conv. add_conv (simulateConv conv sc r)) (sc_Conversations sc) (new_result r)))"

definition SavingsPct :: "result \<Rightarrow> result \<Rightarrow> real" where
  "SavingsPct naive cacheAware =
     (if re_CostUSD naive = 0 then 0 else (re_CostUSD naive - re_CostUSD cacheAware) / re_CostUSD naive * 100)"

definition compare_conv :: "scenario \<Rightarrow> conversation \<Rightarrow> comparison \<Rightarrow> comparison" where
  "compare_conv sc conv cmp =
     (let nv = simulateConv conv sc NaiveRouter; ca = simulateConv conv sc CacheAwareRouter;
          cmp1 = cmp\<lparr>cmp_Naive := add_conv nv (cmp_Naive cmp), cmp_CacheAware := add_conv ca (cmp_CacheAware cmp)\<rparr>
      in if si_cost ca \<ge> si_cost nv then
           cmp1\<lparr>cmp_LossConversations := cmp_LossConversations cmp + 1,
             cmp_WorstLossUSD := (let loss = si_cost ca - si_cost nv
               in if loss > cmp_WorstLossUSD cmp then loss else cmp_WorstLossUSD cmp)\<rparr>
         else cmp1)"

definition empty_result :: result where
  "empty_result = \<lparr>re_Router = [], re_CostUSD = 0, re_Turns = 0, re_WarmTurns = 0, re_RegretTurns = 0,
     re_WarmRate = 0, re_RegretRate = 0\<rparr>"

definition Compare :: "scenario \<Rightarrow> comparison" where
  "Compare sc =
     (let start = \<lparr>cmp_Naive = empty_result, cmp_CacheAware = empty_result,
            cmp_TotalConversations = length (sc_Conversations sc), cmp_LossConversations = 0, cmp_WorstLossUSD = 0,
            cmp_SavingsPct = 0\<rparr>
      in if sc_Models sc = [] then start
         else let c = fold (compare_conv sc) (sc_Conversations sc)
                    (start\<lparr>cmp_Naive := new_result NaiveRouter, cmp_CacheAware := new_result CacheAwareRouter\<rparr>);
                  c1 = c\<lparr>cmp_Naive := finalize (cmp_Naive c), cmp_CacheAware := finalize (cmp_CacheAware c)\<rparr>
              in c1\<lparr>cmp_SavingsPct := SavingsPct (cmp_Naive c1) (cmp_CacheAware c1)\<rparr>)"

section \<open>Generated workloads\<close>

record params =
  pa_Conversations :: int
  pa_MinTurns :: int
  pa_MaxTurns :: int
  pa_SystemTokens :: int
  pa_UserTokens :: int
  pa_OutputTokens :: int
  pa_TTL :: duration
  pa_ActiveGapSeconds :: int
  pa_IdleBreakChance :: real
  pa_DifficultyStickiness :: real

definition DefaultParams :: params where
  "DefaultParams = \<lparr>pa_Conversations = 500, pa_MinTurns = 3, pa_MaxTurns = 15, pa_SystemTokens = 1200,
     pa_UserTokens = 300, pa_OutputTokens = 500, pa_TTL = 5 * 60 * second, pa_ActiveGapSeconds = 20,
     pa_IdleBreakChance = 8 / 100, pa_DifficultyStickiness = 8 / 10\<rparr>"

definition DefaultModels :: "benchModel list" where
  "DefaultModels =
     [\<lparr>bm_Name = ''haiku'', bm_InputPerMTok = 1, bm_OutputPerMTok = 5, bm_Quality = 6 / 10, bm_MinCacheTokens = 2048\<rparr>,
      \<lparr>bm_Name = ''sonnet'', bm_InputPerMTok = 3, bm_OutputPerMTok = 15, bm_Quality = 8 / 10, bm_MinCacheTokens = 2048\<rparr>,
      \<lparr>bm_Name = ''opus'', bm_InputPerMTok = 5, bm_OutputPerMTok = 25, bm_Quality = 1, bm_MinCacheTokens = 4096\<rparr>]"

text \<open>The random source: \<open>Float64\<close> and \<open>Intn n\<close> with the state they leave.\<close>

record 'g rng =
  rn_Float64 :: "'g \<Rightarrow> real \<times> 'g"
  rn_Intn :: "int \<Rightarrow> 'g \<Rightarrow> int \<times> 'g"

definition jitter :: "'g rng \<Rightarrow> int \<Rightarrow> 'g \<Rightarrow> int \<times> 'g" where
  "jitter rn base g =
     (if base \<le> 0 then (0, g)
      else let delta0 = trunc (real_of_int base / 4);
               delta = (if delta0 < 1 then 1 else delta0);
               (k, g1) = rn_Intn rn (2 * delta + 1) g;
               v = base - delta + k
           in (if v < 1 then 1 else v, g1))"

definition idle_gap :: "'g rng \<Rightarrow> params \<Rightarrow> nat \<Rightarrow> int \<Rightarrow> 'g \<Rightarrow> int \<times> 'g" where
  "idle_gap rn p t gap g =
     (if t > 0 then
        let (x, g1) = rn_Float64 rn g
        in (if x < pa_IdleBreakChance p then trunc (real_of_int (pa_TTL p) / real_of_int second) + 60 else gap, g1)
      else (gap, g))"

fun gen_turns :: "'g rng \<Rightarrow> params \<Rightarrow> nat \<Rightarrow> nat \<Rightarrow> real \<Rightarrow> 'g \<Rightarrow> benchTurn list \<times> 'g" where
  "gen_turns rn p 0 t difficulty g = ([], g)"
| "gen_turns rn p (Suc k) t difficulty g =
     (let (x, g1) = rn_Float64 rn g;
          d = pa_DifficultyStickiness p * difficulty + (1 - pa_DifficultyStickiness p) * x;
          (gap0, g2) = jitter rn (pa_ActiveGapSeconds p) g1;
          (gap, g3) = idle_gap rn p t gap0 g2;
          (user, g4) = jitter rn (pa_UserTokens p) g3;
          (out, g5) = jitter rn (pa_OutputTokens p) g4;
          (ts, g6) = gen_turns rn p k (Suc t) d g5
      in (\<lparr>bt_UserTokens = user, bt_OutputTokens = out, bt_Difficulty = d, bt_GapSeconds = gap\<rparr> # ts, g6))"

definition gen_conv :: "'g rng \<Rightarrow> params \<Rightarrow> 'g \<Rightarrow> conversation \<times> 'g" where
  "gen_conv rn p g =
     (let (turns, g1) = (if pa_MaxTurns p > pa_MinTurns p then
            let (k, g') = rn_Intn rn (pa_MaxTurns p - pa_MinTurns p + 1) g in (pa_MinTurns p + k, g')
          else (pa_MinTurns p, g));
          (sys, g2) = jitter rn (pa_SystemTokens p) g1;
          (difficulty, g3) = rn_Float64 rn g2;
          (ts, g4) = gen_turns rn p (nat turns) 0 difficulty g3
      in (\<lparr>cv_SystemTokens = sys, cv_Turns = ts\<rparr>, g4))"

fun gen_convs :: "'g rng \<Rightarrow> params \<Rightarrow> nat \<Rightarrow> 'g \<Rightarrow> conversation list \<times> 'g" where
  "gen_convs rn p 0 g = ([], g)"
| "gen_convs rn p (Suc k) g =
     (let (c, g1) = gen_conv rn p g; (cs, g2) = gen_convs rn p k g1 in (c # cs, g2))"

text \<open>\<open>g\<close> is the source seeded with the seed.\<close>

definition Generate :: "'g rng \<Rightarrow> 'g \<Rightarrow> params \<Rightarrow> benchModel list \<Rightarrow> scenario" where
  "Generate rn g p models =
     \<lparr>sc_Conversations = fst (gen_convs rn p (nat (pa_Conversations p)) g), sc_Models = models, sc_TTL = pa_TTL p\<rparr>"

text \<open>The command: the comparison it prints and its exit status, 1 when cache-aware routing was not cheaper.\<close>

definition cachebench_main :: "(int \<Rightarrow> 'g) \<Rightarrow> 'g rng \<Rightarrow> int \<Rightarrow> int \<Rightarrow> comparison \<times> int" where
  "cachebench_main seeded rn seed convs =
     (let p = (if convs > 0 then DefaultParams\<lparr>pa_Conversations := convs\<rparr> else DefaultParams);
          c = Compare (Generate rn (seeded seed) p DefaultModels)
      in (c, if re_CostUSD (cmp_CacheAware c) \<ge> re_CostUSD (cmp_Naive c) then 1 else 0))"

section \<open>Warm cache properties\<close>

text \<open>A conversation is warm exactly while its last touch is at most the TTL old, and then on the model of that touch.\<close>

lemma warm_after_touch: "Warm k now (Touch k model t s) = (if time_sub now t > cs_ttl s then None else Some model)"
  by (simp add: Warm_def Touch_def)

lemma warm_other_key: "k' \<noteq> k \<Longrightarrow> Warm k' now (Touch k model t s) = Warm k' now s"
  by (simp add: Warm_def Touch_def split: option.split)

text \<open>
  The key of a conversation hashes all prior messages, so it changes with every exchange: for a hash without collisions
  the turns of one conversation have pairwise different keys.
\<close>

lemma conversation_bytes_grow:
  "ms \<noteq> [] \<Longrightarrow> length (conversation_bytes sys prior) < length (conversation_bytes sys (prior @ ms))"
  by (cases ms) (auto simp: conversation_bytes_def)

lemma turns_get_distinct_keys:
  assumes "\<And>x y. sha256hex x = sha256hex y \<Longrightarrow> x = y" and "ms \<noteq> []"
  shows "ConversationKey sha256hex sys (prior @ ms) \<noteq> ConversationKey sha256hex sys prior"
proof
  assume "ConversationKey sha256hex sys (prior @ ms) = ConversationKey sha256hex sys prior"
  then have "conversation_bytes sys (prior @ ms) = conversation_bytes sys prior"
    using assms(1) by (simp add: ConversationKey_def)
  with conversation_bytes_grow [OF assms(2), of sys prior] show False by simp
qed

section \<open>Routers stay in the pool\<close>

text \<open>
  What the simulator relies on in a \<open>Router\<close>: its choice indexes the model pool, when the warm index does (or is
  negative). Inside the locale: the loop keeps its indices and counters in range, and what a conversation can cost.
\<close>

lemma byDifficulty_range: "0 < n \<Longrightarrow> 0 \<le> byDifficulty d n \<and> byDifficulty d n < n"
  by (simp add: byDifficulty_def Let_def)

definition sim_inv :: "scenario \<Rightarrow> simState \<Rightarrow> bool" where
  "sim_inv sc st \<longleftrightarrow> si_prevModel st < int (length (sc_Models sc)) \<and> si_warm st \<le> si_turns st \<and>
     si_regret st \<le> si_turns st \<and> 0 \<le> si_prefix st \<and>
     (\<forall>k c. mget (si_caches st) k = Some c \<longrightarrow> 0 \<le> ca_prefixTokens c \<and> ca_prefixTokens c \<le> si_prefix st)"

definition turn_ok :: "benchTurn \<Rightarrow> bool" where
  "turn_ok t \<longleftrightarrow> 0 \<le> bt_UserTokens t \<and> 0 \<le> bt_OutputTokens t"

definition priced :: "real \<Rightarrow> real \<Rightarrow> real \<Rightarrow> real \<Rightarrow> scenario \<Rightarrow> bool" where
  "priced lo hi olo ohi sc \<longleftrightarrow> 0 \<le> lo \<and> 0 \<le> olo \<and>
     (\<forall>m\<in>set (sc_Models sc). lo \<le> bm_InputPerMTok m \<and> bm_InputPerMTok m \<le> hi \<and>
        olo \<le> bm_OutputPerMTok m \<and> bm_OutputPerMTok m \<le> ohi)"

text \<open>The prompts of a conversation, whichever models serve it: what came before plus the new input.\<close>

fun prompts :: "int \<Rightarrow> benchTurn list \<Rightarrow> int list" where
  "prompts prefix [] = []"
| "prompts prefix (t # ts) = (prefix + bt_UserTokens t) # prompts (prefix + (bt_UserTokens t + bt_OutputTokens t)) ts"

definition volume_cost :: "real \<Rightarrow> real \<Rightarrow> int \<Rightarrow> benchTurn list \<Rightarrow> usd" where
  "volume_cost inp out prefix ts =
     real_of_int (sum_list (prompts prefix ts)) * inp / 1000000 +
     real_of_int (sum_list (map bt_OutputTokens ts)) * out / 1000000"

lemma volume_cost_Nil [simp]: "volume_cost inp out prefix [] = 0"
  by (simp add: volume_cost_def)

lemma volume_cost_Cons:
  "volume_cost inp out prefix (t # ts) =
     real_of_int (prefix + bt_UserTokens t) * inp / 1000000 + real_of_int (bt_OutputTokens t) * out / 1000000 +
     volume_cost inp out (prefix + (bt_UserTokens t + bt_OutputTokens t)) ts"
  by (simp add: volume_cost_def field_simps)

lemma cached_tokens_range:
  assumes "sim_inv sc st" and "si_prefix st \<le> prompt"
  shows "0 \<le> cached_tokens i clock ttl prompt st" and "cached_tokens i clock ttl prompt st \<le> prompt"
  using assms by (auto simp: cached_tokens_def live_cache_def sim_inv_def split: option.splits if_splits)

lemma warm_index_range: "sim_inv sc st \<Longrightarrow> warm_index clock ttl st < int (length (sc_Models sc)) \<or> warm_index clock ttl st < 0"
  by (auto simp: warm_index_def sim_inv_def)

text \<open>Every input token bills between the read rate and the write rate.\<close>

lemma input_cost_bounds:
  assumes "0 \<le> cached" and "cached \<le> prompt" and "0 \<le> bm_InputPerMTok m"
  shows "real_of_int prompt * (bm_InputPerMTok m * cacheReadMult) / 1000000 \<le> input_cost m prompt cached"
    and "input_cost m prompt cached \<le> real_of_int prompt * (bm_InputPerMTok m * cacheWriteMult) / 1000000"
proof -
  define a b where "a = real_of_int cached * (bm_InputPerMTok m / 1000000)"
    and "b = real_of_int prompt * (bm_InputPerMTok m / 1000000)"
  have ab: "0 \<le> a" "a \<le> b"
    using assms by (auto simp: a_def b_def intro!: mult_right_mono divide_right_mono)
  have "real_of_int (prompt - cached) * (bm_InputPerMTok m / 1000000) = b - a"
    by (simp only: of_int_diff left_diff_distrib a_def b_def)
  then have cost: "input_cost m prompt cached = (if prompt < bm_MinCacheTokens m then b else a / 10 + (b - a) * 5 / 4)"
    unfolding input_cost_def Let_def cacheReadMult_def cacheWriteMult_def
    by (simp only: a_def [symmetric] b_def [symmetric]) simp
  have rate: "real_of_int prompt * (bm_InputPerMTok m * k) / 1000000 = b * k" for k
    by (simp add: b_def)
  show "real_of_int prompt * (bm_InputPerMTok m * cacheReadMult) / 1000000 \<le> input_cost m prompt cached"
    and "input_cost m prompt cached \<le> real_of_int prompt * (bm_InputPerMTok m * cacheWriteMult) / 1000000"
    using ab unfolding cost rate by (auto simp: cacheReadMult_def cacheWriteMult_def field_simps)
qed

locale bench_router =
  fixes r :: benchRouter
  assumes choose_range:
    "0 < n \<Longrightarrow> warm < n \<Longrightarrow> 0 \<le> Choose r difficulty warm n \<and> Choose r difficulty warm n < n"
begin

lemma choice_range:
  fixes d :: real and clock ttl :: duration
  assumes "sc_Models sc \<noteq> []" and "sim_inv sc st"
  defines "k \<equiv> Choose r d (warm_index clock ttl st) (int (length (sc_Models sc)))"
  shows "0 \<le> k" and "k < int (length (sc_Models sc))" and "sc_Models sc ! nat k \<in> set (sc_Models sc)"
proof -
  have "warm_index clock ttl st < int (length (sc_Models sc))"
    using warm_index_range [OF assms(2), of clock ttl] by linarith
  then show "0 \<le> k" and "k < int (length (sc_Models sc))"
    using choose_range [of "int (length (sc_Models sc))"] assms(1) by (auto simp: k_def)
  then show "sc_Models sc ! nat k \<in> set (sc_Models sc)" by simp
qed

lemma sim_turn_inv:
  assumes "sc_Models sc \<noteq> []" and "sim_inv sc st" and "turn_ok t"
  shows "sim_inv sc (sim_turn sc r t st)"
proof -
  let ?st = "sim_turn sc r t st"
  have tok: "0 \<le> bt_UserTokens t" "0 \<le> bt_OutputTokens t" using assms(3) by (auto simp: turn_ok_def)
  have prefix: "si_prefix ?st = si_prefix st + (bt_UserTokens t + bt_OutputTokens t)"
    by (simp add: sim_turn_def Let_def)
  have caches: "0 \<le> ca_prefixTokens c \<and> ca_prefixTokens c \<le> si_prefix ?st"
    if "mget (si_caches ?st) k = Some c" for k c
  proof (cases "mget (si_caches st) k = Some c")
    case True
    then have "0 \<le> ca_prefixTokens c \<and> ca_prefixTokens c \<le> si_prefix st" using assms(2) unfolding sim_inv_def by blast
    then show ?thesis using prefix tok by linarith
  next
    case False
    then have "ca_prefixTokens c = si_prefix st + bt_UserTokens t + bt_OutputTokens t"
      using that by (auto simp: sim_turn_def Let_def split: if_splits)
    moreover have "0 \<le> si_prefix st" using assms(2) by (simp add: sim_inv_def)
    ultimately show ?thesis using prefix tok by linarith
  qed
  have "si_prevModel ?st < int (length (sc_Models sc))"
    using choice_range(2) [OF assms(1,2)] by (simp add: sim_turn_def Let_def)
  moreover have "si_warm ?st \<le> si_turns ?st" "si_regret ?st \<le> si_turns ?st" "0 \<le> si_prefix ?st"
    using assms(2) prefix tok by (auto simp: sim_turn_def Let_def sim_inv_def)
  ultimately show ?thesis using caches unfolding sim_inv_def by blast
qed

lemma sim_turn_cost:
  assumes "sc_Models sc \<noteq> []" and "sim_inv sc st" and "turn_ok t" and "priced lo hi olo ohi sc"
  shows "si_cost st + (real_of_int (si_prefix st + bt_UserTokens t) * (lo * cacheReadMult) / 1000000 +
           real_of_int (bt_OutputTokens t) * olo / 1000000) \<le> si_cost (sim_turn sc r t st)"
    and "si_cost (sim_turn sc r t st) \<le>
           si_cost st + (real_of_int (si_prefix st + bt_UserTokens t) * (hi * cacheWriteMult) / 1000000 +
             real_of_int (bt_OutputTokens t) * ohi / 1000000)"
proof -
  define clock where "clock = si_clock st + bt_GapSeconds t * second"
  define k where "k = Choose r (bt_Difficulty t) (warm_index clock (sc_TTL sc) st) (int (length (sc_Models sc)))"
  define m where "m = sc_Models sc ! nat k"
  define prompt where "prompt = si_prefix st + bt_UserTokens t"
  define cached where "cached = (if prompt < bm_MinCacheTokens m then 0 else cached_tokens k clock (sc_TTL sc) prompt st)"
  have m: "lo \<le> bm_InputPerMTok m" "bm_InputPerMTok m \<le> hi" "olo \<le> bm_OutputPerMTok m" "bm_OutputPerMTok m \<le> ohi"
    and nonneg: "0 \<le> lo" "0 \<le> olo"
    using assms(4) choice_range(3) [OF assms(1,2)] by (auto simp: priced_def m_def k_def)
  have prompt: "si_prefix st \<le> prompt" "0 \<le> prompt"
    using assms(2,3) by (auto simp: prompt_def sim_inv_def turn_ok_def)
  have cached: "0 \<le> cached" "cached \<le> prompt"
    using cached_tokens_range [OF assms(2) prompt(1)] prompt(2) by (auto simp: cached_def)
  note inp = input_cost_bounds [OF cached, of m]
  have out: "real_of_int (bt_OutputTokens t) * olo / 1000000 \<le> real_of_int (bt_OutputTokens t) * (bm_OutputPerMTok m / 1000000)"
    "real_of_int (bt_OutputTokens t) * (bm_OutputPerMTok m / 1000000) \<le> real_of_int (bt_OutputTokens t) * ohi / 1000000"
    using m assms(3) by (auto simp: turn_ok_def intro!: divide_right_mono mult_left_mono)
  have rate: "real_of_int prompt * (lo * c) / 1000000 \<le> real_of_int prompt * (bm_InputPerMTok m * c) / 1000000"
    "real_of_int prompt * (bm_InputPerMTok m * c) / 1000000 \<le> real_of_int prompt * (hi * c) / 1000000" if "0 \<le> c" for c
    using m prompt that by (auto intro!: divide_right_mono mult_left_mono mult_right_mono)
  have cost: "si_cost (sim_turn sc r t st) =
      si_cost st + (input_cost m prompt cached + real_of_int (bt_OutputTokens t) * (bm_OutputPerMTok m / 1000000))"
    by (simp add: sim_turn_def Let_def clock_def k_def m_def prompt_def cached_def)
  have nn: "0 \<le> bm_InputPerMTok m" using m nonneg by simp
  show "si_cost st + (real_of_int (si_prefix st + bt_UserTokens t) * (lo * cacheReadMult) / 1000000 +
           real_of_int (bt_OutputTokens t) * olo / 1000000) \<le> si_cost (sim_turn sc r t st)"
    using inp(1) [OF nn] rate(1) [of cacheReadMult] out(1) unfolding cost prompt_def [symmetric]
    by (simp add: cacheReadMult_def)
  show "si_cost (sim_turn sc r t st) \<le>
           si_cost st + (real_of_int (si_prefix st + bt_UserTokens t) * (hi * cacheWriteMult) / 1000000 +
             real_of_int (bt_OutputTokens t) * ohi / 1000000)"
    using inp(2) [OF nn] rate(2) [of cacheWriteMult] out(2) unfolding cost prompt_def [symmetric]
    by (simp add: cacheWriteMult_def)
qed

lemma sim_turns:
  assumes "sc_Models sc \<noteq> []" and "priced lo hi olo ohi sc" and "sim_inv sc st" and "list_all turn_ok ts"
  shows "sim_inv sc (fold (sim_turn sc r) ts st)"
    and "si_cost st + volume_cost (lo * cacheReadMult) olo (si_prefix st) ts \<le> si_cost (fold (sim_turn sc r) ts st)"
    and "si_cost (fold (sim_turn sc r) ts st) \<le> si_cost st + volume_cost (hi * cacheWriteMult) ohi (si_prefix st) ts"
proof -
  have "sim_inv sc (fold (sim_turn sc r) ts st) \<and>
      si_cost st + volume_cost (lo * cacheReadMult) olo (si_prefix st) ts \<le> si_cost (fold (sim_turn sc r) ts st) \<and>
      si_cost (fold (sim_turn sc r) ts st) \<le> si_cost st + volume_cost (hi * cacheWriteMult) ohi (si_prefix st) ts"
    using assms(3,4)
  proof (induction ts arbitrary: st)
    case (Cons t ts)
    have ok: "turn_ok t" "list_all turn_ok ts" using Cons.prems(2) by auto
    let ?st = "sim_turn sc r t st"
    have prefix: "si_prefix ?st = si_prefix st + (bt_UserTokens t + bt_OutputTokens t)"
      by (simp add: sim_turn_def Let_def)
    note IH = Cons.IH [OF sim_turn_inv [OF assms(1) Cons.prems(1) ok(1)] ok(2)]
    show ?case
      using IH sim_turn_cost [OF assms(1) Cons.prems(1) ok(1) assms(2)]
      unfolding prefix by (simp add: volume_cost_Cons)
  qed simp
  then show "sim_inv sc (fold (sim_turn sc r) ts st)"
    and "si_cost st + volume_cost (lo * cacheReadMult) olo (si_prefix st) ts \<le> si_cost (fold (sim_turn sc r) ts st)"
    and "si_cost (fold (sim_turn sc r) ts st) \<le> si_cost st + volume_cost (hi * cacheWriteMult) ohi (si_prefix st) ts"
    by auto
qed

lemma simulateConv_bounds:
  assumes "sc_Models sc \<noteq> []" and "priced lo hi olo ohi sc" and "0 \<le> cv_SystemTokens conv" and "list_all turn_ok (cv_Turns conv)"
  defines "st \<equiv> simulateConv conv sc r"
  shows "si_warm st \<le> si_turns st" and "si_regret st \<le> si_turns st"
    and "volume_cost (lo * cacheReadMult) olo (cv_SystemTokens conv) (cv_Turns conv) \<le> si_cost st"
    and "si_cost st \<le> volume_cost (hi * cacheWriteMult) ohi (cv_SystemTokens conv) (cv_Turns conv)"
proof -
  have "sim_inv sc (sim_start conv)" using assms(3) by (simp add: sim_inv_def sim_start_def)
  note run = sim_turns [OF assms(1,2) this assms(4)]
  show "si_warm st \<le> si_turns st" and "si_regret st \<le> si_turns st"
    using run(1) by (simp_all add: st_def simulateConv_def sim_inv_def)
  show "volume_cost (lo * cacheReadMult) olo (cv_SystemTokens conv) (cv_Turns conv) \<le> si_cost st"
    and "si_cost st \<le> volume_cost (hi * cacheWriteMult) ohi (cv_SystemTokens conv) (cv_Turns conv)"
    using run(2,3) by (simp_all add: st_def simulateConv_def sim_start_def)
qed

end

interpretation naive: bench_router NaiveRouter
  by unfold_locales (auto simp: NaiveRouter_def byDifficulty_range)

interpretation aware: bench_router CacheAwareRouter
  by unfold_locales (auto simp: CacheAwareRouter_def byDifficulty_range)

section \<open>Comparison\<close>

lemma naive_no_regret: "si_regret st = 0 \<Longrightarrow> si_regret (sim_turn sc NaiveRouter t st) = 0"
  by (simp add: sim_turn_def Let_def NaiveRouter_def)

lemma naive_conv_no_regret: "si_regret (simulateConv conv sc NaiveRouter) = 0"
proof -
  have "si_regret (fold (sim_turn sc NaiveRouter) ts st) = 0" if "si_regret st = 0" for ts st
    using that by (induction ts arbitrary: st) (auto dest: naive_no_regret)
  then show ?thesis by (simp add: simulateConv_def sim_start_def)
qed

lemma turns_counted: "si_turns (simulateConv conv sc r) = length (cv_Turns conv)"
proof -
  have "si_turns (fold (sim_turn sc r) ts st) = si_turns st + length ts" for ts st
    by (induction ts arbitrary: st) (auto simp: sim_turn_def Let_def)
  then show ?thesis by (simp add: simulateConv_def sim_start_def)
qed

definition conv_loss :: "scenario \<Rightarrow> conversation \<Rightarrow> usd" where
  "conv_loss sc conv = si_cost (simulateConv conv sc CacheAwareRouter) - si_cost (simulateConv conv sc NaiveRouter)"

lemma compare_fold:
  defines "run r \<equiv> (\<lambda>sc conv. add_conv (simulateConv conv sc r))"
  shows "cmp_Naive (fold (compare_conv sc) cs c) = fold (run NaiveRouter sc) cs (cmp_Naive c)"
    and "cmp_CacheAware (fold (compare_conv sc) cs c) = fold (run CacheAwareRouter sc) cs (cmp_CacheAware c)"
    and "cmp_TotalConversations (fold (compare_conv sc) cs c) = cmp_TotalConversations c"
    and "cmp_LossConversations (fold (compare_conv sc) cs c) =
      cmp_LossConversations c + length (filter (\<lambda>conv. conv_loss sc conv \<ge> 0) cs)"
    and "0 \<le> cmp_WorstLossUSD c \<Longrightarrow> cmp_WorstLossUSD (fold (compare_conv sc) cs c) =
      fold (\<lambda>conv. max (conv_loss sc conv)) cs (cmp_WorstLossUSD c)"
  by (induction cs arbitrary: c) (simp_all add: compare_conv_def Let_def run_def conv_loss_def max_def)

lemma fold_max: "fold (\<lambda>x. max (f x)) xs a = Max (insert a (f ` set xs))" for a :: real
proof (induction xs arbitrary: a)
  case (Cons x xs)
  have "Max (insert (max (f x) a) (f ` set xs)) = max (f x) (Max (insert a (f ` set xs)))"
    by (cases "f ` set xs = {}") (simp_all add: max.assoc)
  also have "\<dots> = Max (insert (f x) (insert a (f ` set xs)))" by (rule Max_insert [symmetric]) auto
  finally show ?case using Cons.IH [of "max (f x) a"] by (simp only: fold_simps list.set image_insert insert_commute)
qed simp

text \<open>
  C40. Comparing the two routers in one pass is simulating each of them: for a non-empty pool, the naive and the cache-aware
  result of \<open>Compare\<close> are those of \<open>Simulate\<close>, the loss count is the number of conversations where cache-aware costs at
  least as much as naive, the worst loss is the greatest difference (zero when it never loses), and the savings are those
  of the two results.
\<close>

theorem compare_is_simulate:
  assumes "sc_Models sc \<noteq> []"
  shows "cmp_Naive (Compare sc) = Simulate sc NaiveRouter \<and>
    cmp_CacheAware (Compare sc) = Simulate sc CacheAwareRouter \<and>
    cmp_TotalConversations (Compare sc) = length (sc_Conversations sc) \<and>
    cmp_LossConversations (Compare sc) = length (filter (\<lambda>conv. conv_loss sc conv \<ge> 0) (sc_Conversations sc)) \<and>
    cmp_WorstLossUSD (Compare sc) = Max (insert 0 (conv_loss sc ` set (sc_Conversations sc))) \<and>
    cmp_SavingsPct (Compare sc) = SavingsPct (Simulate sc NaiveRouter) (Simulate sc CacheAwareRouter)"
  using assms by (simp add: Compare_def Let_def Simulate_def compare_fold fold_max)

text \<open>A pool of two models and a conversation of two warm turns, after which the difficulty falls.\<close>

definition ex_scenario :: scenario where
  "ex_scenario = \<lparr>sc_Conversations = [\<lparr>cv_SystemTokens = 3000, cv_Turns =
       [\<lparr>bt_UserTokens = 100, bt_OutputTokens = 200, bt_Difficulty = 9 / 10, bt_GapSeconds = 10\<rparr>,
        \<lparr>bt_UserTokens = 100, bt_OutputTokens = 200, bt_Difficulty = 1 / 10, bt_GapSeconds = 20\<rparr>]\<rparr>],
     sc_Models = [DefaultModels ! 0, DefaultModels ! 1], sc_TTL = 300 * second\<rparr>"

theorem compare_is_simulate_witness:
  "cmp_Naive (Compare ex_scenario) = Simulate ex_scenario NaiveRouter \<and>
   cmp_CacheAware (Compare ex_scenario) = Simulate ex_scenario CacheAwareRouter"
  using compare_is_simulate [of ex_scenario] by (simp add: ex_scenario_def)

text \<open>
  What a simulated conversation can report, for either router: one turn per turn of the conversation, of which warm
  and regretted ones are a part, none regretted by the naive router; and its cost lies between every prompt token
  billed at the cache-read rate of the cheapest model and every prompt token billed at the cache-write rate of the
  dearest, plus the output at their output rates.
\<close>

theorem simulation_bounds:
  assumes "sc_Models sc \<noteq> []" and "priced lo hi olo ohi sc" and "0 \<le> cv_SystemTokens conv"
    and "list_all turn_ok (cv_Turns conv)" and "r = NaiveRouter \<or> r = CacheAwareRouter"
  shows "si_turns (simulateConv conv sc r) = length (cv_Turns conv) \<and>
    si_warm (simulateConv conv sc r) \<le> length (cv_Turns conv) \<and>
    si_regret (simulateConv conv sc r) \<le> length (cv_Turns conv) \<and>
    si_regret (simulateConv conv sc NaiveRouter) = 0 \<and>
    volume_cost (lo * cacheReadMult) olo (cv_SystemTokens conv) (cv_Turns conv) \<le> si_cost (simulateConv conv sc r) \<and>
    si_cost (simulateConv conv sc r) \<le> volume_cost (hi * cacheWriteMult) ohi (cv_SystemTokens conv) (cv_Turns conv)"
  using assms(5) naive.simulateConv_bounds [OF assms(1-4)] aware.simulateConv_bounds [OF assms(1-4)]
  by (auto simp: turns_counted naive_conv_no_regret)

theorem simulation_bounds_witness:
  "volume_cost (1 * cacheReadMult) 5 3000 (cv_Turns (hd (sc_Conversations ex_scenario)))
     \<le> si_cost (simulateConv (hd (sc_Conversations ex_scenario)) ex_scenario CacheAwareRouter) \<and>
   si_cost (simulateConv (hd (sc_Conversations ex_scenario)) ex_scenario CacheAwareRouter)
     \<le> volume_cost (3 * cacheWriteMult) 15 3000 (cv_Turns (hd (sc_Conversations ex_scenario)))"
  using simulation_bounds [of ex_scenario 1 3 5 15 "hd (sc_Conversations ex_scenario)" CacheAwareRouter]
  by (simp add: ex_scenario_def priced_def turn_ok_def DefaultModels_def)

section \<open>Generated workloads\<close>

text \<open>What \<open>math/rand\<close> documents: \<open>Float64\<close> lies in the half-open unit interval, \<open>Intn(n)\<close> among the numbers below \<open>n\<close>.\<close>

definition rng_ok :: "'g rng \<Rightarrow> bool" where
  "rng_ok rn \<longleftrightarrow> (\<forall>g. 0 \<le> fst (rn_Float64 rn g) \<and> fst (rn_Float64 rn g) < 1) \<and>
     (\<forall>n g. 0 < n \<longrightarrow> 0 \<le> fst (rn_Intn rn n g) \<and> fst (rn_Intn rn n g) < n)"

lemma rng_float: "rng_ok rn \<Longrightarrow> rn_Float64 rn g = (x, g') \<Longrightarrow> 0 \<le> x \<and> x < 1"
  by (metis rng_ok_def fst_conv)

lemma rng_int: "rng_ok rn \<Longrightarrow> 0 < n \<Longrightarrow> rn_Intn rn n g = (x, g') \<Longrightarrow> 0 \<le> x \<and> x < n"
  by (metis rng_ok_def fst_conv)

text \<open>A jittered value is within a quarter of a positive base (or one of it, when the base is below eight), and positive.\<close>

definition near :: "int \<Rightarrow> int \<Rightarrow> bool" where
  "near base v \<longleftrightarrow> (if base \<le> 0 then v = 0 else 1 \<le> v \<and> \<bar>v - base\<bar> \<le> max 1 (base div 4))"

lemma trunc_quarter: "0 \<le> b \<Longrightarrow> trunc (real_of_int b / 4) = b div 4"
  using floor_divide_of_int_eq [of b 4, where 'a = real] by (simp add: trunc_def)

lemma jitter_near: "rng_ok rn \<Longrightarrow> jitter rn base g = (v, g') \<Longrightarrow> near base v"
proof (cases "base \<le> 0")
  case False
  assume rng: "rng_ok rn" and j: "jitter rn base g = (v, g')"
  define delta where "delta = max 1 (base div 4)"
  obtain k g1 where k: "rn_Intn rn (2 * delta + 1) g = (k, g1)" by fastforce
  have "v = max 1 (base - delta + k)"
    using j False k by (simp add: jitter_def Let_def trunc_quarter delta_def max_def split: if_splits)
  moreover have "0 \<le> k" "k < 2 * delta + 1"
    using rng_int [OF rng _ k] by (auto simp: delta_def)
  moreover have "1 \<le> delta" by (simp add: delta_def)
  ultimately have "\<bar>v - base\<bar> \<le> delta" "1 \<le> v" using False by (auto simp: max_def)
  then show ?thesis using False by (simp add: near_def delta_def)
qed (simp add: jitter_def near_def)

definition gap_ok :: "params \<Rightarrow> int \<Rightarrow> bool" where
  "gap_ok p gap \<longleftrightarrow> near (pa_ActiveGapSeconds p) gap \<or> pa_TTL p < gap * second"

lemma idle_gap_ok:
  assumes "0 \<le> pa_TTL p" and "near (pa_ActiveGapSeconds p) gap0" and "idle_gap rn p t gap0 g = (gap, g')"
  shows "gap_ok p gap"
proof -
  have "trunc (real_of_int (pa_TTL p) / real_of_int second) = pa_TTL p div second"
    using assms(1) floor_divide_of_int_eq [of "pa_TTL p" second, where 'a = real] by (simp add: trunc_def second_def)
  moreover have "pa_TTL p < (pa_TTL p div second + 60) * second" by (simp add: second_def)
  ultimately show ?thesis
    using assms by (auto simp: idle_gap_def gap_ok_def split: prod.splits if_splits)
qed

definition turn_near :: "params \<Rightarrow> benchTurn \<Rightarrow> bool" where
  "turn_near p t \<longleftrightarrow> near (pa_UserTokens p) (bt_UserTokens t) \<and> near (pa_OutputTokens p) (bt_OutputTokens t) \<and>
     0 \<le> bt_Difficulty t \<and> bt_Difficulty t < 1 \<and> gap_ok p (bt_GapSeconds t)"

definition conv_near :: "params \<Rightarrow> conversation \<Rightarrow> bool" where
  "conv_near p c \<longleftrightarrow> near (pa_SystemTokens p) (cv_SystemTokens c) \<and>
     pa_MinTurns p \<le> int (length (cv_Turns c)) \<and> int (length (cv_Turns c)) \<le> max (pa_MinTurns p) (pa_MaxTurns p) \<and>
     list_all (turn_near p) (cv_Turns c)"

lemma sticky_difficulty:
  fixes s d x :: real
  assumes "0 \<le> s" "s \<le> 1" "0 \<le> d" "d < 1" "0 \<le> x" "x < 1"
  shows "0 \<le> s * d + (1 - s) * x" and "s * d + (1 - s) * x < 1"
proof -
  show "0 \<le> s * d + (1 - s) * x" using assms by simp
  show "s * d + (1 - s) * x < 1" using convex_bound_lt [of d 1 x s "1 - s"] assms by simp
qed

lemma gen_turns_near:
  assumes "rng_ok rn" and "0 \<le> pa_TTL p" and "0 \<le> pa_DifficultyStickiness p" and "pa_DifficultyStickiness p \<le> 1"
    and "0 \<le> d" and "d < 1" and "gen_turns rn p k t d g = (ts, g')"
  shows "length ts = k \<and> list_all (turn_near p) ts"
  using assms(5-)
proof (induction k arbitrary: t d g ts g')
  case (Suc k)
  obtain x g1 where x: "rn_Float64 rn g = (x, g1)" by (cases "rn_Float64 rn g")
  let ?d = "pa_DifficultyStickiness p * d + (1 - pa_DifficultyStickiness p) * x"
  obtain gap0 g2 where gap0: "jitter rn (pa_ActiveGapSeconds p) g1 = (gap0, g2)" by fastforce
  obtain gap g3 where gap: "idle_gap rn p t gap0 g2 = (gap, g3)" by fastforce
  obtain user g4 where user: "jitter rn (pa_UserTokens p) g3 = (user, g4)" by fastforce
  obtain out g5 where out: "jitter rn (pa_OutputTokens p) g4 = (out, g5)" by fastforce
  obtain ts' g6 where ts': "gen_turns rn p k (Suc t) ?d g5 = (ts', g6)" by fastforce
  have x01: "0 \<le> x" "x < 1" using rng_float [OF assms(1) x] by auto
  note d = sticky_difficulty [OF assms(3,4) Suc.prems(1,2) x01]
  have "ts = \<lparr>bt_UserTokens = user, bt_OutputTokens = out, bt_Difficulty = ?d, bt_GapSeconds = gap\<rparr> # ts'"
    using Suc.prems(3) by (simp add: x gap0 gap user out ts')
  then show ?case
    using Suc.IH [OF d ts'] d jitter_near [OF assms(1) user] jitter_near [OF assms(1) out]
      idle_gap_ok [OF assms(2) jitter_near [OF assms(1) gap0] gap]
    by (simp add: turn_near_def)
qed simp

lemma gen_conv_near:
  assumes "rng_ok rn" and "0 \<le> pa_TTL p" and "0 \<le> pa_DifficultyStickiness p" and "pa_DifficultyStickiness p \<le> 1"
    and "0 \<le> pa_MinTurns p" and "gen_conv rn p g = (c, g')"
  shows "conv_near p c"
proof -
  define first where "first = (if pa_MaxTurns p > pa_MinTurns p then
    let (k, g') = rn_Intn rn (pa_MaxTurns p - pa_MinTurns p + 1) g in (pa_MinTurns p + k, g') else (pa_MinTurns p, g))"
  obtain turns g1 where turns: "first = (turns, g1)" by fastforce
  obtain sys g2 where sys: "jitter rn (pa_SystemTokens p) g1 = (sys, g2)" by fastforce
  obtain d g3 where d: "rn_Float64 rn g2 = (d, g3)" by fastforce
  obtain ts g4 where ts: "gen_turns rn p (nat turns) 0 d g3 = (ts, g4)" by fastforce
  have c: "c = \<lparr>cv_SystemTokens = sys, cv_Turns = ts\<rparr>"
    using assms(6) by (simp add: gen_conv_def turns [unfolded first_def] sys d ts)
  have range: "pa_MinTurns p \<le> turns" "turns \<le> max (pa_MinTurns p) (pa_MaxTurns p)"
    using turns rng_int [OF assms(1), of "pa_MaxTurns p - pa_MinTurns p + 1" g]
    by (auto simp: first_def Let_def split: prod.splits if_splits)
  have d01: "0 \<le> d" "d < 1" using rng_float [OF assms(1) d] by auto
  show ?thesis
    using gen_turns_near [OF assms(1-4) d01 ts] jitter_near [OF assms(1) sys] range assms(5)
    by (simp add: conv_near_def c)
qed

lemma gen_convs_near:
  assumes "rng_ok rn" and "0 \<le> pa_TTL p" and "0 \<le> pa_DifficultyStickiness p" and "pa_DifficultyStickiness p \<le> 1"
    and "0 \<le> pa_MinTurns p" and "gen_convs rn p k g = (cs, g')"
  shows "length cs = k \<and> list_all (conv_near p) cs"
  using assms(6)
proof (induction k arbitrary: g cs g')
  case (Suc k)
  obtain c g1 where c: "gen_conv rn p g = (c, g1)" by fastforce
  obtain cs' g2 where cs': "gen_convs rn p k g1 = (cs', g2)" by fastforce
  show ?case using Suc.prems Suc.IH [OF cs'] gen_conv_near [OF assms(1-5) c] by (auto simp: c cs')
qed simp

text \<open>
  A generated workload has the asked number of conversations, and in each, whatever the random source yields:
  between the minimum and the maximum of turns, token counts within a quarter of their base and never below one, a
  difficulty in the half-open unit interval, and gaps that are near the active gap or outlast the cache's TTL.
\<close>

theorem generated_workload:
  assumes "rng_ok rn" and "0 \<le> pa_TTL p" and "0 \<le> pa_DifficultyStickiness p" and "pa_DifficultyStickiness p \<le> 1"
    and "0 \<le> pa_MinTurns p"
  shows "length (sc_Conversations (Generate rn g p models)) = nat (pa_Conversations p) \<and>
    list_all (conv_near p) (sc_Conversations (Generate rn g p models))"
  using gen_convs_near [OF assms, of "nat (pa_Conversations p)" g] by (simp add: Generate_def prod_eq_iff)

text \<open>A source that counts its draws and yields the middle of each range.\<close>

definition ex_rng :: "nat rng" where
  "ex_rng = \<lparr>rn_Float64 = (\<lambda>g. (1 / 2, Suc g)), rn_Intn = (\<lambda>n g. (n div 2, Suc g))\<rparr>"

lemma ex_rng_ok: "rng_ok ex_rng" by (auto simp: rng_ok_def ex_rng_def)

theorem generated_workload_witness:
  "length (sc_Conversations (Generate ex_rng 0 (DefaultParams\<lparr>pa_Conversations := 2\<rparr>) DefaultModels)) = 2 \<and>
   list_all (conv_near DefaultParams) (sc_Conversations (Generate ex_rng 0 DefaultParams DefaultModels))"
  using generated_workload [of ex_rng "DefaultParams\<lparr>pa_Conversations := 2\<rparr>" 0 DefaultModels]
    generated_workload [of ex_rng DefaultParams 0 DefaultModels]
  by (simp add: ex_rng_ok DefaultParams_def second_def conv_near_def [abs_def] turn_near_def [abs_def] gap_ok_def [abs_def])

end
