(* ===== verification/Spec2Isabelle.thy ===== *)
theory Spec2Isabelle
  imports FirewallTickets Enforcer Health Router Ledger ControlsLimits Broker PolicyAdminProps GuardProps Observe CacheBench
begin

text \<open>
  Heave: a verification development for the LLM gateway of this repository.

  \<^bold>\<open>The program.\<close> Heave is one OpenAI-compatible HTTP endpoint in front of many model vendors
  (\<open>cmd/heave/main.go\<close>). A chat request is authenticated and rate-limited by the client guard
  (\<open>internal/controls\<close>), scrubbed (\<open>internal/redact\<close>), routed to a chain of models (\<open>internal/router\<close>),
  charged up front against a monthly budget, admitted by the spend firewall (\<open>internal/firewall\<close>), and sent to
  the first healthy provider (\<open>internal/health\<close>) with quota left (\<open>internal/broker\<close>) through its adapter
  (\<open>internal/provider\<close>). What it cost is settled in the guard, the firewall and the broker and booked in the ledger
  (\<open>internal/ledger\<close>), which hands it to a durable sink (\<open>internal/pgledger\<close>). With the control plane on, a
  key belongs to a node of an organisation tree (\<open>internal/policy\<close>), and the request must fit under every node
  above it (\<open>internal/enforcer\<close>); operators manage the tree over HTTP (\<open>internal/server/policy_admin.go\<close>),
  log in to a console (\<open>internal/console\<close>, \<open>internal/server/console_http.go\<close>), and external enforcement
  points reserve and settle spend with signed tokens (\<open>internal/server/guard.go\<close>). Replicas share kills, caps and
  quotas in Redis (\<open>internal/redisstore\<close>).

  \<^bold>\<open>Conventions.\<close> Pure functions are HOL functions; an operation on a struct takes the record and returns the
  updated one; errors are values (a sum, an option or a reply); definitions carry the Go name, with a prefix where
  it clashes. Dollars and other \<open>float64\<close> values are exact reals; token counts wrap around in 64 bits
  (\<open>wrap64\<close>). A call site reads the clock and the random source under an index of its own, so no two readings
  are assumed to agree. A mutex makes the locked section one atomic step; where goroutines interleave (requests on
  the firewall, the kill store, the sink, the replicas of the guard API) executions are sequences of such steps.
  What is outside \<open>src/\<close> is an argument: the Redis server, Postgres, vendors and their SDK, identity providers,
  SHA-256, HMAC, PBKDF2, JSON and YAML coding, \<open>regexp.Compile\<close>, the file system and the environment. What the
  code relies on of them are named hypotheses or the assumptions of a locale, and each is instantiated by a
  concrete function in the witnesses.

  \<^bold>\<open>The theories.\<close>
  \<^item> \<open>Prelude\<close>: integers, instants, Go maps (the interface \<open>go_table\<close>), byte strings, rings.
  \<^item> \<open>Window\<close>, \<open>KillStore\<close>, \<open>Firewall\<close>: the data and operations of \<open>firewall.go\<close>. \<open>FirewallScopes\<close>
    gives the observers (the reading, the in-flight count, the run spend of a key) on which \<open>FirewallAdmit\<close>,
    \<open>FirewallEnter\<close> and \<open>FirewallShared\<close> state what one request does, and \<open>FirewallRuns\<close> and
    \<open>FirewallTickets\<close> what whole executions and tickets do. The rolling minute is a ring of 60 seconds, which is
    proved to read as the sum of the last 60 seconds of a log; scope keys are at most 512 bytes, at most
    100000 kills are kept, and from 50000 scopes on idle ones are swept at every admit.
  \<^item> \<open>Policy\<close>, \<open>PolicyResolve\<close>: the store of \<open>policy.go\<close> and \<open>Resolve\<close>. The ancestry walk is a
    \<open>partial_function\<close>; on the stores the operations build (three levels deep) it terminates. \<open>Enforcer\<close>:
    \<open>Translate\<close> and the resolver, whose chains the firewall accepts.
  \<^item> \<open>Controls\<close>, \<open>ControlsLimits\<close>: \<open>controls.go\<close>; the bucket by a potential function, the budget over
    sequences of reservations and settlements.
  \<^item> \<open>Router\<close>, \<open>Health\<close>, \<open>Ledger\<close> (20000 attribution keys and the overflow key, a ring of 200 events),
    \<open>DurableLedger\<close> (the sink as a step relation \<open>sink_step\<close> over a buffer of 4096 and batches of 256).
  \<^item> \<open>ScopeStore\<close>, \<open>ScopeStoreCaps\<close>: \<open>redisstore\<close> with its three Lua scripts on a server given by its
    commands (the locale \<open>redis_server\<close>, interpreted on an in-memory data set); \<open>Broker\<close> on the interface
    \<open>scope_store\<close>, which the Redis store provides.
  \<^item> \<open>Wire\<close>, \<open>Dispatch\<close>, \<open>Server\<close>: the request path of \<open>server.go\<close> from the bearer token to the reply,
    unary and streaming; \<open>ServerProps\<close>, \<open>ServerHandlers\<close>, \<open>ServerKill\<close>: its properties. \<open>Observe\<close>: the
    routes, the read-only endpoints and the window of a spend report (at most 90 days).
  \<^item> \<open>Adapters\<close>: \<open>anthropic.go\<close> and \<open>openaicompat.go\<close> (bodies of 16 MiB, event lines of 1 MiB).
    \<open>Redact\<close>: the rules as regular expressions with Go's leftmost-first matching.
  \<^item> \<open>Base64\<close>, \<open>Console\<close>, \<open>ConsoleProps\<close>: tokens, password hashes, sessions and logins. \<open>GuardAPI\<close>,
    \<open>GuardProps\<close>: the decision API. \<open>PolicyAdmin\<close>, \<open>PolicyAdminProps\<close>: the management API.
  \<^item> \<open>Config\<close>: \<open>Load\<close> and every check of \<open>validate\<close>. \<open>Gateway\<close>: how \<open>run\<close> wires the parts.
  \<^item> \<open>CacheBench\<close>: the warm-cache state of \<open>internal/cache\<close> and the simulator of \<open>internal/cachebench\<close>.

  \<^bold>\<open>What the properties show.\<close> Limits hold: an admitted request is within every cap of its chain, in one
  process and across replicas, over whole executions; budgets are exceeded at most by estimate errors; rates and
  provider quotas are bounded; what is charged is what the ledger books. Kills hold: a recorded kill stops the run
  (or the traffic under a node) on every path, stays recorded while the run is retried, and touches no other run.
  Refusals leave no trace, and whoever is not authenticated changes nothing. The optimised structures refine their
  specifications: the ring a log, the breaker a history of outcomes, the Lua script an atomic check-then-reserve,
  the one-pass comparison two simulations. Tokens, tickets and reservations are read back exactly and settled at
  most once. Whatever is written to the durable sink is stored, in flight or counted, and its shutdown ends. A
  configuration loads exactly when it is well formed, and the gateway built from it serves every model by its
  configured chain and holds what the shared store promises.

  \<^bold>\<open>Bounds.\<close> Loops of the sources are structural recursion, \<open>function\<close> with a measure (scanning, matching,
  durations), or \<open>partial_function (option)\<close> (the ancestry walk); no definition uses fuel. A concurrency hold
  lives at least 300 seconds and 60 seconds more than the request timeout, which is proved to outlive the request.

  \<^bold>\<open>Not modelled.\<close> The embedded console and dashboard pages (static assets); logging; serving, signals and
  graceful shutdown in \<open>main\<close>; request contexts and timeouts other than through what the world answers; the
  schema and connection of Postgres and the connection pool of Redis; the floating-point rounding of dollar
  amounts; the transport of the two identity providers beyond how their answers are read; the printing of
  \<open>cachebench\<close>. The data races of the sources that a mutex or an atomic excludes are excluded in the model by the
  atomic steps.
\<close>

end
